(* ===== verification/Prelude.thy ===== *)
theory Prelude
  imports Main "HOL-Library.Word"
begin

text \<open>
  Shared vocabulary of the development: the widths of the C integer types of the ARM32
  target, the host's \<open>errno\<close> values, the outcome of a C function that can fail, the value
  a system call hands back to the guest, and the byte-addressed guest memory with its
  little-endian loads and stores. The lemmas collected here (no overflow of guarded
  additions, powers of two, loads after disjoint stores) are the ones every component
  theory uses.
\<close>

unbundle bit_operations_syntax

section \<open>Machine integers\<close>

type_synonym u8 = "8 word"
type_synonym u16 = "16 word"
type_synonym u32 = "32 word"
type_synonym u64 = "64 word"

text \<open>\<open>UINTPTR_MAX\<close> (also \<open>SIZE_MAX\<close>) of the 32-bit host, \<open>INT_MAX\<close> and \<open>INT32_MAX\<close>.\<close>

abbreviation UINTPTR_MAX :: u32 where
  "UINTPTR_MAX \<equiv> 0xFFFFFFFF"

abbreviation INT_MAX :: int where
  "INT_MAX \<equiv> 0x7FFFFFFF"

named_theorems range_simps
  \<open>a guarded base plus length does not wrap around\<close>

named_theorems mem_simps
  \<open>loads from guest memory after stores\<close>

lemma unat_u32_less: "unat (a :: u32) < 4294967296"
  using unsigned_less [of a, where 'a = nat] by simp

lemma unat_UINTPTR_MAX_diff: "unat (UINTPTR_MAX - a) = 4294967295 - unat (a :: u32)"
proof -
  have "unat a \<le> 4294967295" using unat_u32_less [of a] by simp
  then have "a \<le> UINTPTR_MAX" by (simp add: word_le_nat_alt)
  then show ?thesis by (simp add: unat_sub)
qed

text \<open>
  The guard \<open>length > UINTPTR_MAX - address\<close> is how the sources exclude wrap-around: it
  fails exactly when the sum stays below \<open>2 ^ 32\<close>.
\<close>

lemma range_guard_iff: "len \<le> UINTPTR_MAX - a \<longleftrightarrow> unat (a :: u32) + unat len < 4294967296"
  using unat_u32_less [of a] by (auto simp: word_le_nat_alt unat_UINTPTR_MAX_diff)

lemma unat_add_guarded [range_simps]:
  "len \<le> UINTPTR_MAX - a \<Longrightarrow> unat (a + len) = unat (a :: u32) + unat len"
  using range_guard_iff [of len a] unat_add_lem [of a len] by simp

lemma add_guarded_le [range_simps]: "len \<le> UINTPTR_MAX - a \<Longrightarrow> (a :: u32) \<le> a + len"
  by (simp add: word_le_nat_alt unat_add_guarded)

lemma add_guarded_less [range_simps]:
  "len \<le> UINTPTR_MAX - a \<Longrightarrow> len \<noteq> 0 \<Longrightarrow> (a :: u32) < a + len"
  by (simp add: word_less_nat_alt unat_add_guarded unat_gt_0)

section \<open>Powers of two\<close>

lemma pow2_nat_and: "(x :: nat) AND (x - 1) = 0 \<Longrightarrow> x \<noteq> 0 \<Longrightarrow> \<exists>k. x = 2 ^ k"
proof (induction x rule: less_induct)
  case (less x)
  show ?case
  proof (cases "even x")
    case True
    then obtain y where y: "x = 2 * y" by blast
    with less.prems have y0: "y \<noteq> 0" by simp
    have "x - 1 = 2 * (y - 1) + 1" using y y0 by simp
    then have "x AND (x - 1) = 2 * (y AND (y - 1))"
      using y by (subst and_rec) simp
    with less.prems have "y AND (y - 1) = 0" by simp
    with less.IH [of y] y y0 obtain k where "y = 2 ^ k" by auto
    then have "x = 2 ^ Suc k" using y by simp
    then show ?thesis by blast
  next
    case False
    then obtain y where y: "x = 2 * y + 1" using oddE by blast
    then have "x AND (x - 1) = 2 * y"
      by (subst and_rec) simp
    with less.prems y have "x = 2 ^ 0" by simp
    then show ?thesis by blast
  qed
qed

text \<open>The test \<open>(x & (x - 1)) == 0\<close> accepts, among nonzero values, only powers of two.\<close>

lemma pow2_word_and:
  assumes "(x :: u32) AND (x - 1) = 0" and "x \<noteq> 0"
  shows "\<exists>k<32. x = 2 ^ k"
proof -
  have "unat (x - 1) = unat x - 1" using assms(2) by (simp add: unat_minus_one)
  then have "unat x AND (unat x - 1) = 0"
    using assms(1) by (metis unsigned_0 unsigned_and_eq)
  with assms(2) obtain k where k: "unat x = 2 ^ k"
    using pow2_nat_and [of "unat x"] by (auto simp: unat_eq_0)
  with unat_u32_less [of x] have "k < 32"
    using power_less_imp_less_exp [of "2 :: nat" k 32] by simp
  moreover have "x = of_nat (unat x)" by simp
  then have "x = 2 ^ k" using k by simp
  ultimately show ?thesis by blast
qed

lemma pow2_word_and_conv: "k < 32 \<Longrightarrow> (2 ^ k :: u32) AND (2 ^ k - 1) = 0"
  by (rule bit_word_eqI) (auto simp: bit_simps simp flip: mask_eq_decr_exp)

lemma unat_pow2_u32: "k < 32 \<Longrightarrow> unat (2 ^ k :: u32) = 2 ^ k"
  using unat_of_nat [of "2 ^ k", where 'a = 32] power_strict_increasing [of k 32 "2 :: nat"]
  by simp

lemma and_not_mask_diff: "v AND NOT (mask k) = v - (take_bit k v :: 'a::len word)"
proof -
  have "v AND NOT (mask k) = v AND NOT (take_bit k v)"
    by (rule bit_word_eqI) (auto simp: bit_simps)
  also have "\<dots> = v - take_bit k v"
    by (rule disjunctive_diff [symmetric]) (simp add: bit_simps)
  finally show ?thesis .
qed

lemma find_append: "find P (xs @ ys) = (case find P xs of None \<Rightarrow> find P ys | r \<Rightarrow> r)"
  by (induction xs) auto

section \<open>Errors and results\<close>

text \<open>
  The host's \<open>errno\<close> values by name. \<open>NoError\<close> is 0, and \<open>OtherErrno\<close> covers the
  host codes the sources never name; the numbers behind the names belong to the host's
  \<open>errno.h\<close> and are a parameter wherever a source file lets a raw host number reach the
  guest.
\<close>

datatype (plugins only: code size) host_errno =
    NoError | EPERM | ENOENT | ESRCH | EINTR | EIO | ENXIO | E2BIG | ENOEXEC | EBADF
  | ECHILD | EAGAIN | ENOMEM | EACCES | EFAULT | EBUSY | EEXIST | EXDEV | ENODEV
  | ENOTDIR | EISDIR | EINVAL | ENFILE | EMFILE | ENOTTY | EFBIG | ENOSPC | ESPIPE
  | EROFS | EMLINK | EPIPE | ERANGE | ENAMETOOLONG | ENOSYS | ENOTEMPTY | ELOOP
  | ENOTSOCK | EDESTADDRREQ | EMSGSIZE | EPROTOTYPE | ENOPROTOOPT | EPROTONOSUPPORT
  | ESOCKTNOSUPPORT | EOPNOTSUPP | EPFNOSUPPORT | EAFNOSUPPORT | EADDRINUSE
  | EADDRNOTAVAIL | ENETDOWN | ENETUNREACH | ENETRESET | ECONNABORTED | ECONNRESET
  | ENOBUFS | EISCONN | ENOTCONN | ESHUTDOWN | ETOOMANYREFS | ETIMEDOUT
  | ECONNREFUSED | EHOSTDOWN | EHOSTUNREACH | EALREADY | EINPROGRESS | EOVERFLOW
  | OtherErrno int

text \<open>
  The outcome of a C function of the emulator: it returns a value, it fails after storing
  a given \<open>errno\<close>, it fails leaving \<open>errno\<close> as it was (\<open>FailStale\<close>), it writes outside
  an array (\<open>Fault\<close>), or it never returns (\<open>Hang\<close>).
\<close>

datatype 'a outcome = Done 'a | Fail host_errno | FailStale | Fault | Hang

fun errno_after :: "host_errno \<Rightarrow> 'a outcome \<Rightarrow> host_errno" where
  "errno_after old (Fail e) = e"
| "errno_after old _ = old"

fun is_done :: "'a outcome \<Rightarrow> bool" where
  "is_done (Done _) = True"
| "is_done _ = False"

lemma is_done_iff: "is_done r \<longleftrightarrow> (\<exists>v. r = Done v)"
  by (cases r) auto

text \<open>
  What a system-call handler hands to the guest in \<open>r0\<close>: a value, a host \<open>errno\<close>
  translated by \<open>linux_errno_number\<close> (\<open>Translated\<close>), a host constant negated as it is
  (\<open>RawHost\<close>, the sources' \<open>return -EINVAL\<close>), or a Linux number written out
  (\<open>LinuxErr\<close>, as in \<open>return -38\<close>).
\<close>

datatype sysret = Value int | Translated host_errno | RawHost host_errno | LinuxErr int

section \<open>Guest memory\<close>

text \<open>
  Guest memory is byte-addressed over the 32-bit address space. Addresses wrap, so the
  distance of \<open>x\<close> from \<open>a\<close> is \<open>unat (x - a)\<close>, and a store of a byte string at \<open>a\<close>
  touches the addresses at a distance below its length.
\<close>

type_synonym mem = "u32 \<Rightarrow> u8"

definition store_bytes :: "mem \<Rightarrow> u32 \<Rightarrow> u8 list \<Rightarrow> mem" where
  "store_bytes m a bs = (\<lambda>x. if unat (x - a) < length bs then bs ! unat (x - a) else m x)"

definition load_bytes :: "mem \<Rightarrow> u32 \<Rightarrow> nat \<Rightarrow> u8 list" where
  "load_bytes m a n = map (\<lambda>i. m (a + of_nat i)) [0..<n]"

definition memset :: "mem \<Rightarrow> u32 \<Rightarrow> u8 \<Rightarrow> nat \<Rightarrow> mem" where
  "memset m a v n = store_bytes m a (replicate n v)"

text \<open>Little-endian encoding of words of any width.\<close>

fun to_le :: "nat \<Rightarrow> 'a::len word \<Rightarrow> u8 list" where
  "to_le 0 w = []"
| "to_le (Suc n) w = ucast w # to_le n (drop_bit 8 w)"

fun of_le :: "u8 list \<Rightarrow> 'a::len word" where
  "of_le [] = 0"
| "of_le (b # bs) = ucast b OR push_bit 8 (of_le bs)"

definition load32 :: "mem \<Rightarrow> u32 \<Rightarrow> u32" where
  "load32 m a = of_le (load_bytes m a 4)"

definition store32 :: "mem \<Rightarrow> u32 \<Rightarrow> u32 \<Rightarrow> mem" where
  "store32 m a v = store_bytes m a (to_le 4 v)"

definition load64 :: "mem \<Rightarrow> u32 \<Rightarrow> u64" where
  "load64 m a = of_le (load_bytes m a 8)"

definition store64 :: "mem \<Rightarrow> u32 \<Rightarrow> u64 \<Rightarrow> mem" where
  "store64 m a v = store_bytes m a (to_le 8 v)"

definition load16 :: "mem \<Rightarrow> u32 \<Rightarrow> u16" where
  "load16 m a = of_le (load_bytes m a 2)"

definition store16 :: "mem \<Rightarrow> u32 \<Rightarrow> u16 \<Rightarrow> mem" where
  "store16 m a v = store_bytes m a (to_le 2 v)"

lemma length_to_le [simp]: "length (to_le n w) = n"
  by (induction n w rule: to_le.induct) auto

lemma length_load_bytes [simp]: "length (load_bytes m a n) = n"
  by (simp add: load_bytes_def)

lemma of_le_to_le: "of_le (to_le n w) = (take_bit (8 * n) w :: 'a::len word)"
proof (induction n w rule: to_le.induct)
  case (1 w)
  then show ?case by simp
next
  case (2 n w)
  have "of_le (to_le (Suc n) w) = ucast (ucast w :: u8) OR push_bit 8 (take_bit (8 * n) (drop_bit 8 w))"
    by (simp add: "2.IH")
  also have "\<dots> = take_bit (8 * Suc n) w"
    by (rule bit_word_eqI) (auto simp: bit_simps)
  finally show ?case .
qed

lemma of_le_to_le_32 [simp]: "of_le (to_le 4 (v :: u32)) = v"
  by (simp add: of_le_to_le take_bit_word_eq_self)

lemma of_le_to_le_64 [simp]: "of_le (to_le 8 (v :: u64)) = v"
  by (simp add: of_le_to_le take_bit_word_eq_self)

lemma to_le_of_le_32: "length bs = 4 \<Longrightarrow> to_le 4 (of_le bs :: u32) = bs"
proof -
  assume "length bs = 4"
  then obtain a b c d where bs: "bs = [a, b, c, d]"
    by (auto simp: eval_nat_numeral length_Suc_conv)
  let ?w = "of_le bs :: u32"
  have "(ucast ?w :: u8) = a" "(ucast (drop_bit 8 ?w) :: u8) = b"
    "(ucast (drop_bit 16 ?w) :: u8) = c" "(ucast (drop_bit 24 ?w) :: u8) = d"
    by (rule bit_word_eqI; auto simp: bs bit_simps dest: bit_imp_le_length)+
  then show ?thesis by (simp add: bs eval_nat_numeral)
qed

text \<open>
  Two byte ranges of the address space, at \<open>a\<close> of length \<open>n\<close> and at \<open>b\<close> of length
  \<open>k\<close>, are apart when neither start lies inside the other range.
\<close>

definition apart :: "u32 \<Rightarrow> nat \<Rightarrow> u32 \<Rightarrow> nat \<Rightarrow> bool" where
  "apart a n b k \<longleftrightarrow> n \<le> unat (b - a) \<and> k \<le> unat (a - b)"

lemma apart_sym: "apart a n b k \<Longrightarrow> apart b k a n"
  by (simp add: apart_def)

lemma unat_diff_flip: "a \<noteq> b \<Longrightarrow> unat (a - b) + unat (b - a) = 4294967296" for a b :: u32
  using unat_u32_less [of a] unat_u32_less [of b]
  by (auto simp: unat_sub_if' word_unat_eq_iff)

lemma apart_distance:
  assumes "apart a n b k" and "i < k"
  shows "n \<le> unat (b + of_nat i - a)"
proof -
  have d: "unat (b - a) + k \<le> 4294967296"
    using assms unat_diff_flip [of a b] by (cases "a = b") (auto simp: apart_def)
  have i: "unat (of_nat i :: u32) = i"
    using assms(2) d by (subst unat_of_nat) simp
  have eq: "b + of_nat i - a = (b - a) + of_nat i" by simp
  have "unat ((b - a) + of_nat i) = unat (b - a) + i"
    using unat_add_lem [of "b - a" "of_nat i"] i d assms(2) by simp
  with assms(1) show ?thesis unfolding eq by (simp add: apart_def)
qed

lemma unat_diff_less_iff:
  "unat a + n \<le> 4294967296 \<Longrightarrow> unat (x - a) < n \<longleftrightarrow> unat a \<le> unat x \<and> unat x < unat a + n"
  for a x :: u32
  using unat_u32_less [of x] unat_u32_less [of a] by (auto simp: unat_sub_if')

lemma store_bytes_outside: "length bs \<le> unat (x - a) \<Longrightarrow> store_bytes m a bs x = m x"
  by (simp add: store_bytes_def)

lemma load_store_bytes_apart [mem_simps]:
  assumes "apart a (length bs) b k"
  shows "load_bytes (store_bytes m a bs) b k = load_bytes m b k"
  using apart_distance [OF assms]
  by (auto simp: load_bytes_def intro!: store_bytes_outside)

lemma load_store_bytes_inside:
  assumes "j + n \<le> length bs" and "length bs \<le> 4294967296"
  shows "load_bytes (store_bytes m a bs) (a + of_nat j) n = take n (drop j bs)"
proof (rule nth_equalityI)
  show "length (load_bytes (store_bytes m a bs) (a + of_nat j) n) = length (take n (drop j bs))"
    using assms(1) by simp
next
  fix i assume "i < length (load_bytes (store_bytes m a bs) (a + of_nat j) n)"
  then have i: "i < n" by simp
  have "unat (of_nat (j + i) :: u32) = j + i"
    using i assms by (subst unat_of_nat) simp
  moreover have "a + of_nat j + of_nat i - a = (of_nat (j + i) :: u32)" by simp
  ultimately show "load_bytes (store_bytes m a bs) (a + of_nat j) n ! i = take n (drop j bs) ! i"
    using i assms(1) by (simp add: load_bytes_def store_bytes_def)
qed

lemma load_store_bytes_same [mem_simps]:
  "length bs \<le> 4294967296 \<Longrightarrow> n \<le> length bs \<Longrightarrow>
    load_bytes (store_bytes m a bs) a n = take n bs"
  using load_store_bytes_inside [of 0 n bs m a] by simp

lemma load_bytes_split: "load_bytes m a (i + k) = load_bytes m a i @ load_bytes m (a + of_nat i) k"
  by (rule nth_equalityI) (auto simp: load_bytes_def nth_append add.assoc simp flip: of_nat_add)

text \<open>Appending to what a buffer holds.\<close>

lemma load_bytes_extend:
  assumes "u + length bs \<le> 4294967296"
  shows "load_bytes (store_bytes m (a + of_nat u) bs) a (u + length bs) = load_bytes m a u @ bs"
proof -
  have "load_bytes (store_bytes m (a + of_nat u) bs) a u = load_bytes m a u"
  proof (cases "u = 0 \<or> bs = []")
    case True
    then show ?thesis by (auto simp: load_bytes_def store_bytes_def)
  next
    case False
    then have "u < 4294967296" using assms by (cases bs) auto
    then have "unat (of_nat u :: u32) = u" by (simp add: unat_of_nat)
    moreover from this have "unat (- of_nat u :: u32) = 4294967296 - u"
      using False unat_diff_flip [of 0 "of_nat u"] by (metis (no_types, lifting) add_diff_cancel_right' diff_0 diff_zero unat_0)
    ultimately have "apart (a + of_nat u) (length bs) a u" using assms by (simp add: apart_def)
    then show ?thesis by (rule load_store_bytes_apart)
  qed
  then show ?thesis using assms by (simp add: load_bytes_split load_store_bytes_same)
qed

lemma load32_store32_same [simp, mem_simps]: "load32 (store32 m a v) a = v"
  by (simp add: load32_def store32_def load_store_bytes_same)

text \<open>Writing back the word that was read undoes a store.\<close>

lemma store_bytes_load_bytes: "store_bytes m a (load_bytes m a n) = m"
  by (rule ext) (simp add: store_bytes_def load_bytes_def)

lemma store_bytes_twice:
  "length bs = length cs \<Longrightarrow> store_bytes (store_bytes m a bs) a cs = store_bytes m a cs"
  by (rule ext) (simp add: store_bytes_def)

lemma store32_undo: "store32 (store32 m a v) a (load32 m a) = m"
  by (simp add: store32_def load32_def store_bytes_twice to_le_of_le_32 store_bytes_load_bytes)

lemma load32_store32_apart [mem_simps]:
  "apart a 4 b 4 \<Longrightarrow> load32 (store32 m a v) b = load32 m b"
  by (simp add: load32_def store32_def load_store_bytes_apart)

lemma load64_store64_same [simp, mem_simps]: "load64 (store64 m a v) a = v"
  by (simp add: load64_def store64_def load_store_bytes_same)

lemma load32_store64_apart [mem_simps]:
  "apart a 8 b 4 \<Longrightarrow> load32 (store64 m a v) b = load32 m b"
  by (simp add: load32_def store64_def load_store_bytes_apart)

lemma load64_store32_apart [mem_simps]:
  "apart a 4 b 8 \<Longrightarrow> load64 (store32 m a v) b = load64 m b"
  by (simp add: load64_def store32_def load_store_bytes_apart)

lemma load64_store64_apart [mem_simps]:
  "apart a 8 b 8 \<Longrightarrow> load64 (store64 m a v) b = load64 m b"
  by (simp add: load64_def store64_def load_store_bytes_apart)

lemma load16_store16_same [simp, mem_simps]: "load16 (store16 m a v) a = v"
  using of_le_to_le [of 2 v] by (simp add: load16_def store16_def load_store_bytes_same take_bit_word_eq_self)

lemma load16_store16_apart: "apart a 2 b 2 \<Longrightarrow> load16 (store16 m a v) b = load16 m b"
  by (simp add: load16_def store16_def load_store_bytes_apart)

lemma load32_store16_apart: "apart a 2 b 4 \<Longrightarrow> load32 (store16 m a v) b = load32 m b"
  by (simp add: load32_def store16_def load_store_bytes_apart)

lemma store16_outside: "2 \<le> unat (x - a) \<Longrightarrow> store16 m a v x = m x"
  by (simp add: store16_def store_bytes_outside)

lemma apart_offset [mem_simps]: "apart (a + c) n (a + d) k \<longleftrightarrow> apart c n d k"
  by (simp add: apart_def)

text \<open>An address outside a buffer is outside every field of it.\<close>

lemma outside_field: "unat c + n \<le> unat (x - b) \<Longrightarrow> n \<le> unat (x - (b + c))" for b c x :: u32
proof -
  assume h: "unat c + n \<le> unat (x - b)"
  have eq: "x - (b + c) = (x - b) - c" by simp
  have "unat ((x - b) - c) = unat (x - b) - unat c"
    using h by (intro unat_sub) (simp add: word_le_nat_alt)
  with h show ?thesis unfolding eq by simp
qed

lemma store64_outside: "8 \<le> unat (x - a) \<Longrightarrow> store64 m a v x = m x"
  by (simp add: store64_def store_bytes_outside)

lemma memset_outside: "n \<le> unat (x - a) \<Longrightarrow> memset m a v n x = m x"
  by (simp add: memset_def store_bytes_outside)

lemma store32_outside: "4 \<le> unat (x - a) \<Longrightarrow> store32 m a v x = m x"
  by (simp add: store32_def store_bytes_outside)

text \<open>A block of words.\<close>

definition store_words :: "mem \<Rightarrow> u32 \<Rightarrow> u32 list \<Rightarrow> mem" where
  "store_words m a ws = store_bytes m a (concat (map (to_le 4) ws))"

lemma apart_ordered:
  assumes "unat c + n \<le> unat d" "unat d + k \<le> 4294967296" "0 < n"
  shows "apart c n d k" "apart d k c n"
proof -
  have "c \<le> d" using assms(1) by (simp add: word_le_nat_alt)
  then have "unat (d - c) = unat d - unat c" by (rule unat_sub)
  moreover have "c \<noteq> d" using assms(1,3) by auto
  then have "unat (c - d) + unat (d - c) = 4294967296" by (rule unat_diff_flip)
  ultimately show "apart c n d k" using assms unfolding apart_def by linarith
  then show "apart d k c n" by (rule apart_sym)
qed

lemma length_concat_words: "length (concat (map (to_le 4) ws)) = 4 * length ws"
  by (induction ws) auto

lemma drop_concat_words:
  "i < length ws \<Longrightarrow> take 4 (drop (4 * i) (concat (map (to_le 4) ws))) = to_le 4 (ws ! i)"
proof (induction ws arbitrary: i)
  case (Cons w ws)
  then show ?case by (cases i) simp_all
qed simp

lemma load32_store_words:
  assumes "i < length ws" "4 * length ws \<le> 4294967296"
  shows "load32 (store_words m a ws) (a + 4 * of_nat i) = ws ! i"
proof -
  have "4 * i + 4 \<le> length (concat (map (to_le 4) ws))" "length (concat (map (to_le 4) ws)) \<le> 4294967296"
    using assms by (simp_all add: length_concat_words)
  from load_store_bytes_inside [OF this, of m a]
  have "load_bytes (store_words m a ws) (a + of_nat (4 * i)) 4 = to_le 4 (ws ! i)"
    using drop_concat_words [OF assms(1)] by (simp only: store_words_def)
  then show ?thesis by (simp add: load32_def)
qed

lemma store_words_outside: "4 * length ws \<le> unat (x - a) \<Longrightarrow> store_words m a ws x = m x"
  by (simp add: store_words_def store_bytes_outside length_concat_words)

text \<open>Word-aligned addresses that differ are apart.\<close>

definition word_aligned :: "u32 \<Rightarrow> bool" where
  "word_aligned a \<longleftrightarrow> a AND 3 = 0"

lemma word_aligned_iff: "word_aligned a \<longleftrightarrow> 4 dvd unat a"
  using and_mask_dvd_nat [of 2 a] by (simp add: word_aligned_def mask_eq_decr_exp)

lemma word_aligned_add: "word_aligned a \<Longrightarrow> word_aligned b \<Longrightarrow> word_aligned (a + b)"
proof -
  assume "word_aligned a" and "word_aligned b"
  then have "4 dvd unat a + unat b" by (simp add: word_aligned_iff)
  then have "4 dvd (unat a + unat b) mod 4294967296" by (simp add: dvd_mod)
  then show ?thesis by (simp add: word_aligned_iff unat_word_ariths)
qed

lemma word_aligned_4 [simp]: "word_aligned 4"
  by (simp add: word_aligned_def)

lemma word_aligned_diff: "word_aligned a \<Longrightarrow> word_aligned b \<Longrightarrow> word_aligned (a - b)"
  using unat_u32_less [of b]
  by (auto simp: word_aligned_iff unat_sub_if' intro!: dvd_diff_nat)

lemma word_aligned_apart:
  assumes "word_aligned a" and "word_aligned b" and "a \<noteq> b"
  shows "apart a 4 b 4"
proof -
  have al: "word_aligned (b - a)" "word_aligned (a - b)"
    using assms by (simp_all add: word_aligned_diff)
  have ge: "4 \<le> unat c" if "word_aligned c" "c \<noteq> 0" for c
    using that by (auto simp: word_aligned_iff unat_gt_0 intro!: dvd_imp_le)
  show ?thesis using ge [OF al(1)] ge [OF al(2)] assms(3) by (simp add: apart_def)
qed

end
