(* ===== verification/Host.thy ===== *)
theory Host
  imports Prelude
begin

text \<open>
  The host operating system as a parameter. QNX itself is not part of the repository, so
  every operation that calls it takes the host's functions as arguments, grouped in
  records by subject. A host function acts on a world: the host's own state, of any type,
  and the memory the guest sees. Nothing is assumed of these functions here; a property
  that relies on documented behaviour of a call says so in a named hypothesis.
\<close>

record 'h world =
  w_host :: 'h
  w_mem :: mem

section \<open>Files\<close>

text \<open>
  \<open>pread\<close> either fails with an \<open>errno\<close> or delivers the bytes it read.
\<close>

type_synonym 'h pread = "int \<Rightarrow> nat \<Rightarrow> int \<Rightarrow> 'h world \<Rightarrow> (host_errno + u8 list) \<times> 'h world"

section \<open>Mappings\<close>

datatype prot = PROT_READ | PROT_WRITE | PROT_EXEC

datatype map_flag = MAP_SHARED | MAP_PRIVATE | MAP_FIXED | MAP_ANON | MAP_STACK

text \<open>
  \<open>h_mmap addr len prot flags fd offset\<close> delivers the address of the mapping or fails;
  \<open>h_msync\<close> stands for \<open>msync\<close> with \<open>MS_INVALIDATE_ICACHE\<close>, the only flag used.
\<close>

record 'h host_mm =
  h_mmap :: "u32 \<Rightarrow> u32 \<Rightarrow> prot set \<Rightarrow> map_flag set \<Rightarrow> int \<Rightarrow> int \<Rightarrow> 'h world \<Rightarrow>
    (host_errno + u32) \<times> 'h world"
  h_munmap :: "u32 \<Rightarrow> u32 \<Rightarrow> 'h world \<Rightarrow> host_errno option \<times> 'h world"
  h_mprotect :: "u32 \<Rightarrow> u32 \<Rightarrow> prot set \<Rightarrow> 'h world \<Rightarrow> host_errno option \<times> 'h world"
  h_msync :: "u32 \<Rightarrow> u32 \<Rightarrow> 'h world \<Rightarrow> host_errno option \<times> 'h world"

section \<open>Times\<close>

text \<open>Seconds and nanoseconds; \<open>time_t\<close> is taken wide enough for every sum the sources form.\<close>

record timespec =
  tv_sec :: int
  tv_nsec :: int

text \<open>The six arguments of a system call, from the registers \<open>r0\<close> to \<open>r5\<close>.\<close>

type_synonym arguments = "nat \<Rightarrow> u32"

end
