(* ===== verification/Util.thy ===== *)
theory Util
  imports Host
begin

text \<open>
  \<open>src/src/util.c\<close>: rounding to an alignment, and the read loop that retries
  \<open>EINTR\<close> and treats a premature end of file as \<open>EIO\<close>.
\<close>

unbundle bit_operations_syntax

section \<open>Operations\<close>

definition align_down :: "u32 \<Rightarrow> u32 \<Rightarrow> u32" where
  "align_down value alignment = value AND NOT (alignment - 1)"

definition align_up :: "u32 \<Rightarrow> u32 \<Rightarrow> u32" where
  "align_up value alignment = (value + alignment - 1) AND NOT (alignment - 1)"

text \<open>
  The body of \<open>read_exact_at\<close>: \<open>acc\<close> holds the bytes already placed in the buffer.
  A host that answers \<open>EINTR\<close> for ever keeps the loop running, so the loop is a
  partial function and \<open>read_exact_at\<close> reports \<open>Hang\<close> in that case.
\<close>

partial_function (option) read_exact_loop ::
  "'h pread \<Rightarrow> int \<Rightarrow> nat \<Rightarrow> int \<Rightarrow> u8 list \<Rightarrow> 'h world \<Rightarrow>
    (u8 list outcome \<times> 'h world) option" where
  "read_exact_loop pread fd len off acc w =
     (if len = 0 then Some (Done acc, w)
      else (case pread fd len off w of (r, w') \<Rightarrow>
        (case r of
           Inl e \<Rightarrow>
             if e = EINTR then read_exact_loop pread fd len off acc w'
             else Some (Fail e, w')
         | Inr bs \<Rightarrow>
             if bs = [] then Some (Fail EIO, w')
             else read_exact_loop pread fd (len - length bs) (off + int (length bs))
               (acc @ bs) w')))"

definition read_exact_at ::
  "'h pread \<Rightarrow> int \<Rightarrow> nat \<Rightarrow> int \<Rightarrow> 'h world \<Rightarrow> u8 list outcome \<times> 'h world" where
  "read_exact_at pread fd len off w =
     (case read_exact_loop pread fd len off [] w of None \<Rightarrow> (Hang, w) | Some r \<Rightarrow> r)"

section \<open>Alignment\<close>

lemma unat_align_down:
  assumes "k < 32"
  shows "unat (align_down v (2 ^ k)) = unat v - unat v mod 2 ^ k"
proof -
  have le: "take_bit k v \<le> v"
    by (simp add: word_le_nat_alt unsigned_take_bit_eq take_bit_nat_def)
  show ?thesis
    by (simp add: align_down_def mask_eq_decr_exp [symmetric] and_not_mask_diff
        unat_sub [OF le] unsigned_take_bit_eq take_bit_nat_def)
qed

lemma unat_add_pow2_minus_1:
  assumes k: "k < 32" and no_wrap: "unat v + 2 ^ k \<le> 4294967296"
  shows "unat (v + (2 ^ k - 1) :: u32) = unat v + (2 ^ k - 1)"
proof -
  have "unat (2 ^ k - 1 :: u32) = 2 ^ k - 1"
    using unat_minus_one [of "2 ^ k :: u32"] unat_pow2_u32 [OF k]
    by (cases "(2 ^ k :: u32) = 0") auto
  moreover have "(0 :: nat) < 2 ^ k" by simp
  then have "unat v + (2 ^ k - 1) < 4294967296" using no_wrap by linarith
  ultimately show ?thesis
    using unat_add_lem [of v "2 ^ k - 1"] by simp
qed

lemma unat_align_up:
  assumes k: "k < 32" and no_wrap: "unat v + 2 ^ k \<le> 4294967296"
  shows "unat (align_up v (2 ^ k)) = (unat v + (2 ^ k - 1)) div 2 ^ k * 2 ^ k"
proof -
  have "align_up v (2 ^ k) = align_down (v + (2 ^ k - 1)) (2 ^ k)"
    by (simp only: align_up_def align_down_def add_diff_eq)
  then show ?thesis
    by (simp only: unat_align_down [OF k] unat_add_pow2_minus_1 [OF assms] minus_mod_eq_div_mult)
qed

lemma round_up_bounds:
  fixes n p :: nat
  assumes "0 < p"
  shows "n \<le> (n + (p - 1)) div p * p" and "(n + (p - 1)) div p * p < n + p"
proof -
  have "(n + (p - 1)) div p * p + (n + (p - 1)) mod p = n + (p - 1)" by simp
  moreover have "(n + (p - 1)) mod p < p" using assms by simp
  ultimately show "n \<le> (n + (p - 1)) div p * p" and "(n + (p - 1)) div p * p < n + p"
    using assms by linarith+
qed

lemma align_up_bounds:
  assumes "k < 32" and "unat v + 2 ^ k \<le> 4294967296"
  shows "2 ^ k dvd unat (align_up v (2 ^ k))" and "v \<le> align_up v (2 ^ k)"
    and "unat (align_up v (2 ^ k)) < unat v + 2 ^ k"
  using round_up_bounds [of "2 ^ k" "unat v"]
  by (simp_all only: unat_align_up [OF assms] word_le_nat_alt) simp_all

lemma align_down_bounds:
  assumes "k < 32"
  shows "2 ^ k dvd unat (align_down v (2 ^ k))" and "align_down v (2 ^ k) \<le> v"
    and "unat v < unat (align_down v (2 ^ k)) + 2 ^ k"
proof -
  have eq: "unat (align_down v (2 ^ k)) = unat v div 2 ^ k * 2 ^ k"
    by (simp only: unat_align_down [OF assms] minus_mod_eq_div_mult)
  then show "2 ^ k dvd unat (align_down v (2 ^ k))" by simp
  from eq show "align_down v (2 ^ k) \<le> v"
    by (simp add: word_le_nat_alt)
  have "unat v mod 2 ^ k < 2 ^ k" by simp
  then show "unat v < unat (align_down v (2 ^ k)) + 2 ^ k"
    using div_mult_mod_eq [of "unat v" "2 ^ k"] unfolding eq by linarith
qed

text \<open>
  For a power-of-two alignment and a value that can be rounded up inside the
  address space, \<open>align_up\<close> returns the least multiple of the alignment that is not below
  the value, and \<open>align_down\<close> the greatest that is not above it.
\<close>

theorem align_least_multiple:
  assumes "k < 32" and "unat v + 2 ^ k \<le> 4294967296"
  shows "2 ^ k dvd unat (align_up v (2 ^ k)) \<and> v \<le> align_up v (2 ^ k) \<and>
    unat (align_up v (2 ^ k)) < unat v + 2 ^ k \<and>
    2 ^ k dvd unat (align_down v (2 ^ k)) \<and> align_down v (2 ^ k) \<le> v \<and>
    unat v < unat (align_down v (2 ^ k)) + 2 ^ k"
  using align_up_bounds [OF assms] align_down_bounds [OF assms(1), of v] by blast

theorem align_least_multiple_witness:
  "align_up 0x12345 0x1000 = 0x13000 \<and> align_down 0x12345 0x1000 = 0x12000 \<and>
   (2 :: nat) ^ 12 dvd unat (align_up 0x12345 (2 ^ 12))"
  using align_least_multiple [of 12 "0x12345"] by (simp add: align_up_def align_down_def)

section \<open>The read loop\<close>

text \<open>
  What \<open>read_exact_at\<close> relies on for a regular file with contents \<open>data\<close>: a read
  delivers at most the bytes asked for and at least one while the offset is inside the
  file, they are the file's bytes at that offset, a read at or past the end delivers
  none, and the calls interrupted by a signal use up a finite budget.
\<close>

definition regular_pread ::
  "'h pread \<Rightarrow> int \<Rightarrow> u8 list \<Rightarrow> ('h world \<Rightarrow> nat) \<Rightarrow> bool" where
  "regular_pread pread fd data budget \<longleftrightarrow>
     (\<forall>n off w. 0 < n \<longrightarrow> (\<exists>w'.
        (pread fd n (int off) w = (Inl EINTR, w') \<and> budget w' < budget w) \<or>
        (\<exists>j \<le> n. (0 < j \<longleftrightarrow> off < length data) \<and> off + j \<le> max off (length data) \<and>
           pread fd n (int off) w = (Inr (take j (drop off data)), w') \<and>
           budget w' \<le> budget w)))"

lemma take_drop_join:
  "j \<le> n \<Longrightarrow> take j (drop i xs) @ take (n - j) (drop (i + j) xs) = take n (drop i xs)"
  using take_add [of j "n - j" "drop i xs"] by (simp add: add.commute)

lemma read_exact_loop_regular:
  assumes reg: "regular_pread pread fd data budget"
  shows "\<exists>w'. read_exact_loop pread fd n (int off) acc w =
    Some (if n = 0 \<or> off + n \<le> length data then Done (acc @ take n (drop off data))
          else Fail EIO, w')"
proof (induction "n + budget w" arbitrary: n off acc w rule: less_induct)
  case less
  show ?case
  proof (cases "n = 0")
    case True
    then show ?thesis by (simp add: read_exact_loop.simps)
  next
    case n: False
    with reg obtain w' where step:
      "(pread fd n (int off) w = (Inl EINTR, w') \<and> budget w' < budget w) \<or>
       (\<exists>j \<le> n. (0 < j \<longleftrightarrow> off < length data) \<and> off + j \<le> max off (length data) \<and>
          pread fd n (int off) w = (Inr (take j (drop off data)), w') \<and> budget w' \<le> budget w)"
      unfolding regular_pread_def by blast
    then consider
      (eintr) "pread fd n (int off) w = (Inl EINTR, w')" "budget w' < budget w"
    | (eof) "\<not> off < length data" "pread fd n (int off) w = (Inr [], w')"
    | (some) j where "j \<le> n" "0 < j" "off + j \<le> length data"
        "pread fd n (int off) w = (Inr (take j (drop off data)), w')" "budget w' \<le> budget w"
      by (fastforce simp: max_def split: if_splits)
    then show ?thesis
    proof cases
      case eintr
      with less [of n w' off acc] n show ?thesis
        by (auto simp: read_exact_loop.simps [of _ _ _ _ _ w])
    next
      case eof
      with n show ?thesis by (auto simp: read_exact_loop.simps)
    next
      case some
      let ?bs = "take j (drop off data)"
      have len: "length ?bs = j" using some by simp
      then have ne: "?bs \<noteq> []" using some(2) by auto
      have "n - j + budget w' < n + budget w" using some n by simp
      from less [OF this, of "off + j" "acc @ ?bs"] show ?thesis
        using some n ne len take_drop_join [OF some(1), of off data]
        by (auto simp: read_exact_loop.simps [of _ _ _ _ _ w] split: if_splits)
    qed
  qed
qed

lemma read_exact_at_delivers:
  assumes "regular_pread pread fd data budget" and "off + n \<le> length data"
  shows "\<exists>w'. read_exact_at pread fd n (int off) w = (Done (take n (drop off data)), w')"
  using read_exact_loop_regular [OF assms(1), of n off "[]" w] assms(2)
  by (auto simp: read_exact_at_def)

text \<open>
  C30 (liveness). On a regular file the loop always returns, whatever short reads and
  interruptions the host produces: it delivers exactly the requested bytes of the file, or
  fails with \<open>EIO\<close> when the range runs past the end.
\<close>

theorem read_exact_at_regular:
  assumes "regular_pread pread fd data budget"
  shows "fst (read_exact_at pread fd n (int off) w) =
    (if n = 0 \<or> off + n \<le> length data then Done (take n (drop off data)) else Fail EIO)"
  using read_exact_loop_regular [OF assms, of n off "[]" w]
  by (auto simp: read_exact_at_def)

text \<open>Reads go to the caller's buffer: a host call that leaves the guest's memory alone keeps it.\<close>

lemma read_exact_loop_mem:
  assumes "read_exact_loop pread fd len off acc w = Some y"
  shows "(\<forall>n off v. w_mem (snd (pread fd n off v)) = w_mem v) \<longrightarrow> w_mem (snd y) = w_mem w"
  using assms
proof (induction rule: read_exact_loop.raw_induct [rotated 1, consumes 1])
  case (1 loop pread fd len off acc w y)
  show ?case
  proof
    assume quiet: "\<forall>n off v. w_mem (snd (pread fd n off v)) = w_mem v"
    obtain r w1 where step: "pread fd len off w = (r, w1)" by (cases "pread fd len off w")
    then have "w_mem w1 = w_mem w" using quiet by (metis snd_conv)
    then show "w_mem (snd y) = w_mem w"
      using 1 step quiet by (auto split: if_splits sum.splits)
  qed
qed

lemma read_exact_at_mem:
  assumes "\<forall>n off v. w_mem (snd (pread fd n off v)) = w_mem v"
  shows "w_mem (snd (read_exact_at pread fd n off w)) = w_mem w"
  using assms read_exact_loop_mem [of pread fd n off "[]" w]
  by (auto simp: read_exact_at_def split: option.splits)

text \<open>A host that interrupts every other call and delivers one byte at a time.\<close>

definition drip_pread :: "u8 list \<Rightarrow> bool pread" where
  "drip_pread data fd n off w =
     (if w_host w then (Inl EINTR, w\<lparr>w_host := False\<rparr>)
      else (Inr (take 1 (drop (nat off) data)), w))"

lemma drip_pread_regular:
  "regular_pread (drip_pread data) fd data (\<lambda>w. if w_host w then 1 else 0)"
  unfolding regular_pread_def
proof (intro allI impI)
  fix n off :: nat and w :: "bool world"
  assume n: "0 < n"
  let ?budget = "\<lambda>w :: bool world. if w_host w then 1 else 0 :: nat"
  show "\<exists>w'. (drip_pread data fd n (int off) w = (Inl EINTR, w') \<and> ?budget w' < ?budget w) \<or>
    (\<exists>j \<le> n. (0 < j \<longleftrightarrow> off < length data) \<and> off + j \<le> max off (length data) \<and>
      drip_pread data fd n (int off) w = (Inr (take j (drop off data)), w') \<and>
      ?budget w' \<le> ?budget w)"
  proof (cases "w_host w")
    case True
    then show ?thesis by (auto simp: drip_pread_def)
  next
    case False
    show ?thesis
    proof (cases "off < length data")
      case True
      with False n show ?thesis
        by (intro exI [of _ w] disjI2 exI [of _ 1]) (auto simp: drip_pread_def)
    next
      case out: False
      with False show ?thesis
        by (intro exI [of _ w] disjI2 exI [of _ 0]) (auto simp: drip_pread_def)
    qed
  qed
qed

theorem read_exact_at_regular_witness:
  "fst (read_exact_at (drip_pread [1, 2, 3, 4]) 5 2 1 \<lparr>w_host = True, w_mem = (\<lambda>_. 0)\<rparr>) =
    Done [2, 3]"
  using read_exact_at_regular [OF drip_pread_regular,
      of "[1, 2, 3, 4]" 5 2 1 "\<lparr>w_host = True, w_mem = (\<lambda>_. 0)\<rparr>"]
  by (simp add: numeral_2_eq_2)

end
