(* ===== verification/Elf_Format.thy ===== *)
theory Elf_Format
  imports Prelude
begin

text \<open>
  The ELF32 little-endian structures that \<open>arm_patch.c\<close> and \<open>elf_loader.c\<close> read through
  \<open>sys/elf.h\<close>: headers as records of the fields in file order, decoded from their bytes.
  The layouts and the constants are those of the ELF specification.
\<close>

unbundle bit_operations_syntax

abbreviation (input) ELFCLASS32 :: u8 where "ELFCLASS32 \<equiv> 1"
abbreviation (input) ELFDATA2LSB :: u8 where "ELFDATA2LSB \<equiv> 1"
abbreviation (input) EV_CURRENT :: nat where "EV_CURRENT \<equiv> 1"
abbreviation (input) EM_ARM :: u16 where "EM_ARM \<equiv> 40"
abbreviation (input) ET_EXEC :: u16 where "ET_EXEC \<equiv> 2"
abbreviation (input) ET_DYN :: u16 where "ET_DYN \<equiv> 3"
abbreviation (input) PT_LOAD :: u32 where "PT_LOAD \<equiv> 1"
abbreviation (input) PT_INTERP :: u32 where "PT_INTERP \<equiv> 3"
abbreviation (input) PF_X :: u32 where "PF_X \<equiv> 1"
abbreviation (input) PF_W :: u32 where "PF_W \<equiv> 2"
abbreviation (input) PF_R :: u32 where "PF_R \<equiv> 4"
abbreviation (input) SHT_PROGBITS :: u32 where "SHT_PROGBITS \<equiv> 1"
abbreviation (input) SHF_WRITE :: u32 where "SHF_WRITE \<equiv> 1"
abbreviation (input) SHF_EXECINSTR :: u32 where "SHF_EXECINSTR \<equiv> 4"

definition ELFMAG :: "u8 list" where
  "ELFMAG = [0x7F, 0x45, 0x4C, 0x46]"

text \<open>Sizes of the structures, and of one entry of each header table.\<close>

abbreviation (input) sizeof_Ehdr :: nat where "sizeof_Ehdr \<equiv> 52"
abbreviation (input) sizeof_Phdr :: nat where "sizeof_Phdr \<equiv> 32"
abbreviation (input) sizeof_Shdr :: nat where "sizeof_Shdr \<equiv> 40"

record elf32_ehdr =
  e_ident :: "u8 list"
  e_type :: u16
  e_machine :: u16
  e_version :: u32
  e_entry :: u32
  e_phoff :: u32
  e_shoff :: u32
  e_flags :: u32
  e_ehsize :: u16
  e_phentsize :: u16
  e_phnum :: u16
  e_shentsize :: u16
  e_shnum :: u16
  e_shstrndx :: u16

record elf32_phdr =
  p_type :: u32
  p_offset :: u32
  p_vaddr :: u32
  p_paddr :: u32
  p_filesz :: u32
  p_memsz :: u32
  p_flags :: u32
  p_align :: u32

record elf32_shdr =
  sh_name :: u32
  sh_type :: u32
  sh_flags :: u32
  sh_addr :: u32
  sh_offset :: u32
  sh_size :: u32
  sh_link :: u32
  sh_info :: u32
  sh_addralign :: u32
  sh_entsize :: u32

definition field16 :: "u8 list \<Rightarrow> nat \<Rightarrow> u16" where
  "field16 bs i = of_le (take 2 (drop i bs))"

definition field32 :: "u8 list \<Rightarrow> nat \<Rightarrow> u32" where
  "field32 bs i = of_le (take 4 (drop i bs))"

definition decode_ehdr :: "u8 list \<Rightarrow> elf32_ehdr" where
  "decode_ehdr bs = \<lparr>e_ident = take 16 bs, e_type = field16 bs 16, e_machine = field16 bs 18,
     e_version = field32 bs 20, e_entry = field32 bs 24, e_phoff = field32 bs 28,
     e_shoff = field32 bs 32, e_flags = field32 bs 36, e_ehsize = field16 bs 40,
     e_phentsize = field16 bs 42, e_phnum = field16 bs 44, e_shentsize = field16 bs 46,
     e_shnum = field16 bs 48, e_shstrndx = field16 bs 50\<rparr>"

definition decode_phdr :: "u8 list \<Rightarrow> elf32_phdr" where
  "decode_phdr bs = \<lparr>p_type = field32 bs 0, p_offset = field32 bs 4, p_vaddr = field32 bs 8,
     p_paddr = field32 bs 12, p_filesz = field32 bs 16, p_memsz = field32 bs 20,
     p_flags = field32 bs 24, p_align = field32 bs 28\<rparr>"

definition decode_shdr :: "u8 list \<Rightarrow> elf32_shdr" where
  "decode_shdr bs = \<lparr>sh_name = field32 bs 0, sh_type = field32 bs 4, sh_flags = field32 bs 8,
     sh_addr = field32 bs 12, sh_offset = field32 bs 16, sh_size = field32 bs 20,
     sh_link = field32 bs 24, sh_info = field32 bs 28, sh_addralign = field32 bs 32,
     sh_entsize = field32 bs 36\<rparr>"

text \<open>A table of \<open>n\<close> entries of \<open>entry_size\<close> bytes each.\<close>

definition decode_table :: "(u8 list \<Rightarrow> 'a) \<Rightarrow> nat \<Rightarrow> nat \<Rightarrow> u8 list \<Rightarrow> 'a list" where
  "decode_table decode entry_size n bs = map (\<lambda>i. decode (take entry_size (drop (i * entry_size) bs))) [0..<n]"

lemma length_decode_table [simp]: "length (decode_table decode entry_size n bs) = n"
  by (simp add: decode_table_def)

end
