(* ===== verification/Arm_Patch.thy ===== *)
theory Arm_Patch
  imports Util Elf_Format
begin

text \<open>
  \<open>src/src/arm_patch.c\<close>: the table of patched instructions. A Linux \<open>svc #0\<close> or a read
  of the user-mode thread register is replaced by an undefined instruction, and the table
  keeps the original word so that the trap handler can emulate it and a failed load can
  put it back. The table is the list of the first \<open>patch_count\<close> records of the array.
\<close>

unbundle bit_operations_syntax

section \<open>State and operations\<close>

abbreviation MAX_PATCHES :: nat where "MAX_PATCHES \<equiv> 4096"
abbreviation ARM_LINUX_SVC_0 :: u32 where "ARM_LINUX_SVC_0 \<equiv> 0xEF000000"
abbreviation ARM_TPIDRURO_MASK :: u32 where "ARM_TPIDRURO_MASK \<equiv> 0xFFFF0FFF"
abbreviation ARM_TPIDRURO_READ :: u32 where "ARM_TPIDRURO_READ \<equiv> 0xEE1D0F70"
abbreviation ARM_UDF_TRAP :: u32 where "ARM_UDF_TRAP \<equiv> 0xE7F000F0"

record patch_record =
  pr_address :: u32
  pr_original :: u32

type_synonym patch_table = "patch_record list"

definition sensitive :: "u32 \<Rightarrow> bool" where
  "sensitive word \<longleftrightarrow> word = ARM_LINUX_SVC_0 \<or> word AND ARM_TPIDRURO_MASK = ARM_TPIDRURO_READ"

text \<open>
  The addresses the loop \<open>for (address = start; address < end; address += 4)\<close> visits.
  The guards before the loop make \<open>start\<close> and \<open>length\<close> multiples of four and keep the
  end inside the address space, so the loop makes \<open>length / 4\<close> steps.
\<close>

fun word_addresses :: "u32 \<Rightarrow> nat \<Rightarrow> u32 list" where
  "word_addresses a 0 = []"
| "word_addresses a (Suc n) = a # word_addresses (a + 4) n"

fun patch_words :: "u32 list \<Rightarrow> patch_table \<times> mem \<Rightarrow> unit outcome \<times> patch_table \<times> mem" where
  "patch_words [] (patches, m) = (Done (), patches, m)"
| "patch_words (address # rest) (patches, m) =
     (let word = load32 m address in
      if \<not> sensitive word then patch_words rest (patches, m)
      else if length patches = MAX_PATCHES then (Fail E2BIG, patches, m)
      else patch_words rest
        (patches @ [\<lparr>pr_address = address, pr_original = word\<rparr>],
         store32 m address ARM_UDF_TRAP))"

definition arm_patch_range ::
  "u32 \<Rightarrow> u32 \<Rightarrow> patch_table \<times> mem \<Rightarrow> unit outcome \<times> patch_table \<times> mem" where
  "arm_patch_range start len s =
     (if start AND 3 \<noteq> 0 \<or> len AND 3 \<noteq> 0 \<or> len > UINTPTR_MAX - start then (Fail ENOEXEC, s)
      else patch_words (word_addresses start (unat len div 4)) s)"

definition arm_patch_original :: "u32 \<Rightarrow> patch_table \<Rightarrow> u32 option" where
  "arm_patch_original address patches =
     map_option pr_original (find (\<lambda>p. pr_address p = address) patches)"

definition arm_patch_count :: "patch_table \<Rightarrow> nat" where
  "arm_patch_count patches = length patches"

text \<open>The compaction loop of \<open>arm_patch_forget_range\<close> keeps, in order, the records outside the range.\<close>

definition arm_patch_forget_range :: "u32 \<Rightarrow> u32 \<Rightarrow> patch_table \<Rightarrow> patch_table" where
  "arm_patch_forget_range address len patches =
     (let end = (if len > UINTPTR_MAX - address then UINTPTR_MAX else address + len)
      in filter (\<lambda>p. pr_address p < address \<or> pr_address p \<ge> end) patches)"

function arm_patch_rollback :: "nat \<Rightarrow> patch_table \<times> mem \<Rightarrow> patch_table \<times> mem" where
  "arm_patch_rollback retained (patches, m) =
     (if length patches > retained
      then arm_patch_rollback retained
        (butlast patches, store32 m (pr_address (last patches)) (pr_original (last patches)))
      else (patches, m))"
  by pat_completeness auto
termination
  by (relation "measure (\<lambda>(retained, patches, m). length patches)") auto

declare arm_patch_rollback.simps [simp del]

text \<open>
  \<open>arm_patch_elf_mapping\<close>. File offsets are unsigned 64-bit values in the source and
  never reach \<open>2 ^ 64\<close>, so they are natural numbers here.
\<close>

function align_patch_start :: "u32 \<Rightarrow> nat \<Rightarrow> nat \<Rightarrow> nat \<Rightarrow> nat" where
  "align_patch_start address mapping_start patch_end patch_start =
     (if patch_start < patch_end \<and>
         (address + of_nat (patch_start - mapping_start)) AND 3 \<noteq> 0
      then align_patch_start address mapping_start patch_end (Suc patch_start)
      else patch_start)"
  by pat_completeness auto
termination
  by (relation "measure (\<lambda>(address, mapping_start, patch_end, patch_start). patch_end - patch_start)")
    auto

declare align_patch_start.simps [simp del]

definition patch_mapped_section ::
  "nat \<Rightarrow> nat \<Rightarrow> u32 \<Rightarrow> elf32_shdr \<Rightarrow> patch_table \<times> mem \<Rightarrow>
    unit outcome \<times> patch_table \<times> mem" where
  "patch_mapped_section mapping_start mapping_end address section s =
     (let section_start = unat (sh_offset section);
          section_end = section_start + unat (sh_size section)
      in if sh_type section \<noteq> SHT_PROGBITS \<or> sh_flags section AND SHF_EXECINSTR = 0 \<or>
            sh_size section = 0 \<or> section_end < section_start \<or>
            section_start \<ge> mapping_end \<or> section_end \<le> mapping_start
         then (Done (), s)
         else
           let limit = min section_end mapping_end;
               patch_start = align_patch_start address mapping_start limit
                 (max section_start mapping_start);
               patch_end = limit - (limit - patch_start) mod 4
           in if patch_end > patch_start
              then arm_patch_range (address + of_nat (patch_start - mapping_start))
                     (of_nat (patch_end - patch_start)) s
              else (Done (), s))"

primrec patch_mapped_sections ::
  "nat \<Rightarrow> nat \<Rightarrow> u32 \<Rightarrow> elf32_shdr list \<Rightarrow> patch_table \<times> mem \<Rightarrow>
    unit outcome \<times> patch_table \<times> mem" where
  "patch_mapped_sections mapping_start mapping_end address [] s = (Done (), s)"
| "patch_mapped_sections mapping_start mapping_end address (section # rest) s =
     (case patch_mapped_section mapping_start mapping_end address section s of (r, s') \<Rightarrow>
        if is_done r then patch_mapped_sections mapping_start mapping_end address rest s'
        else (r, s'))"

text \<open>The host calls on files of the ELF code: opening and closing, the size of an open
  file, reads, and \<open>malloc\<close>.\<close>

record 'h host_file =
  f_open :: "string \<Rightarrow> 'h world \<Rightarrow> (host_errno + int) \<times> 'h world"
  f_close :: "int \<Rightarrow> 'h world \<Rightarrow> 'h world"
  f_size :: "int \<Rightarrow> 'h world \<Rightarrow> host_errno + int"
  f_pread :: "'h pread"
  f_malloc_ok :: "nat \<Rightarrow> 'h world \<Rightarrow> bool"

definition elf_mapping_header_ok :: "elf32_ehdr \<Rightarrow> bool" where
  "elf_mapping_header_ok header \<longleftrightarrow>
     take 4 (e_ident header) = ELFMAG \<and> e_ident header ! 4 = ELFCLASS32 \<and>
     e_ident header ! 5 = ELFDATA2LSB \<and> e_machine header = EM_ARM \<and>
     e_shnum header \<noteq> 0 \<and> unat (e_shentsize header) = sizeof_Shdr"

definition arm_patch_elf_mapping ::
  "'h host_file \<Rightarrow> int \<Rightarrow> int \<Rightarrow> u32 \<Rightarrow> u32 \<Rightarrow> patch_table \<times> 'h world \<Rightarrow>
    unit outcome \<times> patch_table \<times> 'h world" where
  "arm_patch_elf_mapping F fd offset address len st =
     (case st of (patches, w) \<Rightarrow>
      if fd < 0 \<or> offset < 0 \<or> len = 0 \<or> int (unat len) > 2 ^ 64 - 1 - offset then (Done (), patches, w)
      else case f_size F fd w of Inl _ \<Rightarrow> (Done (), patches, w)
      | Inr st_size \<Rightarrow>
        if st_size < 0 then (Done (), patches, w)
        else case read_exact_at (f_pread F) fd sizeof_Ehdr 0 w of
          (Hang, w) \<Rightarrow> (Hang, patches, w)
        | (Done bs, w) \<Rightarrow>
            let header = decode_ehdr bs;
                table_size = unat (e_shnum header) * sizeof_Shdr
            in if \<not> elf_mapping_header_ok header then (Done (), patches, w)
               else if int (unat (e_shoff header)) > st_size \<or>
                       int table_size > st_size - int (unat (e_shoff header))
               then (Done (), patches, w)
               else if \<not> f_malloc_ok F table_size w then (Fail ENOMEM, patches, w)
               else (case read_exact_at (f_pread F) fd table_size (int (unat (e_shoff header))) w of
                   (Done tbs, w) \<Rightarrow>
                     (case patch_mapped_sections (nat offset) (nat offset + unat len) address
                             (decode_table decode_shdr sizeof_Shdr (unat (e_shnum header)) tbs)
                             (patches, w_mem w) of
                        (r, patches', m') \<Rightarrow> (r, patches', w\<lparr>w_mem := m'\<rparr>))
                 | (Fail e, w) \<Rightarrow> (Fail e, patches, w)
                 | (_, w) \<Rightarrow> (Hang, patches, w))
        | (_, w) \<Rightarrow> (Done (), patches, w))"

section \<open>The addresses of a range\<close>

lemma word_addresses_map: "word_addresses a n = map (\<lambda>i. a + of_nat (4 * i)) [0..<n]"
proof (induction a n rule: word_addresses.induct)
  case (2 a n)
  have "map (\<lambda>i. a + of_nat (4 * i)) [0..<Suc n] =
      a # map (\<lambda>i. a + 4 + of_nat (4 * i)) [0..<n]"
    by (simp only: upt_conv_Cons [OF zero_less_Suc] map_Suc_upt [symmetric] list.map map_map o_def)
      (simp add: algebra_simps)
  then show ?case using 2 by simp
qed simp

lemma unat_of_nat_u32: "n < 4294967296 \<Longrightarrow> unat (of_nat n :: u32) = n"
  by (subst unat_of_nat) simp

lemma word_addresses_aligned:
  "word_aligned a \<Longrightarrow> x \<in> set (word_addresses a n) \<Longrightarrow> word_aligned x"
  by (induction a n rule: word_addresses.induct) (auto simp: word_aligned_add)

lemma word_addresses_distinct:
  assumes "4 * n \<le> 4294967296"
  shows "distinct (word_addresses a n)"
proof -
  have "inj_on (\<lambda>i. a + of_nat (4 * i)) {0..<n}"
  proof (rule inj_onI)
    fix i j assume ij: "i \<in> {0..<n}" "j \<in> {0..<n}" and eq: "a + of_nat (4 * i) = a + of_nat (4 * j)"
    from eq have "unat (of_nat (4 * i) :: u32) = unat (of_nat (4 * j) :: u32)" by simp
    moreover have "4 * i < 4294967296" "4 * j < 4294967296" using ij assms by simp_all
    ultimately have "4 * i = 4 * j" by (simp only: unat_of_nat_u32)
    then show "i = j" by simp
  qed
  then show ?thesis by (simp add: word_addresses_map distinct_map)
qed

lemma set_word_addresses:
  assumes "word_aligned start" and "word_aligned len" and "len \<le> UINTPTR_MAX - start"
  shows "x \<in> set (word_addresses start (unat len div 4)) \<longleftrightarrow>
    word_aligned x \<and> start \<le> x \<and> x < start + len"
proof -
  have total: "unat start + unat len < 4294967296" using assms(3) by (simp add: range_guard_iff)
  have end_eq: "unat (start + len) = unat start + unat len" by (rule unat_add_guarded [OF assms(3)])
  obtain q where q: "unat len = 4 * q" using assms(2) by (auto simp: word_aligned_iff dvd_def)
  show ?thesis
  proof
    assume x: "x \<in> set (word_addresses start (unat len div 4))"
    then obtain i where i: "i < q" "x = start + of_nat (4 * i)"
      using q by (auto simp: word_addresses_map)
    have off: "unat (of_nat (4 * i) :: u32) = 4 * i"
      using i q total by (intro unat_of_nat_u32) simp
    have "unat x = unat start + 4 * i"
      using i q total off unat_add_lem [of start "of_nat (4 * i)"] by simp
    with i q end_eq word_addresses_aligned [OF assms(1) x]
    show "word_aligned x \<and> start \<le> x \<and> x < start + len"
      by (simp add: word_le_nat_alt word_less_nat_alt)
  next
    assume x: "word_aligned x \<and> start \<le> x \<and> x < start + len"
    then have d: "unat (x - start) = unat x - unat start" by (simp add: unat_sub)
    have "word_aligned (x - start)" using x assms(1) by (simp add: word_aligned_diff)
    then obtain i where i: "unat (x - start) = 4 * i" by (auto simp: word_aligned_iff dvd_def)
    have "unat start \<le> unat x" "unat x < unat start + 4 * q"
      using x q end_eq by (simp_all add: word_le_nat_alt word_less_nat_alt)
    then have "4 * i < 4 * q" using d i by linarith
    moreover have "x = start + of_nat (unat (x - start))" by simp
    ultimately show "x \<in> set (word_addresses start (unat len div 4))"
      using q i by (auto simp: word_addresses_map intro!: image_eqI [of _ _ i])
  qed
qed

section \<open>What patching does\<close>

lemma sensitive_UDF [simp]: "\<not> sensitive ARM_UDF_TRAP"
  by (simp add: sensitive_def)

abbreviation to_patch :: "mem \<Rightarrow> u32 list \<Rightarrow> u32 list" where
  "to_patch m as \<equiv> filter (\<lambda>a. sensitive (load32 m a)) as"

definition record_of :: "mem \<Rightarrow> u32 \<Rightarrow> patch_record" where
  "record_of m a = \<lparr>pr_address = a, pr_original = load32 m a\<rparr>"

lemma load32_other:
  "\<forall>x\<in>set as. word_aligned x \<Longrightarrow> word_aligned a \<Longrightarrow> a \<notin> set as \<Longrightarrow> x \<in> set as \<Longrightarrow>
    load32 (store32 m a v) x = load32 m x"
  by (rule load32_store32_apart, rule word_aligned_apart) auto

text \<open>
  On distinct word addresses the loop patches the sensitive words, in order, as long as
  the table has room; it stops with \<open>E2BIG\<close> at the first one that does not fit.
\<close>

lemma patch_words_spec:
  assumes "distinct as" and "\<forall>a\<in>set as. word_aligned a" and "length ps \<le> MAX_PATCHES"
    and "patch_words as (ps, m) = (r, ps', m')"
  defines "k \<equiv> MAX_PATCHES - length ps"
  shows "r = (if length (to_patch m as) \<le> k then Done () else Fail E2BIG)"
    and "ps' = ps @ map (record_of m) (take k (to_patch m as))"
    and "\<And>b. word_aligned b \<Longrightarrow>
      load32 m' b = (if b \<in> set (take k (to_patch m as)) then ARM_UDF_TRAP else load32 m b)"
proof -
  have "r = (if length (to_patch m as) \<le> k then Done () else Fail E2BIG) \<and>
    ps' = ps @ map (record_of m) (take k (to_patch m as)) \<and>
    (\<forall>b. word_aligned b \<longrightarrow>
      load32 m' b = (if b \<in> set (take k (to_patch m as)) then ARM_UDF_TRAP else load32 m b))"
    using assms(1-4) unfolding k_def
  proof (induction as arbitrary: ps m)
    case Nil
    then show ?case by simp
  next
    case (Cons a as)
    let ?m = "store32 m a ARM_UDF_TRAP"
    show ?case
    proof (cases "sensitive (load32 m a) \<and> length ps < MAX_PATCHES")
      case False
      then consider "\<not> sensitive (load32 m a)" | "sensitive (load32 m a)" "length ps = MAX_PATCHES"
        using Cons.prems(3) by linarith
      then show ?thesis
      proof cases
        case 1
        with Cons.prems Cons.IH [of ps m] show ?thesis by simp
      next
        case 2
        with Cons.prems show ?thesis by simp
      qed
    next
      case True
      have same: "load32 ?m x = load32 m x" if "x \<in> set as" for x
        using load32_other [of as a x m] Cons.prems that by simp
      have filt: "to_patch ?m as = to_patch m as" using same by (auto intro: filter_cong)
      have recs: "map (record_of ?m) (take j (to_patch m as)) = map (record_of m) (take j (to_patch m as))"
        for j using same by (auto simp: record_of_def dest: in_set_takeD)
      have run: "patch_words as (ps @ [record_of m a], ?m) = (r, ps', m')"
        using Cons.prems(4) True by (simp add: Let_def record_of_def)
      obtain j where j: "MAX_PATCHES - length ps = Suc j" "MAX_PATCHES - length (ps @ [record_of m a]) = j"
        using True by (cases "MAX_PATCHES - length ps") auto
      have ih: "r = (if length (to_patch m as) \<le> j then Done () else Fail E2BIG) \<and>
          ps' = (ps @ [record_of m a]) @ map (record_of m) (take j (to_patch m as)) \<and>
          (\<forall>b. word_aligned b \<longrightarrow>
            load32 m' b = (if b \<in> set (take j (to_patch m as)) then ARM_UDF_TRAP else load32 ?m b))"
        using Cons.IH [OF _ _ _ run] Cons.prems(1-3) True by (simp only: filt recs j(2)) auto
      have away: "word_aligned b \<Longrightarrow> b \<noteq> a \<Longrightarrow> load32 ?m b = load32 m b" for b
        using Cons.prems(2) by (intro load32_store32_apart word_aligned_apart) auto
      show ?thesis unfolding j(1) using ih True away by auto
    qed
  qed
  then show "r = (if length (to_patch m as) \<le> k then Done () else Fail E2BIG)"
    and "ps' = ps @ map (record_of m) (take k (to_patch m as))"
    and "\<And>b. word_aligned b \<Longrightarrow>
      load32 m' b = (if b \<in> set (take k (to_patch m as)) then ARM_UDF_TRAP else load32 m b)"
    by auto
qed

lemma word_aligned_0_iff: "word_aligned a \<longleftrightarrow> a AND 3 = 0"
  by (simp add: word_aligned_def)

lemma arm_patch_range_cases:
  assumes "arm_patch_range start len s = (r, s')"
  obtains (refused) "r = Fail ENOEXEC" "s' = s"
  | (run) "word_aligned start" "word_aligned len" "len \<le> UINTPTR_MAX - start"
      "patch_words (word_addresses start (unat len div 4)) s = (r, s')"
  using assms unfolding arm_patch_range_def word_aligned_def
  by (auto simp: not_le [symmetric] split: if_splits)

lemma patch_range_success_facts:
  assumes table: "length ps \<le> MAX_PATCHES"
    and run: "arm_patch_range start len (ps, m) = (Done (), ps', m')"
  shows "ps' = ps @ map (record_of m) (to_patch m (word_addresses start (unat len div 4)))"
    and "\<And>a. word_aligned a \<Longrightarrow> load32 m' a =
      (if start \<le> a \<and> a < start + len \<and> sensitive (load32 m a) then ARM_UDF_TRAP else load32 m a)"
    and "\<And>a. word_aligned a \<Longrightarrow> start \<le> a \<Longrightarrow> a < start + len \<Longrightarrow> \<not> sensitive (load32 m' a)"
    and "length ps' \<le> MAX_PATCHES"
proof -
  let ?as = "word_addresses start (unat len div 4)"
  from run have ok: "word_aligned start" "word_aligned len" "len \<le> UINTPTR_MAX - start"
    and words: "patch_words ?as (ps, m) = (Done (), ps', m')"
    by (auto elim: arm_patch_range_cases)
  have "4 * (unat len div 4) \<le> 4294967296" using unat_u32_less [of len] by simp
  then have dist: "distinct ?as" by (rule word_addresses_distinct)
  have al: "\<forall>a\<in>set ?as. word_aligned a" using word_addresses_aligned [OF ok(1)] by blast
  note spec = patch_words_spec [OF dist al table words]
  from spec(1) have fits: "length (to_patch m ?as) \<le> MAX_PATCHES - length ps"
    by (simp split: if_splits)
  show recs: "ps' = ps @ map (record_of m) (to_patch m ?as)" using spec(2) fits by simp
  show loads: "load32 m' a =
      (if start \<le> a \<and> a < start + len \<and> sensitive (load32 m a) then ARM_UDF_TRAP else load32 m a)"
    if "word_aligned a" for a
    using spec(3) [OF that] fits that set_word_addresses [OF ok, of a] by auto
  show "\<not> sensitive (load32 m' a)" if "word_aligned a" "start \<le> a" "a < start + len" for a
    using loads [OF that(1)] that by simp
  show "length ps' \<le> MAX_PATCHES" using recs fits table by simp
qed

text \<open>
  A successful \<open>arm_patch_range\<close> leaves no \<open>svc #0\<close> and no read of
  the thread register in the range: exactly those words become the trap instruction, every
  other aligned word keeps its value, and one record per patched word, holding the
  original, is appended to the table in address order.
\<close>

theorem arm_patch_range_success:
  assumes "length ps \<le> MAX_PATCHES"
    and "arm_patch_range start len (ps, m) = (Done (), ps', m')"
  shows "ps' = ps @ map (record_of m) (to_patch m (word_addresses start (unat len div 4))) \<and>
    (\<forall>a. word_aligned a \<longrightarrow> load32 m' a =
      (if start \<le> a \<and> a < start + len \<and> sensitive (load32 m a) then ARM_UDF_TRAP else load32 m a)) \<and>
    (\<forall>a. word_aligned a \<and> start \<le> a \<and> a < start + len \<longrightarrow> \<not> sensitive (load32 m' a)) \<and>
    length ps' \<le> MAX_PATCHES"
  using patch_range_success_facts [OF assms] by blast

text \<open>A page holding \<open>svc #0\<close> and a thread-register read, for the examples below.\<close>

definition svc_page :: mem where
  "svc_page = store32 (store32 (\<lambda>_. 0) 0x10000 ARM_LINUX_SVC_0) 0x10004 0xEE1D3F70"

lemma svc_page_loads: "load32 svc_page 0x10000 = ARM_LINUX_SVC_0" "load32 svc_page 0x10004 = 0xEE1D3F70"
  by (simp_all add: svc_page_def load32_store32_apart apart_def)

lemma word_addresses_2: "word_addresses a 2 = [a, a + 4]"
  by (simp add: numeral_2_eq_2)

lemma svc_page_patched:
  "arm_patch_range 0x10000 8 ([], svc_page) =
    (Done (), [\<lparr>pr_address = 0x10000, pr_original = ARM_LINUX_SVC_0\<rparr>,
      \<lparr>pr_address = 0x10004, pr_original = 0xEE1D3F70\<rparr>],
     store32 (store32 svc_page 0x10000 ARM_UDF_TRAP) 0x10004 ARM_UDF_TRAP)"
  by (simp add: arm_patch_range_def word_addresses_2 svc_page_loads sensitive_def Let_def
      load32_store32_apart apart_def)

theorem arm_patch_range_success_witness:
  "length (fst (snd (arm_patch_range 0x10000 8 ([], svc_page)))) = 2 \<and>
   \<not> sensitive (load32 (snd (snd (arm_patch_range 0x10000 8 ([], svc_page)))) 0x10004)"
  using arm_patch_range_success [OF _ svc_page_patched]
  by (auto simp: svc_page_patched word_aligned_def)

section \<open>Undoing patches\<close>

text \<open>
  What a client of the table relies on when it abandons a load half way: \<open>mark\<close> is the
  count it saved, and \<open>undo\<close> goes back to a count. Patching any number of ranges and
  undoing to the saved count is the identity, whether the patching succeeded or not.
\<close>

locale undo_log =
  fixes patch :: "'a \<Rightarrow> 's \<Rightarrow> 'r \<times> 's"
    and mark :: "'s \<Rightarrow> nat"
    and undo :: "nat \<Rightarrow> 's \<Rightarrow> 's"
  assumes undo_patch: "k \<le> mark s \<Longrightarrow> undo k (snd (patch a s)) = undo k s"
    and undo_mark: "undo (mark s) s = s"
    and mark_patch: "mark s \<le> mark (snd (patch a s))"
begin

lemma undo_patch_all: "k \<le> mark s \<Longrightarrow> undo k (fold (\<lambda>a s. snd (patch a s)) as s) = undo k s"
proof (induction as arbitrary: s)
  case (Cons a as)
  have "k \<le> mark (snd (patch a s))" using Cons.prems mark_patch [of s a] by simp
  from Cons.IH [OF this] show ?case using Cons.prems by (simp add: undo_patch)
qed simp

lemma undo_restores: "undo (mark s) (fold (\<lambda>a s. snd (patch a s)) as s) = s"
  by (simp add: undo_patch_all undo_mark)

lemma undo_restores_one: "undo (mark s) (snd (patch a s)) = s"
  by (simp add: undo_patch undo_mark)

end

lemma rollback_stop: "length ps \<le> k \<Longrightarrow> arm_patch_rollback k (ps, m) = (ps, m)"
  by (subst arm_patch_rollback.simps) simp

lemma rollback_snoc:
  "k \<le> length ps \<Longrightarrow>
    arm_patch_rollback k (ps @ [p], m) = arm_patch_rollback k (ps, store32 m (pr_address p) (pr_original p))"
  by (subst arm_patch_rollback.simps) simp

lemma rollback_patch_words:
  "k \<le> length (fst s) \<Longrightarrow> arm_patch_rollback k (snd (patch_words as s)) = arm_patch_rollback k s"
  by (induction as s rule: patch_words.induct)
    (auto simp: Let_def rollback_snoc store32_undo)

lemma patch_words_grows: "length (fst s) \<le> length (fst (snd (patch_words as s)))"
  by (induction as s rule: patch_words.induct) (auto simp: Let_def)

lemma rollback_patch_range:
  "k \<le> length (fst s) \<Longrightarrow>
    arm_patch_rollback k (snd (arm_patch_range start len s)) = arm_patch_rollback k s"
  by (simp add: arm_patch_range_def rollback_patch_words)

lemma patch_range_grows: "length ps \<le> length (fst (snd (arm_patch_range start len (ps, m))))"
  using patch_words_grows [of "(ps, m)"] by (simp add: arm_patch_range_def)

lemma rollback_mark: "arm_patch_rollback (length (fst s)) s = s"
  by (cases s) (simp add: rollback_stop)

interpretation pl: undo_log "\<lambda>(start, len). arm_patch_range start len"
    "\<lambda>s. arm_patch_count (fst s)" arm_patch_rollback
  by unfold_locales
    (auto simp: arm_patch_count_def rollback_patch_range patch_range_grows rollback_mark)

interpretation sl: undo_log "\<lambda>(mapping_start, mapping_end, address, section).
      patch_mapped_section mapping_start mapping_end address section"
    "\<lambda>s. arm_patch_count (fst s)" arm_patch_rollback
  by unfold_locales
    (auto simp: patch_mapped_section_def arm_patch_count_def Let_def rollback_patch_range
      patch_range_grows rollback_mark)

lemma mapped_sections_undo:
  "k \<le> length (fst s) \<Longrightarrow>
    arm_patch_rollback k (snd (patch_mapped_sections mapping_start mapping_end address secs s)) =
    arm_patch_rollback k s"
proof (induction secs arbitrary: s)
  case (Cons sec rest)
  have "k \<le> length (fst (snd (patch_mapped_section mapping_start mapping_end address sec s)))"
    using Cons.prems sl.mark_patch [of s "(mapping_start, mapping_end, address, sec)"]
    by (simp add: arm_patch_count_def)
  moreover have "arm_patch_rollback k (snd (patch_mapped_section mapping_start mapping_end address sec s))
      = arm_patch_rollback k s"
    using Cons.prems sl.undo_patch [of k s "(mapping_start, mapping_end, address, sec)"]
    by (simp add: arm_patch_count_def)
  ultimately show ?case using Cons.IH by (simp split: prod.split) (metis snd_conv)
qed simp

text \<open>
  C17 (roundtrip). Rolling back to the count saved before any sequence of
  \<open>arm_patch_range\<close> calls, successful, refused or cut short by a full table, restores the
  patch table and every byte of memory.
\<close>

theorem arm_patch_rollback_restores:
  "arm_patch_rollback (arm_patch_count ps)
     (fold (\<lambda>(start, len) s. snd (arm_patch_range start len s)) ranges (ps, m)) = (ps, m)"
  using pl.undo_restores [of "(ps, m)" ranges] by (simp add: case_prod_beta')

section \<open>Looking up and forgetting records\<close>

lemma original_append:
  "arm_patch_original a (ps @ qs) =
    (case arm_patch_original a ps of None \<Rightarrow> arm_patch_original a qs | r \<Rightarrow> r)"
  by (auto simp: arm_patch_original_def find_append split: option.splits)

lemma original_records:
  "arm_patch_original a (map (record_of m) as) = (if a \<in> set as then Some (load32 m a) else None)"
  by (induction as) (auto simp: arm_patch_original_def record_of_def)

lemma original_filter:
  "arm_patch_original a (filter (\<lambda>p. P (pr_address p)) ps) =
    (if P a then arm_patch_original a ps else None)"
  by (induction ps) (auto simp: arm_patch_original_def)

lemma arm_patch_original_new:
  assumes "length ps \<le> MAX_PATCHES" and "arm_patch_range start len (ps, m) = (Done (), ps', m')"
  shows "arm_patch_original a ps' = (case arm_patch_original a ps of
      None \<Rightarrow> if word_aligned a \<and> start \<le> a \<and> a < start + len \<and> sensitive (load32 m a)
        then Some (load32 m a) else None
    | Some old \<Rightarrow> Some old)"
proof -
  let ?as = "word_addresses start (unat len div 4)"
  from assms(2) have ok: "word_aligned start" "word_aligned len" "len \<le> UINTPTR_MAX - start"
    and words: "patch_words ?as (ps, m) = (Done (), ps', m')"
    by (auto elim: arm_patch_range_cases)
  have "4 * (unat len div 4) \<le> 4294967296" using unat_u32_less [of len] by simp
  note spec = patch_words_spec [OF word_addresses_distinct [OF this] _ assms(1) words]
  have "\<forall>a\<in>set ?as. word_aligned a" using word_addresses_aligned [OF ok(1)] by blast
  from spec(1,2) [OF this] have "ps' = ps @ map (record_of m) (to_patch m ?as)"
    by (simp split: if_splits)
  then show ?thesis
    using set_word_addresses [OF ok, of a] by (auto simp: original_append original_records split: option.splits)
qed

lemma patch_lookup_forget_facts:
  assumes "length ps \<le> MAX_PATCHES"
    and "\<And>a. start \<le> a \<Longrightarrow> a < start + len \<Longrightarrow> arm_patch_original a ps = None"
    and "arm_patch_range start len (ps, m) = (Done (), ps', m')"
  shows "arm_patch_original a ps' =
      (if word_aligned a \<and> start \<le> a \<and> a < start + len \<and> sensitive (load32 m a)
       then Some (load32 m a) else arm_patch_original a ps)"
    and "arm_patch_original a (arm_patch_forget_range start len ps') =
      (if start \<le> a \<and> a < start + len then None else arm_patch_original a ps)"
proof -
  show look: "arm_patch_original a ps' =
      (if word_aligned a \<and> start \<le> a \<and> a < start + len \<and> sensitive (load32 m a)
       then Some (load32 m a) else arm_patch_original a ps)"
    using arm_patch_original_new [OF assms(1,3), of a] assms(2) [of a]
    by (auto split: option.splits)
  have "len \<le> UINTPTR_MAX - start" using assms(3) by (auto elim: arm_patch_range_cases)
  then have "arm_patch_forget_range start len ps' =
      filter (\<lambda>p. pr_address p < start \<or> start + len \<le> pr_address p) ps'"
    by (simp add: arm_patch_forget_range_def leD)
  with original_filter [of a "\<lambda>x. x < start \<or> start + len \<le> x" ps']
  have "arm_patch_original a (arm_patch_forget_range start len ps') =
      (if a < start \<or> start + len \<le> a then arm_patch_original a ps' else None)" by simp
  moreover have "a < start \<or> start + len \<le> a \<longleftrightarrow> \<not> (start \<le> a \<and> a < start + len)" by auto
  ultimately show "arm_patch_original a (arm_patch_forget_range start len ps') =
      (if start \<le> a \<and> a < start + len then None else arm_patch_original a ps)"
    using look by (simp del: not_le not_less de_Morgan_conj)
qed

text \<open>
  C29 (functional). Patching a range that has no records yet, and forgetting it again: after
  the patch, the trap handler finds at every address exactly the instruction that was there,
  and forgetting the range removes the records of the range and no others.
\<close>

theorem patch_lookup_forget:
  assumes "length ps \<le> MAX_PATCHES"
    and "\<forall>a. start \<le> a \<and> a < start + len \<longrightarrow> arm_patch_original a ps = None"
    and "arm_patch_range start len (ps, m) = (Done (), ps', m')"
  shows "arm_patch_original a ps' =
      (if word_aligned a \<and> start \<le> a \<and> a < start + len \<and> sensitive (load32 m a)
       then Some (load32 m a) else arm_patch_original a ps) \<and>
    arm_patch_original a (arm_patch_forget_range start len ps') =
      (if start \<le> a \<and> a < start + len then None else arm_patch_original a ps)"
  using patch_lookup_forget_facts [OF assms(1) _ assms(3)] assms(2) by blast

theorem patch_lookup_forget_witness:
  "arm_patch_original 0x10004 (fst (snd (arm_patch_range 0x10000 8 ([], svc_page)))) = Some 0xEE1D3F70"
  using patch_lookup_forget [OF _ _ svc_page_patched, of "0x10004"]
  by (simp add: svc_page_patched arm_patch_original_def word_aligned_def svc_page_loads sensitive_def)

text \<open>
  C34 (safety). A record that is already present wins over the one a later patch of the same
  address appends: the lookup scans from the oldest record. After the guest overwrites a
  patched word and makes the page executable again, the trap handler still emulates the
  instruction that was there first.
\<close>

theorem arm_patch_original_stale:
  assumes "length ps \<le> MAX_PATCHES" and "arm_patch_original a ps = Some old"
    and "arm_patch_range start len (ps, m) = (Done (), ps', m')"
  shows "arm_patch_original a ps' = Some old"
  using arm_patch_original_new [OF assms(1,3), of a] assms(2) by simp

text \<open>The guest loads new code over the patched page without a forget in between.\<close>

theorem arm_patch_original_stale_witness:
  "arm_patch_original 0x10004 (fst (snd (arm_patch_range 0x10000 8
      ([\<lparr>pr_address = 0x10004, pr_original = ARM_LINUX_SVC_0\<rparr>], svc_page)))) = Some ARM_LINUX_SVC_0 \<and>
   load32 svc_page 0x10004 \<noteq> ARM_LINUX_SVC_0"
proof -
  obtain ps' m' where run: "arm_patch_range 0x10000 8
      ([\<lparr>pr_address = 0x10004, pr_original = ARM_LINUX_SVC_0\<rparr>], svc_page) = (Done (), ps', m')"
    by (simp add: arm_patch_range_def word_addresses_2 svc_page_loads sensitive_def Let_def
        load32_store32_apart apart_def)
  show ?thesis
    using arm_patch_original_stale [OF _ _ run, of "0x10004" ARM_LINUX_SVC_0]
    by (simp add: run svc_page_loads arm_patch_original_def)
qed

section \<open>Patching a mapped ELF file\<close>

text \<open>
  The effect of patching confined to the range at \<open>address\<close> of \<open>len\<close> bytes: records of
  aligned words of the range are appended, aligned words either keep their value or become
  the trap, and bytes outside the range do not change.
\<close>

definition patched_within :: "u32 \<Rightarrow> u32 \<Rightarrow> patch_table \<times> mem \<Rightarrow> patch_table \<times> mem \<Rightarrow> bool" where
  "patched_within address len s s' \<longleftrightarrow>
     (\<exists>new. fst s' = fst s @ new \<and>
        (\<forall>p\<in>set new. word_aligned (pr_address p) \<and> address \<le> pr_address p \<and> pr_address p < address + len)) \<and>
     length (fst s') \<le> MAX_PATCHES \<and>
     (\<forall>b. word_aligned b \<longrightarrow> load32 (snd s') b = load32 (snd s) b \<or> load32 (snd s') b = ARM_UDF_TRAP) \<and>
     (\<forall>x. x < address \<or> address + len \<le> x \<longrightarrow> snd s' x = snd s x)"

lemma patched_within_refl: "length (fst s) \<le> MAX_PATCHES \<Longrightarrow> patched_within address len s s"
  by (simp add: patched_within_def)

lemma patched_within_trans:
  "patched_within address len s t \<Longrightarrow> patched_within address len t u \<Longrightarrow> patched_within address len s u"
  unfolding patched_within_def by (elim conjE exE, intro conjI) (auto, metis+)

lemma patched_within_count: "patched_within address len s t \<Longrightarrow> length (fst t) \<le> MAX_PATCHES"
  by (simp add: patched_within_def)

lemma patched_within_mono:
  "patched_within a n s t \<Longrightarrow> address \<le> a \<Longrightarrow> a + n \<le> address + len \<Longrightarrow> patched_within address len s t"
  unfolding patched_within_def by (elim conjE exE, intro conjI) (auto intro: order_trans less_le_trans)

lemma patched_within_not_sensitive:
  "patched_within a n s t \<Longrightarrow> word_aligned b \<Longrightarrow> \<not> sensitive (load32 (snd s) b) \<Longrightarrow>
    \<not> sensitive (load32 (snd t) b)"
  unfolding patched_within_def by (metis sensitive_UDF)

lemma patch_words_outside:
  "\<forall>a\<in>set as. 4 \<le> unat (x - a) \<Longrightarrow> snd (snd (patch_words as s)) x = snd s x"
  by (induction as s rule: patch_words.induct) (auto simp: Let_def store32_outside)

lemma outside_words:
  assumes "word_aligned start" "word_aligned len" "len \<le> UINTPTR_MAX - start"
    and "x < start \<or> start + len \<le> x" and a: "word_aligned a" "start \<le> a" "a < start + len"
  shows "4 \<le> unat (x - a)"
proof -
  have e: "unat (start + len) = unat start + unat len" by (rule unat_add_guarded [OF assms(3)])
  have "4 dvd unat start + unat len" "4 dvd unat a" "4 dvd unat start"
    using assms(1,2) a(1) by (auto simp: word_aligned_iff)
  moreover have "unat a < unat start + unat len" using a(3) e by (simp add: word_less_nat_alt)
  ultimately have gap: "unat a + 4 \<le> unat start + unat len" by (auto elim!: dvdE)
  have tot: "unat start + unat len < 4294967296" using assms(3) by (simp add: range_guard_iff)
  from assms(4) show ?thesis
  proof
    assume "x < start"
    then have "unat x < unat a" using a(2) by (simp add: word_less_nat_alt word_le_nat_alt)
    then have "unat (x - a) = 4294967296 + unat x - unat a" by (simp add: unat_sub_if')
    then show ?thesis using gap tot by simp
  next
    assume "start + len \<le> x"
    then have "unat a + 4 \<le> unat x" using gap e by (simp add: word_le_nat_alt)
    then show ?thesis by (simp add: unat_sub_if')
  qed
qed

lemma patch_range_effect:
  assumes table: "length (fst s) \<le> MAX_PATCHES" and run: "arm_patch_range start len s = (r, s')"
    and ok: "word_aligned start" "word_aligned len" "len \<le> UINTPTR_MAX - start"
  shows "r = Done () \<or> r = Fail E2BIG"
    and "patched_within start len s s'"
    and "r = Done () \<Longrightarrow> word_aligned a \<Longrightarrow> start \<le> a \<Longrightarrow> a < start + len \<Longrightarrow>
      \<not> sensitive (load32 (snd s') a)"
proof -
  obtain ps m ps' m' where s: "s = (ps, m)" "s' = (ps', m')" by (cases s, cases s')
  let ?as = "word_addresses start (unat len div 4)"
  have words: "patch_words ?as (ps, m) = (r, ps', m')"
    using run ok s by (simp add: arm_patch_range_def word_aligned_def leD)
  have al: "\<forall>a\<in>set ?as. word_aligned a" using word_addresses_aligned [OF ok(1)] by blast
  have "4 * (unat len div 4) \<le> 4294967296" using unat_u32_less [of len] by simp
  note spec = patch_words_spec [OF word_addresses_distinct [OF this] al _ words]
  have table': "length ps \<le> MAX_PATCHES" using table s by simp
  note inset = set_word_addresses [OF ok]
  show "r = Done () \<or> r = Fail E2BIG" using spec(1) [OF table'] by (simp split: if_splits)
  have "m' x = m x" if "x < start \<or> start + len \<le> x" for x
    using patch_words_outside [of ?as x "(ps, m)"] outside_words [OF ok that] words
    by (simp add: inset)
  moreover have "length ps' \<le> MAX_PATCHES" using spec(2) [OF table'] table' by simp
  moreover have "\<forall>p\<in>set (map (record_of m) (take (MAX_PATCHES - length ps) (to_patch m ?as))).
      word_aligned (pr_address p) \<and> start \<le> pr_address p \<and> pr_address p < start + len"
    by (auto simp: record_of_def inset dest!: in_set_takeD)
  ultimately show "patched_within start len s s'"
    using spec(2,3) [OF table'] s by (auto simp: patched_within_def)
  show "\<not> sensitive (load32 (snd s') a)"
    if "r = Done ()" "word_aligned a" "start \<le> a" "a < start + len"
    using spec(1) [OF table'] spec(3) [OF table' that(2)] that inset [of a] s
    by (simp split: if_splits)
qed
lemma align_patch_start_spec:
  "first \<le> limit \<Longrightarrow>
    first \<le> align_patch_start address base limit first \<and>
    align_patch_start address base limit first \<le> limit \<and>
    (align_patch_start address base limit first < limit \<longrightarrow>
      word_aligned (address + of_nat (align_patch_start address base limit first - base))) \<and>
    (\<forall>q. first \<le> q \<and> q < align_patch_start address base limit first \<longrightarrow>
      \<not> word_aligned (address + of_nat (q - base)))"
proof (induction address base limit first rule: align_patch_start.induct)
  case (1 address base limit first)
  show ?case
  proof (cases "first < limit \<and> (address + of_nat (first - base)) AND 3 \<noteq> 0")
    case True
    then have eq: "align_patch_start address base limit first = align_patch_start address base limit (Suc first)"
      by (subst align_patch_start.simps) simp
    have "\<not> word_aligned (address + of_nat (first - base))" using True by (simp add: word_aligned_def)
    moreover have "Suc first \<le> limit" using True by simp
    ultimately show ?thesis using "1.IH" [OF True] unfolding eq by (metis Suc_leD le_antisym not_less_eq_eq)
  next
    case False
    then have "align_patch_start address base limit first = first"
      by (subst align_patch_start.simps) auto
    then show ?thesis using False "1.prems" by (auto simp: word_aligned_def)
  qed
qed

text \<open>An aligned word of the mapping that lies in an executable \<open>PROGBITS\<close> section of the file.\<close>

definition section_word :: "nat \<Rightarrow> u32 \<Rightarrow> u32 \<Rightarrow> elf32_shdr \<Rightarrow> u32 \<Rightarrow> bool" where
  "section_word base address len sec a \<longleftrightarrow>
     word_aligned a \<and> address \<le> a \<and> unat a + 4 \<le> unat address + unat len \<and>
     sh_type sec = SHT_PROGBITS \<and> sh_flags sec AND SHF_EXECINSTR \<noteq> 0 \<and>
     unat (sh_offset sec) \<le> base + unat (a - address) \<and>
     base + unat (a - address) + 4 \<le> unat (sh_offset sec) + unat (sh_size sec)"

lemma unat_add_offset:
  "unat (address :: u32) + unat len < 4294967296 \<Longrightarrow> k \<le> unat len \<Longrightarrow> unat (address + of_nat k) = unat address + k"
  using unat_add_lem [of address "of_nat k"] by (simp add: unat_of_nat_u32)

lemma last_word_fits:
  assumes "4 dvd i" and "i + 4 \<le> n" shows "i + 4 \<le> n - n mod (4 :: nat)"
proof -
  obtain j where "i = 4 * j" using assms(1) by blast
  then show ?thesis using assms(2) by presburger
qed

text \<open>The bytes of the file that one section contributes: the first aligned one and their number.\<close>

definition patch_limit :: "nat \<Rightarrow> u32 \<Rightarrow> elf32_shdr \<Rightarrow> nat" where
  "patch_limit base len sec = min (unat (sh_offset sec) + unat (sh_size sec)) (base + unat len)"

definition patch_first :: "nat \<Rightarrow> u32 \<Rightarrow> u32 \<Rightarrow> elf32_shdr \<Rightarrow> nat" where
  "patch_first base address len sec =
     align_patch_start address base (patch_limit base len sec) (max (unat (sh_offset sec)) base)"

definition patch_bytes :: "nat \<Rightarrow> u32 \<Rightarrow> u32 \<Rightarrow> elf32_shdr \<Rightarrow> nat" where
  "patch_bytes base address len sec =
     (let n = patch_limit base len sec - patch_first base address len sec in n - n mod 4)"

definition has_code :: "nat \<Rightarrow> u32 \<Rightarrow> elf32_shdr \<Rightarrow> bool" where
  "has_code base len sec \<longleftrightarrow> sh_type sec = SHT_PROGBITS \<and> sh_flags sec AND SHF_EXECINSTR \<noteq> 0 \<and>
     max (unat (sh_offset sec)) base < patch_limit base len sec"

lemma has_code_bounds:
  assumes "has_code base len sec"
  shows "max (unat (sh_offset sec)) base \<le> patch_first base address len sec"
    and "patch_first base address len sec \<le> patch_limit base len sec"
    and "patch_first base address len sec < patch_limit base len sec \<Longrightarrow>
      word_aligned (address + of_nat (patch_first base address len sec - base))"
    and "max (unat (sh_offset sec)) base \<le> q \<Longrightarrow> word_aligned (address + of_nat (q - base)) \<Longrightarrow>
      patch_first base address len sec \<le> q"
proof -
  have "max (unat (sh_offset sec)) base \<le> patch_limit base len sec"
    using assms by (simp add: has_code_def less_imp_le)
  note spec = align_patch_start_spec [OF this, of address base, folded patch_first_def]
  show "max (unat (sh_offset sec)) base \<le> patch_first base address len sec"
    and "patch_first base address len sec \<le> patch_limit base len sec"
    and "patch_first base address len sec < patch_limit base len sec \<Longrightarrow>
      word_aligned (address + of_nat (patch_first base address len sec - base))"
    using spec by blast+
  show "patch_first base address len sec \<le> q"
    if "max (unat (sh_offset sec)) base \<le> q" "word_aligned (address + of_nat (q - base))"
    using spec that not_le by blast
qed

lemma patch_mapped_section_eq:
  assumes "len \<noteq> 0"
  shows "patch_mapped_section base (base + unat len) address sec s =
    (if has_code base len sec \<and> patch_bytes base address len sec > 0
     then arm_patch_range (address + of_nat (patch_first base address len sec - base))
       (of_nat (patch_bytes base address len sec)) s
     else (Done (), s))"
proof -
  have skip: "sh_type sec \<noteq> SHT_PROGBITS \<or> sh_flags sec AND SHF_EXECINSTR = 0 \<or> sh_size sec = 0 \<or>
      unat (sh_offset sec) + unat (sh_size sec) < unat (sh_offset sec) \<or>
      base + unat len \<le> unat (sh_offset sec) \<or> unat (sh_offset sec) + unat (sh_size sec) \<le> base \<longleftrightarrow>
      \<not> has_code base len sec"
    using assms(1) by (auto simp: has_code_def patch_limit_def unat_gt_0)
  have bytes: "patch_limit base len sec -
      (patch_limit base len sec - patch_first base address len sec) mod 4 -
      patch_first base address len sec = patch_bytes base address len sec"
    by (simp add: patch_bytes_def Let_def)
  show ?thesis
    unfolding patch_mapped_section_def Let_def patch_limit_def [symmetric]
      patch_first_def [symmetric] skip bytes
    using bytes by auto
qed

lemma unat_patch_address:
  assumes "unat address + unat len < 4294967296" and "base \<le> q" and "q \<le> base + unat len"
  shows "unat (address + of_nat (q - base) :: u32) = unat address + (q - base)"
  using assms by (intro unat_add_offset) auto

lemma section_word_bytes:
  assumes guard: "len \<le> UINTPTR_MAX - address" and sw: "section_word base address len sec a"
  shows "has_code base len sec"
    and "patch_first base address len sec \<le> base + unat (a - address)"
    and "base + unat (a - address) - patch_first base address len sec + 4 \<le> patch_bytes base address len sec"
proof -
  define i where "i = unat (a - address)"
  define p where "p = patch_first base address len sec"
  have tot: "unat address + unat len < 4294967296" using guard by (simp add: range_guard_iff)
  have a: "a = address + of_nat i" "unat a = unat address + i"
    using sw by (simp_all add: i_def section_word_def unat_sub word_le_nat_alt)
  have i: "i + 4 \<le> unat len" "unat (sh_offset sec) \<le> base + i"
    "base + i + 4 \<le> patch_limit base len sec" "word_aligned a"
    using sw [unfolded section_word_def, folded i_def] a(2) by (simp_all add: patch_limit_def)
  show code: "has_code base len sec" using sw i by (simp add: section_word_def has_code_def)
  note b = has_code_bounds [where address = address, OF code]
  have pi: "p \<le> base + i" using b(4) [of "base + i"] i a by (simp add: p_def)
  then show "patch_first base address len sec \<le> base + unat (a - address)" by (simp add: p_def i_def)
  have "word_aligned (address + of_nat (p - base))" using b(3) pi i(3) by (simp add: p_def)
  then have "word_aligned (a - (address + of_nat (p - base)))" using i(4) by (simp add: word_aligned_diff)
  moreover have "unat (a - (address + of_nat (p - base))) = base + i - p"
    using unat_patch_address [OF tot, of base p] a pi b(1) i(1)
    by (subst unat_sub) (simp_all add: word_le_nat_alt p_def)
  ultimately have "4 dvd base + i - p" by (simp add: word_aligned_iff)
  from last_word_fits [OF this, of "patch_limit base len sec - p"]
  show "base + unat (a - address) - patch_first base address len sec + 4 \<le> patch_bytes base address len sec"
    using i(3) pi by (simp add: patch_bytes_def Let_def p_def [symmetric] i_def [symmetric])
qed

lemma mapped_section_call:
  assumes guard: "len \<le> UINTPTR_MAX - address" and code: "has_code base len sec"
    and some: "patch_bytes base address len sec > 0"
  defines "start \<equiv> address + of_nat (patch_first base address len sec - base)"
    and "n \<equiv> of_nat (patch_bytes base address len sec) :: u32"
  shows "word_aligned start" "word_aligned n" "n \<le> UINTPTR_MAX - start"
    and "address \<le> start" "start + n \<le> address + len"
    and "section_word base address len sec a \<Longrightarrow> start \<le> a \<and> a < start + n"
proof -
  note b = has_code_bounds [where address = address, OF code]
  define p k where "p = patch_first base address len sec" and "k = patch_bytes base address len sec"
  have tot: "unat address + unat len < 4294967296" using guard by (simp add: range_guard_iff)
  have k: "k = (patch_limit base len sec - p) - (patch_limit base len sec - p) mod 4"
    by (simp add: k_def p_def patch_bytes_def Let_def)
  have lim: "patch_limit base len sec \<le> base + unat len" by (simp add: patch_limit_def)
  have le: "p - base + k \<le> unat len" "base \<le> p" using b lim k by (simp_all add: p_def)
  have un: "unat n = k" using le tot by (simp add: n_def k_def [symmetric] unat_of_nat_u32)
  have us: "unat start = unat address + (p - base)"
    unfolding start_def p_def [symmetric] by (rule unat_patch_address [OF tot]) (use le in auto)
  have sum: "unat start + unat n < 4294967296" using un us le tot by simp
  have end_eq: "unat (address + len) = unat address + unat len" "unat (start + n) = unat start + unat n"
    using guard sum by (simp_all add: unat_add_guarded range_guard_iff)
  have "p < patch_limit base len sec" using some k by (simp add: k_def)
  then show "word_aligned start" using b(3) by (simp add: start_def p_def)
  show "word_aligned n" unfolding word_aligned_iff un k by (rule dvd_minus_mod)
  show "n \<le> UINTPTR_MAX - start" using sum by (simp add: range_guard_iff)
  show "address \<le> start" using us by (simp add: word_le_nat_alt)
  show "start + n \<le> address + len" using us un le end_eq by (simp add: word_le_nat_alt)
  show "start \<le> a \<and> a < start + n" if sw: "section_word base address len sec a"
  proof -
    have "unat a = unat address + unat (a - address)"
      using sw by (simp add: section_word_def unat_sub word_le_nat_alt)
    then show ?thesis
      using section_word_bytes(2,3) [OF guard sw] us un le end_eq
      unfolding word_le_nat_alt word_less_nat_alt p_def k_def by linarith
  qed
qed

lemma mapped_section_effect:
  assumes guard: "len \<le> UINTPTR_MAX - address" and "len \<noteq> 0"
    and table: "length (fst s) \<le> MAX_PATCHES"
    and run: "patch_mapped_section base (base + unat len) address sec s = (r, s')"
  shows "r = Done () \<or> r = Fail E2BIG" and "patched_within address len s s'"
    and "r = Done () \<Longrightarrow> section_word base address len sec a \<Longrightarrow> \<not> sensitive (load32 (snd s') a)"
proof -
  consider (idle) "\<not> (has_code base len sec \<and> patch_bytes base address len sec > 0)" "(r, s') = (Done (), s)"
    | (call) "has_code base len sec" "patch_bytes base address len sec > 0"
      "arm_patch_range (address + of_nat (patch_first base address len sec - base))
         (of_nat (patch_bytes base address len sec)) s = (r, s')"
    using run unfolding patch_mapped_section_eq [OF assms(2)] by (auto split: if_splits)
  then have "(r = Done () \<or> r = Fail E2BIG) \<and> patched_within address len s s' \<and>
    (r = Done () \<longrightarrow> section_word base address len sec a \<longrightarrow> \<not> sensitive (load32 (snd s') a))"
  proof cases
    case idle
    then show ?thesis
      using section_word_bytes [OF guard, of base sec a] patched_within_refl [OF table] by fastforce
  next
    case call
    note c = mapped_section_call [OF guard call(1,2)]
    note e = patch_range_effect [OF table call(3) c(1-3)]
    show ?thesis
      using e(1) patched_within_mono [OF e(2) c(4,5)] e(3) [of a] c(6) [of a]
      by (auto simp: section_word_def)
  qed
  then show "r = Done () \<or> r = Fail E2BIG" and "patched_within address len s s'"
    and "r = Done () \<Longrightarrow> section_word base address len sec a \<Longrightarrow> \<not> sensitive (load32 (snd s') a)"
    by blast+
qed

lemma mapped_sections_effect:
  assumes "len \<le> UINTPTR_MAX - address" and "len \<noteq> 0" and "length (fst s) \<le> MAX_PATCHES"
    and "patch_mapped_sections base (base + unat len) address sections s = (r, s')"
  shows "r = Done () \<or> r = Fail E2BIG" and "patched_within address len s s'"
    and "\<And>sec a. r = Done () \<Longrightarrow> sec \<in> set sections \<Longrightarrow> section_word base address len sec a \<Longrightarrow>
      \<not> sensitive (load32 (snd s') a)"
proof -
  have "(r = Done () \<or> r = Fail E2BIG) \<and> patched_within address len s s' \<and>
    (r = Done () \<longrightarrow> (\<forall>sec\<in>set sections. \<forall>a. section_word base address len sec a \<longrightarrow>
      \<not> sensitive (load32 (snd s') a)))"
    using assms(3,4)
  proof (induction sections arbitrary: s)
    case Nil
    then show ?case by (auto simp: patched_within_refl)
  next
    case (Cons sec rest)
    obtain r1 s1 where one: "patch_mapped_section base (base + unat len) address sec s = (r1, s1)"
      by (cases "patch_mapped_section base (base + unat len) address sec s")
    note e = mapped_section_effect [OF assms(1,2) Cons.prems(1) one]
    show ?case
    proof (cases "r1 = Done ()")
      case False
      then show ?thesis using Cons.prems(2) one e(1,2) by auto
    next
      case True
      then have rest: "patch_mapped_sections base (base + unat len) address rest s1 = (r, s')"
        using Cons.prems(2) one by simp
      note ih = Cons.IH [OF patched_within_count [OF e(2)] rest]
      then have within: "patched_within address len s1 s'" by blast
      have "\<not> sensitive (load32 (snd s') a)" if "section_word base address len sec a" for a
        using that patched_within_not_sensitive [OF within _ e(3) [OF True that]]
        by (simp add: section_word_def)
      then show ?thesis using ih patched_within_trans [OF e(2) within] by auto
    qed
  qed
  then show "r = Done () \<or> r = Fail E2BIG" and "patched_within address len s s'"
    and "\<And>sec a. r = Done () \<Longrightarrow> sec \<in> set sections \<Longrightarrow> section_word base address len sec a \<Longrightarrow>
      \<not> sensitive (load32 (snd s') a)"
    by blast+
qed

text \<open>
  C2 (safety). \<open>arm_patch_elf_mapping\<close> on a mapped part of an ELF file: the section loop
  either succeeds or reports a full table (the alignment and range checks of
  \<open>arm_patch_range\<close> never refuse a section), it writes only inside the mapping, and when it
  succeeds no aligned word of an executable section inside the mapping is a system call or
  a thread-register read.
\<close>

theorem elf_mapping_patched:
  assumes "len \<le> UINTPTR_MAX - address" and "len \<noteq> 0" and "length (fst s) \<le> MAX_PATCHES"
    and "patch_mapped_sections base (base + unat len) address sections s = (r, s')"
  shows "(r = Done () \<or> r = Fail E2BIG) \<and> patched_within address len s s' \<and>
    (r = Done () \<longrightarrow> (\<forall>sec\<in>set sections. \<forall>a. section_word base address len sec a \<longrightarrow>
      \<not> sensitive (load32 (snd s') a)))"
  using mapped_sections_effect [OF assms] by blast

definition text_section :: elf32_shdr where
  "text_section = \<lparr>sh_name = 0, sh_type = SHT_PROGBITS, sh_flags = 6, sh_addr = 0, sh_offset = 0x1000,
     sh_size = 8, sh_link = 0, sh_info = 0, sh_addralign = 4, sh_entsize = 0\<rparr>"

theorem elf_mapping_patched_witness:
  "section_word 0x1000 0x10000 0x1000 text_section 0x10004 \<and>
   fst (patch_mapped_sections 0x1000 (0x1000 + unat (0x1000 :: u32)) 0x10000 [text_section] ([], svc_page))
     = Done () \<and>
   \<not> sensitive (load32 (snd (snd (patch_mapped_sections 0x1000 (0x1000 + unat (0x1000 :: u32)) 0x10000
      [text_section] ([], svc_page)))) 0x10004)"
proof -
  have start: "align_patch_start 0x10000 0x1000 0x1008 0x1000 = 0x1000"
    by (subst align_patch_start.simps) simp
  obtain s' where run: "patch_mapped_sections 0x1000 (0x1000 + unat (0x1000 :: u32)) 0x10000
      [text_section] ([], svc_page) = (Done (), s')"
    by (simp add: text_section_def patch_mapped_section_def Let_def start svc_page_patched)
  have word: "section_word 0x1000 0x10000 0x1000 text_section 0x10004"
    by (simp add: section_word_def text_section_def word_aligned_def)
  show ?thesis unfolding run using elf_mapping_patched [OF _ _ _ run] word by simp
qed

end
