(* ===== verification/Runtime_Map.thy ===== *)
theory Runtime_Map
  imports Prelude
begin

text \<open>
  The registry of runtime mappings of \<open>src/src/guest_memory.c\<close>: the sorted array of
  address ranges the guest owns through \<open>mmap2\<close>, \<open>brk\<close> and its stack, and the two
  routines on it that run under \<open>runtime_mapping_lock\<close>. The array is the list of its
  first \<open>runtime_mapping_count\<close> entries. The second half shows that the array implements
  a map from addresses to "not owned", "owned" and "owned and executable".
\<close>

section \<open>State and operations\<close>

abbreviation MAX_RUNTIME_MAPPINGS :: nat where "MAX_RUNTIME_MAPPINGS \<equiv> 2048"

record runtime_mapping =
  rm_start :: u32
  rm_end :: u32
  rm_executable :: bool

type_synonym registry = "runtime_mapping list"

definition ranges_overlap :: "u32 \<Rightarrow> u32 \<Rightarrow> u32 \<Rightarrow> u32 \<Rightarrow> bool" where
  "ranges_overlap first_start first_end second_start second_end \<longleftrightarrow>
     first_start < second_end \<and> second_start < first_end"

text \<open>One pass of the inner loop of \<open>runtime_range_owned_locked\<close>.\<close>

definition covered_end :: "registry \<Rightarrow> u32 \<Rightarrow> u32" where
  "covered_end ms cursor =
     foldl (\<lambda>covered r. if rm_start r \<le> cursor \<and> rm_end r > covered then rm_end r else covered)
       cursor ms"

lemma covered_end_ge: "cursor \<le> covered_end ms cursor"
proof -
  have "c \<le> foldl (\<lambda>covered r. if rm_start r \<le> cursor \<and> rm_end r > covered then rm_end r else covered) c ms" for c
    by (induction ms arbitrary: c) (auto intro: order_trans less_imp_le)
  then show ?thesis by (simp add: covered_end_def)
qed

function runtime_range_owned_locked :: "u32 \<Rightarrow> u32 \<Rightarrow> registry \<Rightarrow> bool" where
  "runtime_range_owned_locked cursor end ms =
     (if cursor < end then
        if covered_end ms cursor = cursor then False
        else runtime_range_owned_locked (covered_end ms cursor) end ms
      else True)"
  by pat_completeness auto
termination
proof (relation "measure (\<lambda>(cursor, end, ms). unat end - unat cursor)")
  fix cursor "end" :: u32 and ms :: registry
  assume "cursor < end" and "covered_end ms cursor \<noteq> cursor"
  moreover from this(2) have "cursor < covered_end ms cursor"
    using covered_end_ge [of cursor ms] by (intro order_neq_le_trans) simp_all
  ultimately have "unat cursor < unat (covered_end ms cursor)" "unat cursor < unat end"
    by (simp_all add: word_less_nat_alt)
  then show "((covered_end ms cursor, end, ms), cursor, end, ms) \<in>
      measure (\<lambda>(cursor, end, ms). unat end - unat cursor)"
    by simp
qed simp

declare runtime_range_owned_locked.simps [simp del]

text \<open>
  \<open>runtime_replace_locked\<close>: what is left of an old mapping outside the replaced range, the
  insertion sort by start address, and the compaction that joins neighbours of the same
  kind. The scratch array has two entries more than the registry; writing past it is a
  \<open>Fault\<close>. The routine returns -1 without setting \<open>errno\<close> when the result is too long.
\<close>

definition cut_mapping :: "u32 \<Rightarrow> u32 \<Rightarrow> runtime_mapping \<Rightarrow> registry" where
  "cut_mapping start end old =
     (if \<not> ranges_overlap start end (rm_start old) (rm_end old) then [old]
      else (if rm_start old < start then [old\<lparr>rm_end := start\<rparr>] else []) @
        (if rm_end old > end then [old\<lparr>rm_start := end\<rparr>] else []))"

function shift_insert :: "registry \<Rightarrow> runtime_mapping \<Rightarrow> registry" where
  "shift_insert before item =
     (if before \<noteq> [] \<and> rm_start (last before) > rm_start item
      then shift_insert (butlast before) item @ [last before]
      else before @ [item])"
  by pat_completeness auto
termination
  by (relation "measure (\<lambda>(before, item). length before)") auto

declare shift_insert.simps [simp del]

definition insertion_sort :: "registry \<Rightarrow> registry" where
  "insertion_sort scratch = foldl shift_insert [] scratch"

definition joins :: "runtime_mapping \<Rightarrow> runtime_mapping \<Rightarrow> bool" where
  "joins a b \<longleftrightarrow> rm_end a = rm_start b \<and> rm_executable a = rm_executable b"

definition compact_one :: "registry \<Rightarrow> runtime_mapping \<Rightarrow> registry" where
  "compact_one compacted item =
     (if compacted \<noteq> [] \<and> joins (last compacted) item
      then butlast compacted @ [(last compacted)\<lparr>rm_end := rm_end item\<rparr>]
      else compacted @ [item])"

definition compact :: "registry \<Rightarrow> registry" where
  "compact scratch = foldl compact_one [] scratch"

definition replacement_scratch :: "u32 \<Rightarrow> u32 \<Rightarrow> bool option \<Rightarrow> registry \<Rightarrow> registry" where
  "replacement_scratch start end replacement ms =
     concat (map (cut_mapping start end) ms) @
     (case replacement of None \<Rightarrow> []
      | Some executable \<Rightarrow> [\<lparr>rm_start = start, rm_end = end, rm_executable = executable\<rparr>])"

text \<open>
  The pair of arguments \<open>add_replacement\<close> and \<open>executable\<close> is one option: \<open>None\<close> removes
  the range.
\<close>

definition runtime_replace_locked ::
  "u32 \<Rightarrow> u32 \<Rightarrow> bool option \<Rightarrow> registry \<Rightarrow> registry outcome" where
  "runtime_replace_locked start end replacement ms =
     (let scratch = replacement_scratch start end replacement ms in
      if length scratch > MAX_RUNTIME_MAPPINGS + 2 then Fault
      else let compacted = compact (insertion_sort scratch) in
        if length compacted > MAX_RUNTIME_MAPPINGS then FailStale else Done compacted)"

section \<open>The address map behind the registry\<close>

definition covers :: "runtime_mapping \<Rightarrow> u32 \<Rightarrow> bool" where
  "covers r x \<longleftrightarrow> rm_start r \<le> x \<and> x < rm_end r"

definition owner :: "registry \<Rightarrow> u32 \<Rightarrow> bool option" where
  "owner ms x = map_option rm_executable (find (\<lambda>r. covers r x) ms)"

text \<open>Nonempty ranges in ascending order without overlap.\<close>

definition ordered :: "registry \<Rightarrow> bool" where
  "ordered ms \<longleftrightarrow> sorted_wrt (\<lambda>a b. rm_end a \<le> rm_start b) ms \<and> (\<forall>r\<in>set ms. rm_start r < rm_end r)"

definition registry_ok :: "registry \<Rightarrow> bool" where
  "registry_ok ms \<longleftrightarrow>
     ordered ms \<and> successively (\<lambda>a b. \<not> joins a b) ms \<and> length ms \<le> MAX_RUNTIME_MAPPINGS"

definition owns :: "registry \<Rightarrow> u32 \<Rightarrow> bool \<Rightarrow> bool" where
  "owns ms x e \<longleftrightarrow> (\<exists>r\<in>set ms. covers r x \<and> rm_executable r = e)"

named_theorems registry_simps \<open>ordering and ownership of the lists the registry builds\<close>

lemma ordered_Nil [registry_simps]: "ordered []"
  by (simp add: ordered_def)

lemma ordered_append [registry_simps]:
  "ordered (xs @ ys) \<longleftrightarrow> ordered xs \<and> ordered ys \<and> (\<forall>x\<in>set xs. \<forall>y\<in>set ys. rm_end x \<le> rm_start y)"
  by (auto simp: ordered_def sorted_wrt_append)

lemma ordered_Cons [registry_simps]:
  "ordered (x # xs) \<longleftrightarrow> rm_start x < rm_end x \<and> (\<forall>y\<in>set xs. rm_end x \<le> rm_start y) \<and> ordered xs"
  by (auto simp: ordered_def)

lemma owns_append [registry_simps]: "owns (xs @ ys) x e \<longleftrightarrow> owns xs x e \<or> owns ys x e"
  by (auto simp: owns_def)

lemma owns_Cons [registry_simps]: "owns (r # rs) x e \<longleftrightarrow> (covers r x \<and> rm_executable r = e) \<or> owns rs x e"
  by (auto simp: owns_def)

lemma owns_Nil [registry_simps]: "\<not> owns [] x e"
  by (simp add: owns_def)

lemma owner_iff: "ordered ms \<Longrightarrow> owner ms x = Some e \<longleftrightarrow> owns ms x e"
proof (induction ms)
  case Nil
  then show ?case by (simp add: owner_def owns_def)
next
  case (Cons r ms)
  then have ih: "owner ms x = Some e \<longleftrightarrow> owns ms x e" by (simp add: ordered_Cons)
  show ?case
  proof (cases "covers r x")
    case True
    have "\<not> covers y x" if "y \<in> set ms" for y
      using Cons.prems that True by (fastforce simp: ordered_Cons covers_def)
    then have "\<not> owns ms x e" by (auto simp: owns_def)
    then show ?thesis using True by (simp add: owner_def owns_Cons)
  next
    case False
    then show ?thesis using ih by (simp add: owner_def owns_Cons)
  qed
qed

lemma owner_None_iff: "owner ms x = None \<longleftrightarrow> (\<forall>r\<in>set ms. \<not> covers r x)"
  by (auto simp: owner_def find_None_iff)

lemma owner_eqI: "(\<And>e. owner ms x = Some e \<longleftrightarrow> v = Some e) \<Longrightarrow> owner ms x = v"
  by (cases v; cases "owner ms x") auto

section \<open>Cutting, sorting and joining\<close>

lemma owns_cut:
  "start < end \<Longrightarrow>
    owns (cut_mapping start end r) x e \<longleftrightarrow>
      covers r x \<and> rm_executable r = e \<and> \<not> (start \<le> x \<and> x < end)"
  by (auto simp: cut_mapping_def ranges_overlap_def covers_def registry_simps)

lemma cut_bounds:
  assumes "p \<in> set (cut_mapping start end r)" and "rm_start r < rm_end r" and "start < end"
  shows "rm_start r \<le> rm_start p" "rm_end p \<le> rm_end r" "rm_start p < rm_end p"
    "rm_end p \<le> start \<or> end \<le> rm_start p"
  using assms by (auto simp: cut_mapping_def ranges_overlap_def split: if_splits)

lemma ordered_cut: "rm_start r < rm_end r \<Longrightarrow> start < end \<Longrightarrow> ordered (cut_mapping start end r)"
  by (auto simp: cut_mapping_def ranges_overlap_def ordered_def)

abbreviation cut_all :: "u32 \<Rightarrow> u32 \<Rightarrow> registry \<Rightarrow> registry" where
  "cut_all start end ms \<equiv> concat (map (cut_mapping start end) ms)"

lemma cut_all_mem:
  assumes "p \<in> set (cut_all start end ms)" and "ordered ms" and "start < end"
  obtains r where "r \<in> set ms" "rm_start r \<le> rm_start p" "rm_end p \<le> rm_end r"
    "rm_start p < rm_end p" "rm_end p \<le> start \<or> end \<le> rm_start p"
proof -
  from assms(1) obtain r where r: "r \<in> set ms" "p \<in> set (cut_mapping start end r)" by auto
  have "rm_start r < rm_end r" using assms(2) r(1) by (simp add: ordered_def)
  from cut_bounds [OF r(2) this assms(3)] r(1) that show thesis by blast
qed

lemma ordered_cut_all: "ordered ms \<Longrightarrow> start < end \<Longrightarrow> ordered (cut_all start end ms)"
proof (induction ms)
  case (Cons r ms)
  have "rm_end p \<le> rm_start q" if p: "p \<in> set (cut_mapping start end r)" and q: "q \<in> set (cut_all start end ms)" for p q
  proof -
    obtain y where y: "y \<in> set ms" "rm_start y \<le> rm_start q"
      using cut_all_mem [OF q] Cons.prems by (auto simp: ordered_Cons)
    have "rm_end p \<le> rm_end r" using cut_bounds(2) [OF p] Cons.prems by (simp add: ordered_Cons)
    also have "\<dots> \<le> rm_start y" using Cons.prems(1) y(1) by (simp add: ordered_Cons)
    finally show ?thesis using y(2) by simp
  qed
  then show ?case using Cons ordered_cut by (simp add: ordered_Cons ordered_append)
qed (simp add: ordered_Nil)

lemma owns_cut_all:
  "start < end \<Longrightarrow> owns (cut_all start end ms) x e \<longleftrightarrow> owns ms x e \<and> \<not> (start \<le> x \<and> x < end)"
  by (induction ms) (auto simp: registry_simps owns_cut)

text \<open>Only one of the old mappings can stick out on both sides, so the scratch array is large enough.\<close>

lemma length_cut: "length (cut_mapping start end r) \<le> 2"
  by (simp add: cut_mapping_def)

lemma cut_all_after: "\<forall>r\<in>set ms. end \<le> rm_start r \<Longrightarrow> length (cut_all start end ms) = length ms"
  by (induction ms) (auto simp: cut_mapping_def ranges_overlap_def)

lemma length_cut_all:
  "ordered ms \<Longrightarrow> start < end \<Longrightarrow> length (cut_all start end ms) \<le> Suc (length ms)"
proof (induction ms)
  case (Cons r ms)
  show ?case
  proof (cases "rm_end r > end")
    case True
    then have "\<forall>y\<in>set ms. end \<le> rm_start y" using Cons.prems(1) by (auto simp: ordered_Cons intro: order_trans less_imp_le)
    then show ?thesis using cut_all_after [of ms] length_cut [of start "end" r] by simp
  next
    case False
    then have "length (cut_mapping start end r) \<le> 1" by (auto simp: cut_mapping_def)
    then show ?thesis using Cons by (simp add: ordered_Cons)
  qed
qed simp

lemma shift_insert_snoc:
  "shift_insert (xs @ [y]) x = (if rm_start y > rm_start x then shift_insert xs x @ [y] else xs @ [y, x])"
  by (subst shift_insert.simps) simp

lemma shift_insert_Nil: "shift_insert [] x = [x]"
  by (subst shift_insert.simps) simp

lemma shift_insert_facts:
  assumes "ordered xs" and "rm_start x < rm_end x"
    and "\<forall>p\<in>set xs. rm_end p \<le> rm_start x \<or> rm_end x \<le> rm_start p"
  shows "ordered (shift_insert xs x) \<and> set (shift_insert xs x) = insert x (set xs)"
  using assms
proof (induction xs rule: rev_induct)
  case Nil
  then show ?case by (simp add: shift_insert_Nil ordered_def)
next
  case (snoc y xs)
  show ?case
  proof (cases "rm_start y > rm_start x")
    case True
    then have "rm_end x \<le> rm_start y" using snoc.prems by (auto simp: ordered_append ordered_Cons)
    then show ?thesis using snoc True by (auto simp: shift_insert_snoc registry_simps)
  next
    case False
    have "rm_end y \<le> rm_start x" using snoc.prems False by (auto simp: registry_simps)
    moreover have "rm_end p \<le> rm_start x" if "p \<in> set xs" for p
    proof -
      have "rm_end p \<le> rm_start y" "rm_start y < rm_end y" using snoc.prems(1) that by (auto simp: registry_simps)
      then show ?thesis using \<open>rm_end y \<le> rm_start x\<close> by simp
    qed
    ultimately show ?thesis using snoc.prems False by (auto simp: shift_insert_snoc registry_simps)
  qed
qed

lemma length_shift_insert: "length (shift_insert xs x) = Suc (length xs)"
  by (induction xs rule: rev_induct) (simp_all add: shift_insert_Nil shift_insert_snoc)

lemma insertion_sort_snoc: "insertion_sort (xs @ [x]) = shift_insert (insertion_sort xs) x"
  by (simp add: insertion_sort_def)

lemma insertion_sort_ordered: "ordered xs \<Longrightarrow> insertion_sort xs = xs"
proof (induction xs rule: rev_induct)
  case (snoc x xs)
  then have eq: "insertion_sort (xs @ [x]) = shift_insert xs x"
    by (simp add: insertion_sort_snoc ordered_append)
  show ?case
  proof (cases xs rule: rev_cases)
    case (snoc ys y)
    then have "rm_start y < rm_end y" "rm_end y \<le> rm_start x"
      using \<open>ordered (xs @ [x])\<close> by (auto simp: registry_simps)
    then have "\<not> rm_start x < rm_start y" by simp
    then show ?thesis using eq snoc by (simp add: shift_insert_snoc)
  qed (use eq in \<open>simp add: shift_insert_Nil\<close>)
qed (simp add: insertion_sort_def)

lemma half_open_join:
  fixes s :: "'a :: linorder"
  assumes "s < m" and "m < e"
  shows "s \<le> a \<and> a < e \<longleftrightarrow> (s \<le> a \<and> a < m) \<or> (m \<le> a \<and> a < e)"
  using assms by auto

lemma compact_snoc: "compact (xs @ [x]) = compact_one (compact xs) x"
  by (simp add: compact_def)

lemma compact_one_ordered:
  assumes "ordered ys" and "rm_start x < rm_end x" and "\<forall>r\<in>set ys. rm_end r \<le> rm_start x"
  shows "ordered (compact_one ys x)"
    and "owns (compact_one ys x) a e \<longleftrightarrow> owns ys a e \<or> (covers x a \<and> rm_executable x = e)"
    and "\<forall>r\<in>set (compact_one ys x). rm_end r \<le> rm_end x"
proof -
  have small: "\<forall>r\<in>set ys. rm_end r \<le> rm_end x" using assms(2,3) by (auto intro: order_trans less_imp_le)
  have all: "ordered (compact_one ys x) \<and>
    (owns (compact_one ys x) a e \<longleftrightarrow> owns ys a e \<or> (covers x a \<and> rm_executable x = e)) \<and>
    (\<forall>r\<in>set (compact_one ys x). rm_end r \<le> rm_end x)"
  proof (cases ys rule: rev_cases)
    case Nil
    then show ?thesis using assms by (auto simp: compact_one_def registry_simps)
  next
    case (snoc zs z)
    have z: "rm_start z < rm_end z" "rm_end z \<le> rm_start x" using snoc assms by (auto simp: registry_simps)
    show ?thesis
    proof (cases "joins z x")
      case True
      let ?z = "z\<lparr>rm_end := rm_end x\<rparr>"
      have one: "compact_one ys x = zs @ [?z]" using snoc True by (simp add: compact_one_def)
      have kind: "rm_executable z = rm_executable x" "rm_end z = rm_start x" using True by (simp_all add: joins_def)
      have cov: "covers ?z a \<longleftrightarrow> covers z a \<or> covers x a"
        using half_open_join [of "rm_start z" "rm_end z" "rm_end x" a] z(1) assms(2) kind(2)
        by (simp add: covers_def)
      have "rm_start z < rm_end x" using z assms(2) by simp
      then have "ordered (zs @ [?z])" using assms(1) snoc by (simp add: registry_simps)
      moreover have "owns (zs @ [?z]) a e \<longleftrightarrow> owns ys a e \<or> (covers x a \<and> rm_executable x = e)"
        using cov kind(1) by (simp add: snoc registry_simps) blast
      moreover have "\<forall>r\<in>set (zs @ [?z]). rm_end r \<le> rm_end x" using small snoc by simp
      ultimately show ?thesis unfolding one by blast
    next
      case False
      then show ?thesis using snoc assms small by (auto simp: compact_one_def registry_simps)
    qed
  qed
  then show "ordered (compact_one ys x)"
    and "owns (compact_one ys x) a e \<longleftrightarrow> owns ys a e \<or> (covers x a \<and> rm_executable x = e)"
    and "\<forall>r\<in>set (compact_one ys x). rm_end r \<le> rm_end x"
    by blast+
qed

lemma compact_one_apart:
  assumes "successively (\<lambda>a b. \<not> joins a b) ys"
  shows "successively (\<lambda>a b. \<not> joins a b) (compact_one ys x)"
proof (cases ys rule: rev_cases)
  case (snoc zs z)
  have "joins w (z\<lparr>rm_end := e\<rparr>) \<longleftrightarrow> joins w z" for w e by (simp add: joins_def)
  then show ?thesis
    using assms snoc by (auto simp: compact_one_def successively_append_iff)
qed (simp add: compact_one_def)

lemma compact_facts:
  assumes "ordered xs"
  shows "ordered (compact xs)" and "owns (compact xs) a e \<longleftrightarrow> owns xs a e"
    and "successively (\<lambda>a b. \<not> joins a b) (compact xs)"
proof -
  have "ordered (compact xs) \<and> (\<forall>a e. owns (compact xs) a e \<longleftrightarrow> owns xs a e) \<and>
    successively (\<lambda>a b. \<not> joins a b) (compact xs) \<and>
    (\<forall>b. (\<forall>r\<in>set xs. rm_end r \<le> b) \<longrightarrow> (\<forall>r\<in>set (compact xs). rm_end r \<le> b))"
    using assms
  proof (induction xs rule: rev_induct)
    case Nil
    then show ?case by (simp add: compact_def registry_simps)
  next
    case (snoc x xs)
    then have new: "rm_start x < rm_end x" "\<forall>r\<in>set xs. rm_end r \<le> rm_start x" and old: "ordered xs"
      by (simp_all add: registry_simps)
    note ih = snoc.IH [OF old]
    from ih new(2) have last: "\<forall>r\<in>set (compact xs). rm_end r \<le> rm_start x" by blast
    note one = compact_one_ordered [OF conjunct1 [OF ih] new(1) last]
    have "\<forall>r\<in>set (compact_one (compact xs) x). rm_end r \<le> b" if "rm_end x \<le> b" for b
      using one(3) that by (meson order_trans)
    moreover have "successively (\<lambda>a b. \<not> joins a b) (compact_one (compact xs) x)"
      using ih by (intro compact_one_apart) blast
    moreover have "owns (compact_one (compact xs) x) a e \<longleftrightarrow> owns (xs @ [x]) a e" for a e
      using one(2) [of a e] ih by (simp add: registry_simps)
    ultimately show ?case unfolding compact_snoc using one(1) by simp
  qed
  then show "ordered (compact xs)" and "owns (compact xs) a e \<longleftrightarrow> owns xs a e"
    and "successively (\<lambda>a b. \<not> joins a b) (compact xs)"
    by blast+
qed

section \<open>The registry implements the address map\<close>

lemma replacement_sorted:
  assumes "ordered ms" and "start < end"
  shows "ordered (insertion_sort (replacement_scratch start end rep ms))"
    and "owns (insertion_sort (replacement_scratch start end rep ms)) x e \<longleftrightarrow>
      (if start \<le> x \<and> x < end then rep = Some e else owns ms x e)"
proof -
  note cut = ordered_cut_all [OF assms] owns_cut_all [OF assms(2), of ms x e]
  have away: "\<forall>p\<in>set (cut_all start end ms). rm_end p \<le> start \<or> end \<le> rm_start p"
    using cut_all_mem [OF _ assms] by metis
  have "ordered (insertion_sort (replacement_scratch start end rep ms)) \<and>
    (owns (insertion_sort (replacement_scratch start end rep ms)) x e \<longleftrightarrow>
      (if start \<le> x \<and> x < end then rep = Some e else owns ms x e))"
  proof (cases rep)
    case None
    then show ?thesis using cut by (auto simp: replacement_scratch_def insertion_sort_ordered)
  next
    case (Some ex)
    let ?r = "\<lparr>rm_start = start, rm_end = end, rm_executable = ex\<rparr>"
    have "insertion_sort (replacement_scratch start end rep ms) = shift_insert (cut_all start end ms) ?r"
      using Some cut(1) by (simp add: replacement_scratch_def insertion_sort_snoc insertion_sort_ordered)
    moreover have "ordered (shift_insert (cut_all start end ms) ?r)"
      "set (shift_insert (cut_all start end ms) ?r) = insert ?r (set (cut_all start end ms))"
      using shift_insert_facts [OF cut(1), of ?r] away assms(2) by simp_all
    ultimately show ?thesis
      using cut(2) Some by (auto simp: owns_def covers_def)
  qed
  then show "ordered (insertion_sort (replacement_scratch start end rep ms))"
    and "owns (insertion_sort (replacement_scratch start end rep ms)) x e \<longleftrightarrow>
      (if start \<le> x \<and> x < end then rep = Some e else owns ms x e)"
    by blast+
qed

lemma runtime_replace_cases:
  assumes "registry_ok ms" and "start < end"
  shows "runtime_replace_locked start end rep ms = FailStale \<or>
    (\<exists>ms'. runtime_replace_locked start end rep ms = Done ms' \<and> registry_ok ms' \<and>
      (\<forall>x. owner ms' x = (if start \<le> x \<and> x < end then rep else owner ms x)))"
proof -
  have ord: "ordered ms" and len: "length ms \<le> MAX_RUNTIME_MAPPINGS"
    using assms(1) by (simp_all add: registry_ok_def)
  let ?scratch = "replacement_scratch start end rep ms"
  let ?ms = "compact (insertion_sort ?scratch)"
  have room: "length ?scratch \<le> MAX_RUNTIME_MAPPINGS + 2"
    using length_cut_all [OF ord assms(2)] len
    by (simp add: replacement_scratch_def split: option.split)
  note sorted = replacement_sorted [OF ord assms(2), of rep]
  note compact = compact_facts [OF sorted(1)]
  have "owner ?ms x = (if start \<le> x \<and> x < end then rep else owner ms x)" for x
    by (rule owner_eqI) (simp add: owner_iff compact(1,2) sorted(2) owner_iff [OF ord])
  then show ?thesis
    using room compact by (auto simp: runtime_replace_locked_def Let_def registry_ok_def)
qed

lemma covered_fold:
  fixes cursor c :: u32
  defines "step \<equiv> \<lambda>covered r. if rm_start r \<le> cursor \<and> rm_end r > covered then rm_end r else covered"
  shows "(foldl step c ms = c \<and> (\<forall>r\<in>set ms. rm_start r \<le> cursor \<longrightarrow> rm_end r \<le> c)) \<or>
    (c < foldl step c ms \<and> (\<exists>r\<in>set ms. rm_start r \<le> cursor \<and> rm_end r = foldl step c ms))"
proof (induction ms arbitrary: c)
  case (Cons r ms)
  show ?case
  proof (cases "rm_start r \<le> cursor \<and> rm_end r > c")
    case True
    then have eq: "foldl step c (r # ms) = foldl step (rm_end r) ms" by (simp add: step_def)
    from Cons [of "rm_end r"] have "rm_end r \<le> foldl step (rm_end r) ms" by auto
    with True have "c < foldl step (rm_end r) ms" by (blast intro: less_le_trans)
    with Cons [of "rm_end r"] True show ?thesis unfolding eq by auto
  next
    case False
    then have "step c r = c" by (auto simp: step_def)
    then have eq: "foldl step c (r # ms) = foldl step c ms" by simp
    from False have "rm_start r \<le> cursor \<longrightarrow> rm_end r \<le> c" by auto
    with Cons [of c] show ?thesis unfolding eq by auto
  qed
qed simp

lemma owned_locked_iff:
  "runtime_range_owned_locked cursor end ms \<longleftrightarrow> (\<forall>x. cursor \<le> x \<and> x < end \<longrightarrow> owner ms x \<noteq> None)"
proof (induction cursor "end" ms rule: runtime_range_owned_locked.induct)
  case (1 cursor "end" ms)
  consider (past) "\<not> cursor < end"
    | (gap) "cursor < end" "covered_end ms cursor = cursor" "\<forall>r\<in>set ms. rm_start r \<le> cursor \<longrightarrow> rm_end r \<le> cursor"
    | (hit) r where "cursor < end" "cursor < covered_end ms cursor" "r \<in> set ms" "rm_start r \<le> cursor"
        "rm_end r = covered_end ms cursor"
    using covered_fold [of cursor cursor ms] unfolding covered_end_def by blast
  then show ?case
  proof cases
    case past
    then show ?thesis by (subst runtime_range_owned_locked.simps) auto
  next
    case gap
    then have "owner ms cursor = None" by (auto simp: owner_None_iff covers_def)
    then show ?thesis using gap by (subst runtime_range_owned_locked.simps) auto
  next
    case hit
    have first: "owner ms x \<noteq> None" if "cursor \<le> x" "x < covered_end ms cursor" for x
    proof -
      have "covers r x" using hit(4,5) that by (simp add: covers_def)
      then show ?thesis using hit(3) by (auto simp: owner_None_iff)
    qed
    have "(\<forall>x. covered_end ms cursor \<le> x \<and> x < end \<longrightarrow> owner ms x \<noteq> None) \<longleftrightarrow>
        (\<forall>x. cursor \<le> x \<and> x < end \<longrightarrow> owner ms x \<noteq> None)" (is "?rest \<longleftrightarrow> ?all")
    proof
      show ?all if ?rest using that first not_le by blast
      show ?rest if ?all using that less_imp_le [OF hit(2)] order_trans by blast
    qed
    moreover have "runtime_range_owned_locked cursor end ms = runtime_range_owned_locked (covered_end ms cursor) end ms"
      using hit(1,2) by (subst runtime_range_owned_locked.simps) auto
    moreover have "covered_end ms cursor \<noteq> cursor" using hit(2) by simp
    ultimately show ?thesis using "1.IH" [OF hit(1)] by simp
  qed
qed

section \<open>Room in the registry\<close>

lemma length_compact_le: "length (compact xs) \<le> length xs"
proof (induction xs rule: rev_induct)
  case (snoc x xs)
  then show ?case by (cases "compact xs") (auto simp: compact_snoc compact_one_def)
qed (simp add: compact_def)

lemma length_insertion_sort: "length (insertion_sort xs) = length xs"
  by (induction xs rule: rev_induct)
    (simp_all add: insertion_sort_def length_shift_insert)

lemma replace_with_room:
  assumes "ordered ms" and "start < end" and "length ms + 2 \<le> MAX_RUNTIME_MAPPINGS"
  shows "is_done (runtime_replace_locked start end rep ms)"
proof -
  let ?scratch = "replacement_scratch start end rep ms"
  have "length ?scratch \<le> length ms + 2"
    using length_cut_all [OF assms(1,2)] by (simp add: replacement_scratch_def split: option.split)
  moreover have "length (compact (insertion_sort ?scratch)) \<le> length ?scratch"
    using length_compact_le [of "insertion_sort ?scratch"] by (simp add: length_insertion_sort)
  ultimately show ?thesis using assms(3) by (simp add: runtime_replace_locked_def Let_def)
qed

lemma compact_id: "successively (\<lambda>a b. \<not> joins a b) xs \<Longrightarrow> compact xs = xs"
proof (induction xs rule: rev_induct)
  case (snoc x xs)
  then have "compact xs = xs" "xs = [] \<or> \<not> joins (last xs) x"
    by (auto simp: successively_append_iff)
  then show ?case by (auto simp: compact_snoc compact_one_def)
qed (simp add: compact_def)

lemma cut_all_same:
  "\<forall>r\<in>set ms. rm_end r \<le> start \<or> end \<le> rm_start r \<Longrightarrow> cut_all start end ms = ms"
  by (induction ms) (auto simp: cut_mapping_def ranges_overlap_def)

text \<open>
  A range in the middle of a mapping cannot be removed from a full registry: the removal
  would need one more entry, and the registry stays as it is.
\<close>

lemma replace_full:
  assumes ok: "registry_ok ms" and full: "length ms = MAX_RUNTIME_MAPPINGS"
    and r: "r \<in> set ms" and inside: "rm_start r < start" "start < end" "end < rm_end r"
  shows "runtime_replace_locked start end None ms = FailStale"
proof -
  have ord: "ordered ms" and far: "successively (\<lambda>a b. \<not> joins a b) ms"
    using ok by (simp_all add: registry_ok_def)
  obtain xs ys where split: "ms = xs @ r # ys" using split_list [OF r] by blast
  have before: "rm_end x \<le> start" if "x \<in> set xs" for x
  proof -
    have "rm_end x \<le> rm_start r" using ord split that by (simp add: registry_simps)
    then show ?thesis using inside(1) by simp
  qed
  have after: "end \<le> rm_start y" if "y \<in> set ys" for y
  proof -
    have "rm_end r \<le> rm_start y" using ord split that by (simp add: registry_simps)
    then show ?thesis using inside(3) by simp
  qed
  let ?l = "r\<lparr>rm_end := start\<rparr>" and ?r = "r\<lparr>rm_start := end\<rparr>"
  have cut: "cut_mapping start end r = [?l, ?r]"
    using inside by (auto simp: cut_mapping_def ranges_overlap_def)
  have all: "replacement_scratch start end None ms = xs @ ?l # ?r # ys"
    using cut_all_same [of xs start "end"] cut_all_same [of ys start "end"] before after cut
    by (simp add: replacement_scratch_def split)
  have sorted: "insertion_sort (xs @ ?l # ?r # ys) = xs @ ?l # ?r # ys"
    using ordered_cut_all [OF ord inside(2)] all
    by (intro insertion_sort_ordered) (simp add: replacement_scratch_def)
  have "successively (\<lambda>a b. \<not> joins a b) (xs @ ?l # ?r # ys)"
    using far inside(2) unfolding split
    by (cases ys) (auto simp: successively_append_iff joins_def)
  then have "compact (xs @ ?l # ?r # ys) = xs @ ?l # ?r # ys" by (rule compact_id)
  moreover have "length (xs @ ?l # ?r # ys) = 2049" using full split by simp
  ultimately show ?thesis unfolding runtime_replace_locked_def Let_def all sorted by simp
qed

section \<open>The contract\<close>

text \<open>
  The contract the rest of the emulator uses: a registry is a map from addresses to their
  kind, an update of a range either leaves it alone or changes exactly that range, and the
  ownership test looks at every address.
\<close>

locale range_registry =
  fixes valid :: "'s \<Rightarrow> bool"
    and look :: "'s \<Rightarrow> u32 \<Rightarrow> bool option"
    and put :: "u32 \<Rightarrow> u32 \<Rightarrow> bool option \<Rightarrow> 's \<Rightarrow> 's outcome"
    and all_owned :: "u32 \<Rightarrow> u32 \<Rightarrow> 's \<Rightarrow> bool"
  assumes put_outcome: "valid s \<Longrightarrow> a < b \<Longrightarrow> put a b v s = FailStale \<or> (\<exists>t. put a b v s = Done t)"
    and put_valid: "valid s \<Longrightarrow> a < b \<Longrightarrow> put a b v s = Done t \<Longrightarrow> valid t"
    and put_look: "valid s \<Longrightarrow> a < b \<Longrightarrow> put a b v s = Done t \<Longrightarrow>
      look t x = (if a \<le> x \<and> x < b then v else look s x)"
    and all_owned_iff: "all_owned a b s \<longleftrightarrow> (\<forall>x. a \<le> x \<and> x < b \<longrightarrow> look s x \<noteq> None)"
begin

definition updated :: "u32 \<Rightarrow> u32 \<Rightarrow> bool option \<Rightarrow> 's \<Rightarrow> 's" where
  "updated a b v s = (case put a b v s of Done t \<Rightarrow> t | _ \<Rightarrow> s)"

lemma updated_valid: "valid s \<Longrightarrow> a < b \<Longrightarrow> valid (updated a b v s)"
  using put_valid [of s a b v] by (auto simp: updated_def split: outcome.split)

lemma updated_look:
  "valid s \<Longrightarrow> a < b \<Longrightarrow>
    look (updated a b v s) x = (if is_done (put a b v s) \<and> a \<le> x \<and> x < b then v else look s x)"
  using put_look [of s a b v] by (auto simp: updated_def split: outcome.split)

lemma put_no_fault: "valid s \<Longrightarrow> a < b \<Longrightarrow> put a b v s \<noteq> Fault"
  using put_outcome [of s a b v] by auto

lemma put_then_owned: "valid s \<Longrightarrow> a < b \<Longrightarrow> put a b (Some v) s = Done t \<Longrightarrow> all_owned a b t"
  by (simp add: all_owned_iff put_look)

lemma put_then_not_owned:
  "valid s \<Longrightarrow> a < b \<Longrightarrow> put a b None s = Done t \<Longrightarrow> c < b \<Longrightarrow> a < d \<Longrightarrow> c < d \<Longrightarrow> \<not> all_owned c d t"
proof -
  assume h: "valid s" "a < b" "put a b None s = Done t" "c < b" "a < d" "c < d"
  have "look t (max a c) = None" using put_look [OF h(1-3)] h(2,4) by simp
  then show ?thesis unfolding all_owned_iff using h(5,6) by (intro notI) (metis max.cobounded2 max_less_iff_conj)
qed

lemma owned_split: "a \<le> b \<Longrightarrow> b \<le> c \<Longrightarrow> all_owned a c s \<longleftrightarrow> all_owned a b s \<and> all_owned b c s"
  unfolding all_owned_iff by (meson less_le_trans not_le order_trans)

end

interpretation rr: range_registry registry_ok owner runtime_replace_locked runtime_range_owned_locked
proof
  show "runtime_replace_locked a b v s = FailStale \<or> (\<exists>t. runtime_replace_locked a b v s = Done t)"
    if "registry_ok s" "a < b" for s a b v
    using runtime_replace_cases [OF that] by blast
  show "registry_ok t" if "registry_ok s" "a < b" "runtime_replace_locked a b v s = Done t" for s a b v t
    using runtime_replace_cases [OF that(1,2), of v] that(3) by auto
  show "owner t x = (if a \<le> x \<and> x < b then v else owner s x)"
    if "registry_ok s" "a < b" "runtime_replace_locked a b v s = Done t" for s a b v t x
    using runtime_replace_cases [OF that(1,2), of v] that(3) by auto
  show "runtime_range_owned_locked a b s \<longleftrightarrow> (\<forall>x. a \<le> x \<and> x < b \<longrightarrow> owner s x \<noteq> None)" for a b s
    by (rule owned_locked_iff)
qed

end
