(* ===== verification/Guest_Memory.thy ===== *)
theory Guest_Memory
  imports Util Elf_Format Runtime_Map
begin

text \<open>
  \<open>src/src/guest_memory.c\<close>: the segments of the loaded images, the ownership of runtime
  mappings (on top of the registry of \<open>Runtime_Map\<close>) and the program break. The file's
  static variables are the fields of a record; \<open>guest_memory_after_fork\<close> only replaces
  the lock, and the operations that hold the lock are single steps here.
\<close>

unbundle bit_operations_syntax

section \<open>State\<close>

abbreviation MAX_LOAD_SEGMENTS :: nat where "MAX_LOAD_SEGMENTS \<equiv> 32"
abbreviation GUEST_MIN_ADDRESS :: u32 where "GUEST_MIN_ADDRESS \<equiv> 0x00010000"
abbreviation GUEST_MAX_ADDRESS :: u32 where "GUEST_MAX_ADDRESS \<equiv> 0x70000000"

record load_segment =
  map_start :: u32
  map_length :: u32
  final_protection :: "prot set"

record guest_memory =
  load_segments :: "load_segment list"
  page_size :: u32
  current_break :: u32
  minimum_break :: u32
  break_mapping_end :: u32
  runtime_mappings :: registry

section \<open>Load segments\<close>

definition validate_load_range :: "u32 \<Rightarrow> u32 \<Rightarrow> guest_memory \<Rightarrow> unit outcome" where
  "validate_load_range start end g =
     (if start < GUEST_MIN_ADDRESS \<or> end \<le> start \<or> end > GUEST_MAX_ADDRESS then Fail ENOEXEC
      else if list_ex (\<lambda>s. ranges_overlap start end (map_start s) (map_start s + map_length s))
        (load_segments g) then Fail ENOEXEC
      else Done ())"

definition protection_from_flags :: "u32 \<Rightarrow> prot set" where
  "protection_from_flags flags =
     (if flags AND PF_R \<noteq> 0 then {PROT_READ} else {}) \<union>
     (if flags AND PF_W \<noteq> 0 then {PROT_WRITE} else {}) \<union>
     (if flags AND PF_X \<noteq> 0 then {PROT_EXEC} else {})"

text \<open>\<open>host_page_size\<close> is a \<open>long\<close>.\<close>

definition guest_memory_initialize :: "int \<Rightarrow> guest_memory \<Rightarrow> unit outcome \<times> guest_memory" where
  "guest_memory_initialize host_page_size g =
     (if host_page_size \<le> 0 \<or> (of_int host_page_size :: u32) AND (of_int host_page_size - 1) \<noteq> 0
      then (Fail EINVAL, g)
      else (Done (), g\<lparr>page_size := of_int host_page_size\<rparr>))"

text \<open>
  The checks of \<open>guest_memory_map_load_segment\<close> before it maps anything. They deliver the
  start of the segment and the page-aligned start and end of its mapping.
\<close>

definition load_segment_range :: "elf32_phdr \<Rightarrow> u32 \<Rightarrow> int \<Rightarrow> guest_memory \<Rightarrow> (u32 \<times> u32 \<times> u32) outcome" where
  "load_segment_range header load_bias file_size g =
     (if p_memsz header < p_filesz header \<or> file_size < 0 \<or>
         (p_filesz header \<noteq> 0 \<and>
           (int (unat (p_offset header)) > file_size \<or>
            int (unat (p_filesz header)) > file_size - int (unat (p_offset header)))) \<or>
         load_bias > UINTPTR_MAX - p_vaddr header
      then Fail ENOEXEC
      else let segment_start = load_bias + p_vaddr header in
        if p_memsz header > UINTPTR_MAX - segment_start then Fail ENOEXEC
        else let segment_end = segment_start + p_memsz header;
                 mapping_start = align_down segment_start (page_size g)
          in if segment_end > UINTPTR_MAX - (page_size g - 1) then Fail ENOEXEC
             else let mapping_end = align_up segment_end (page_size g) in
               case validate_load_range mapping_start mapping_end g of
                 Done _ \<Rightarrow>
                   if length (load_segments g) = MAX_LOAD_SEGMENTS then Fail E2BIG
                   else Done (segment_start, mapping_start, mapping_end)
               | Fail e \<Rightarrow> Fail e | FailStale \<Rightarrow> FailStale | Fault \<Rightarrow> Fault | Hang \<Rightarrow> Hang)"

text \<open>The file's bytes, zeros up to \<open>p_memsz\<close>, and zeros before the segment on its first page.\<close>

definition fill_segment :: "elf32_phdr \<Rightarrow> u32 \<Rightarrow> u32 \<Rightarrow> u8 list \<Rightarrow> mem \<Rightarrow> mem" where
  "fill_segment header segment_start mapping_start bytes m =
     (let m1 = store_bytes m segment_start bytes;
          m2 = (if p_memsz header > p_filesz header
                then memset m1 (segment_start + p_filesz header) 0 (unat (p_memsz header - p_filesz header))
                else m1)
      in if segment_start \<noteq> mapping_start
         then memset m2 mapping_start 0 (unat (segment_start - mapping_start)) else m2)"

text \<open>
  A read that fails half way has written part of the segment, which the following
  \<open>munmap\<close> discards; the model leaves memory to that call.
\<close>

definition guest_memory_map_load_segment ::
  "'h host_mm \<Rightarrow> 'h pread \<Rightarrow> int \<Rightarrow> elf32_phdr \<Rightarrow> u32 \<Rightarrow> int \<Rightarrow> guest_memory \<times> 'h world \<Rightarrow>
    unit outcome \<times> guest_memory \<times> 'h world" where
  "guest_memory_map_load_segment M pread fd header load_bias file_size st =
     (case st of (g, w) \<Rightarrow>
      case load_segment_range header load_bias file_size g of
        Done (segment_start, mapping_start, mapping_end) \<Rightarrow>
          (case h_mmap M mapping_start (mapping_end - mapping_start) {PROT_READ, PROT_WRITE}
                  {MAP_PRIVATE, MAP_ANON} (-1) 0 w of
             (Inl e, w) \<Rightarrow> (Fail e, g, w)
           | (Inr mapping, w) \<Rightarrow>
               if mapping \<noteq> mapping_start
               then (Fail EEXIST, g, snd (h_munmap M mapping (mapping_end - mapping_start) w))
               else
                 case (if p_filesz header \<noteq> 0
                       then read_exact_at pread fd (unat (p_filesz header)) (int (unat (p_offset header))) w
                       else (Done [], w)) of
                   (Done bytes, w) \<Rightarrow>
                     (Done (),
                      g\<lparr>load_segments := load_segments g @
                        [\<lparr>map_start = mapping_start, map_length = mapping_end - mapping_start,
                          final_protection = protection_from_flags (p_flags header)\<rparr>]\<rparr>,
                      w\<lparr>w_mem := fill_segment header segment_start mapping_start bytes (w_mem w)\<rparr>)
                 | (Fail e, w) \<Rightarrow> (Fail e, g, snd (h_munmap M mapping (mapping_end - mapping_start) w))
                 | (_, w) \<Rightarrow> (Hang, g, w))
      | Fail e \<Rightarrow> (Fail e, g, w) | FailStale \<Rightarrow> (FailStale, g, w)
      | Fault \<Rightarrow> (Fault, g, w) | Hang \<Rightarrow> (Hang, g, w))"

primrec finalize_segments :: "'h host_mm \<Rightarrow> load_segment list \<Rightarrow> 'h world \<Rightarrow> unit outcome \<times> 'h world" where
  "finalize_segments M [] w = (Done (), w)"
| "finalize_segments M (s # rest) w =
     (case h_mprotect M (map_start s) (map_length s) (final_protection s) w of
        (Some e, w) \<Rightarrow> (Fail e, w)
      | (None, w) \<Rightarrow>
          if PROT_EXEC \<in> final_protection s then
            (case h_msync M (map_start s) (map_length s) w of
               (Some e, w) \<Rightarrow> (Fail e, w)
             | (None, w) \<Rightarrow> finalize_segments M rest w)
          else finalize_segments M rest w)"

definition guest_memory_finalize :: "'h host_mm \<Rightarrow> guest_memory \<times> 'h world \<Rightarrow> unit outcome \<times> 'h world" where
  "guest_memory_finalize M st = (case st of (g, w) \<Rightarrow> finalize_segments M (load_segments g) w)"

definition guest_memory_is_executable :: "u32 \<Rightarrow> u32 \<Rightarrow> guest_memory \<Rightarrow> bool" where
  "guest_memory_is_executable address len g \<longleftrightarrow>
     \<not> len > UINTPTR_MAX - address \<and>
     (list_ex (\<lambda>s. PROT_EXEC \<in> final_protection s \<and> address \<ge> map_start s \<and>
        address + len \<le> map_start s + map_length s) (load_segments g) \<or>
      list_ex (\<lambda>r. rm_executable r \<and> address \<ge> rm_start r \<and> address + len \<le> rm_end r)
        (runtime_mappings g))"

definition guest_memory_segment_count :: "guest_memory \<Rightarrow> nat" where
  "guest_memory_segment_count g = length (load_segments g)"

text \<open>The segments dropped by \<open>guest_memory_rollback\<close>, last one first.\<close>

primrec unmap_segments :: "'h host_mm \<Rightarrow> load_segment list \<Rightarrow> 'h world \<Rightarrow> 'h world" where
  "unmap_segments M [] w = w"
| "unmap_segments M (s # rest) w =
     unmap_segments M rest (snd (h_munmap M (map_start s) (map_length s) w))"

definition guest_memory_rollback :: "'h host_mm \<Rightarrow> nat \<Rightarrow> guest_memory \<times> 'h world \<Rightarrow> guest_memory \<times> 'h world" where
  "guest_memory_rollback M segment_count st =
     (case st of (g, w) \<Rightarrow>
      (g\<lparr>load_segments := take segment_count (load_segments g)\<rparr>,
       unmap_segments M (rev (drop segment_count (load_segments g))) w))"

section \<open>Runtime mappings\<close>

definition guest_memory_range_owned :: "u32 \<Rightarrow> u32 \<Rightarrow> guest_memory \<Rightarrow> bool" where
  "guest_memory_range_owned address len g \<longleftrightarrow>
     \<not> (len = 0 \<or> len > UINTPTR_MAX - address) \<and>
     (list_ex (\<lambda>s. address \<ge> map_start s \<and> address + len \<le> map_start s + map_length s) (load_segments g) \<or>
      runtime_range_owned_locked address (address + len) (runtime_mappings g))"

definition guest_memory_runtime_owned :: "u32 \<Rightarrow> u32 \<Rightarrow> guest_memory \<Rightarrow> bool" where
  "guest_memory_runtime_owned address len g \<longleftrightarrow>
     \<not> (len = 0 \<or> len > UINTPTR_MAX - address) \<and>
     runtime_range_owned_locked address (address + len) (runtime_mappings g)"

definition guest_memory_runtime_map :: "u32 \<Rightarrow> u32 \<Rightarrow> bool \<Rightarrow> guest_memory \<Rightarrow> unit outcome \<times> guest_memory" where
  "guest_memory_runtime_map address len executable g =
     (if len = 0 \<or> len > UINTPTR_MAX - address then (Fail EINVAL, g)
      else case runtime_replace_locked address (address + len) (Some executable) (runtime_mappings g) of
        Done ms \<Rightarrow> (Done (), g\<lparr>runtime_mappings := ms\<rparr>)
      | Fault \<Rightarrow> (Fault, g)
      | _ \<Rightarrow> (Fail ENOMEM, g))"

text \<open>\<open>guest_memory_runtime_protect\<close> returns 1, here \<open>Done False\<close>, for a range it does not own.\<close>

definition guest_memory_runtime_protect :: "u32 \<Rightarrow> u32 \<Rightarrow> bool \<Rightarrow> guest_memory \<Rightarrow> bool outcome \<times> guest_memory" where
  "guest_memory_runtime_protect address len executable g =
     (if len = 0 \<or> len > UINTPTR_MAX - address then (Fail EINVAL, g)
      else if \<not> runtime_range_owned_locked address (address + len) (runtime_mappings g) then (Done False, g)
      else case runtime_replace_locked address (address + len) (Some executable) (runtime_mappings g) of
        Done ms \<Rightarrow> (Done True, g\<lparr>runtime_mappings := ms\<rparr>)
      | Fault \<Rightarrow> (Fault, g)
      | _ \<Rightarrow> (Fail ENOMEM, g))"

text \<open>The result of the replacement is not looked at.\<close>

definition guest_memory_runtime_unmap :: "u32 \<Rightarrow> u32 \<Rightarrow> guest_memory \<Rightarrow> guest_memory" where
  "guest_memory_runtime_unmap address len g =
     (if len = 0 \<or> len > UINTPTR_MAX - address then g
      else case runtime_replace_locked address (address + len) None (runtime_mappings g) of
        Done ms \<Rightarrow> g\<lparr>runtime_mappings := ms\<rparr>
      | _ \<Rightarrow> g)"

section \<open>The program break\<close>

definition guest_brk_initialize :: "u32 \<Rightarrow> guest_memory \<Rightarrow> unit outcome \<times> guest_memory" where
  "guest_brk_initialize initial_break g =
     (if initial_break < GUEST_MIN_ADDRESS \<or> initial_break \<ge> GUEST_MAX_ADDRESS then (Fail ENOEXEC, g)
      else (Done (), g\<lparr>current_break := initial_break, minimum_break := initial_break,
        break_mapping_end := align_up initial_break (page_size g)\<rparr>))"

definition brk_shrink :: "'h host_mm \<Rightarrow> u32 \<Rightarrow> guest_memory \<times> 'h world \<Rightarrow> u32 \<times> guest_memory \<times> 'h world" where
  "brk_shrink M requested st =
     (case st of (g, w) \<Rightarrow>
      let requested_end = align_up requested (page_size g);
          (g1, w1) = (if requested_end < break_mapping_end g
            then ((guest_memory_runtime_unmap requested_end (break_mapping_end g - requested_end) g)
                    \<lparr>break_mapping_end := requested_end\<rparr>,
                  snd (h_munmap M requested_end (break_mapping_end g - requested_end) w))
            else (g, w))
      in (requested, g1\<lparr>current_break := requested\<rparr>, w1))"

definition brk_grow :: "'h host_mm \<Rightarrow> u32 \<Rightarrow> guest_memory \<times> 'h world \<Rightarrow> u32 \<times> guest_memory \<times> 'h world" where
  "brk_grow M requested st =
     (case st of (g, w) \<Rightarrow>
      let requested_end = align_up requested (page_size g);
          start = break_mapping_end g;
          len = requested_end - start
      in if requested_end > start then
           (case h_mmap M start len {PROT_READ, PROT_WRITE} {MAP_PRIVATE, MAP_ANON} (-1) 0 w of
              (Inl e, w) \<Rightarrow> (current_break g, g, w)
            | (Inr mapping, w) \<Rightarrow>
                if mapping \<noteq> start then (current_break g, g, snd (h_munmap M mapping len w))
                else case guest_memory_runtime_map start len False g of
                  (Done _, g1) \<Rightarrow>
                    (requested, g1\<lparr>break_mapping_end := requested_end, current_break := requested\<rparr>, w)
                | (_, g1) \<Rightarrow> (current_break g1, g1, snd (h_munmap M mapping len w)))
         else (requested, g\<lparr>current_break := requested\<rparr>, w))"

definition guest_brk_set :: "'h host_mm \<Rightarrow> u32 \<Rightarrow> guest_memory \<times> 'h world \<Rightarrow> u32 \<times> guest_memory \<times> 'h world" where
  "guest_brk_set M requested st =
     (case st of (g, w) \<Rightarrow>
      if requested = 0 \<or> requested < minimum_break g then (current_break g, g, w)
      else if requested < current_break g then brk_shrink M requested (g, w)
      else if requested \<ge> GUEST_MAX_ADDRESS \<or> requested > UINTPTR_MAX - (page_size g - 1)
      then (current_break g, g, w)
      else brk_grow M requested (g, w))"

section \<open>Segments stay inside the guest and apart\<close>

definition page_ok :: "guest_memory \<Rightarrow> bool" where
  "page_ok g \<longleftrightarrow> (\<exists>k\<le>30. page_size g = 2 ^ k)"

definition segment_ok :: "guest_memory \<Rightarrow> load_segment \<Rightarrow> bool" where
  "segment_ok g s \<longleftrightarrow> GUEST_MIN_ADDRESS \<le> map_start s \<and> map_length s \<noteq> 0 \<and>
     unat (map_start s) + unat (map_length s) \<le> unat GUEST_MAX_ADDRESS \<and>
     unat (page_size g) dvd unat (map_start s) \<and> unat (page_size g) dvd unat (map_length s)"

definition segments_apart :: "load_segment \<Rightarrow> load_segment \<Rightarrow> bool" where
  "segments_apart a b \<longleftrightarrow>
     unat (map_start a) + unat (map_length a) \<le> unat (map_start b) \<or>
     unat (map_start b) + unat (map_length b) \<le> unat (map_start a)"

definition segments_ok :: "guest_memory \<Rightarrow> bool" where
  "segments_ok g \<longleftrightarrow> (\<forall>s\<in>set (load_segments g). segment_ok g s) \<and>
     sorted_wrt segments_apart (load_segments g) \<and> length (load_segments g) \<le> MAX_LOAD_SEGMENTS"

lemma page_ok_cases:
  assumes "page_ok g"
  obtains k where "k \<le> 30" "k < 32" "page_size g = 2 ^ k" "unat (page_size g) = 2 ^ k"
    "unat (page_size g - 1) = 2 ^ k - 1"
proof -
  from assms obtain k where k: "k \<le> 30" "page_size g = 2 ^ k" by (auto simp: page_ok_def)
  then have u: "unat (page_size g) = 2 ^ k" by (simp add: unat_pow2_u32)
  then have "page_size g \<noteq> 0" by (auto simp: word_unat_eq_iff)
  then have "unat (page_size g - 1) = 2 ^ k - 1" using u by (simp add: unat_minus_one)
  with k u that show thesis by simp
qed

lemma page_sum:
  assumes "page_ok g" and "v \<le> UINTPTR_MAX - (page_size g - 1)"
  shows "unat v + unat (page_size g) \<le> 4294967296"
proof -
  obtain k where k: "unat (page_size g) = 2 ^ k" "unat (page_size g - 1) = 2 ^ k - 1"
    using assms(1) by (rule page_ok_cases)
  have "unat (page_size g - 1) + unat v < 4294967296"
    by (rule range_guard_iff [THEN iffD1, OF assms(2)])
  moreover have "(0 :: nat) < 2 ^ k" by simp
  ultimately show ?thesis using k by linarith
qed

lemma page_align:
  assumes "page_ok g"
  shows "align_down v (page_size g) \<le> v" and "unat (page_size g) dvd unat (align_down v (page_size g))"
    and "unat v < unat (align_down v (page_size g)) + unat (page_size g)"
proof -
  obtain k where k: "k < 32" "page_size g = 2 ^ k" "unat (page_size g) = 2 ^ k"
    using assms by (rule page_ok_cases)
  show "align_down v (page_size g) \<le> v" and "unat (page_size g) dvd unat (align_down v (page_size g))"
    and "unat v < unat (align_down v (page_size g)) + unat (page_size g)"
    using align_down_bounds [OF k(1), of v] unfolding k(3) unfolding k(2) by blast+
qed

lemma page_align_up:
  assumes "page_ok g" and "v \<le> UINTPTR_MAX - (page_size g - 1)"
  shows "v \<le> align_up v (page_size g)" and "unat (page_size g) dvd unat (align_up v (page_size g))"
    and "unat (align_up v (page_size g)) < unat v + unat (page_size g)"
proof -
  obtain k where k: "k < 32" "page_size g = 2 ^ k" "unat (page_size g) = 2 ^ k"
    using assms(1) by (rule page_ok_cases)
  show "v \<le> align_up v (page_size g)" and "unat (page_size g) dvd unat (align_up v (page_size g))"
    and "unat (align_up v (page_size g)) < unat v + unat (page_size g)"
    using align_up_bounds [OF k(1), of v] page_sum [OF assms] unfolding k(3) unfolding k(2) by blast+
qed

lemma validate_load_range_Done:
  "validate_load_range start end g = Done u \<longleftrightarrow>
    GUEST_MIN_ADDRESS \<le> start \<and> start < end \<and> end \<le> GUEST_MAX_ADDRESS \<and>
    (\<forall>s\<in>set (load_segments g). \<not> ranges_overlap start end (map_start s) (map_start s + map_length s))"
  by (auto simp: validate_load_range_def list_ex_iff not_less not_le)

lemma load_segment_range_facts:
  assumes page: "page_ok g" and run: "load_segment_range header bias file_size g = Done (ss, ms, me)"
  shows "ss = bias + p_vaddr header" "unat ss = unat bias + unat (p_vaddr header)"
    "unat ss + unat (p_memsz header) < 4294967296" "p_filesz header \<le> p_memsz header"
    "ms = align_down ss (page_size g)" "ms \<le> ss" "ss + p_memsz header \<le> me" "ms < me"
    "GUEST_MIN_ADDRESS \<le> ms" "me \<le> GUEST_MAX_ADDRESS"
    "unat (page_size g) dvd unat ms" "unat (page_size g) dvd unat me"
    "\<forall>s\<in>set (load_segments g). \<not> ranges_overlap ms me (map_start s) (map_start s + map_length s)"
    "length (load_segments g) \<noteq> MAX_LOAD_SEGMENTS" "0 \<le> file_size"
    "p_filesz header \<noteq> 0 \<Longrightarrow> int (unat (p_offset header)) + int (unat (p_filesz header)) \<le> file_size"
proof -
  let ?se = "bias + p_vaddr header + p_memsz header"
  from run have bias: "bias \<le> UINTPTR_MAX - p_vaddr header"
    and size: "p_memsz header \<le> UINTPTR_MAX - (bias + p_vaddr header)"
    and top: "?se \<le> UINTPTR_MAX - (page_size g - 1)"
    and eqs: "ss = bias + p_vaddr header" "ms = align_down (bias + p_vaddr header) (page_size g)"
      "me = align_up ?se (page_size g)"
    and valid: "validate_load_range ms me g = Done ()"
    and rest: "p_filesz header \<le> p_memsz header" "length (load_segments g) \<noteq> MAX_LOAD_SEGMENTS" "0 \<le> file_size"
      "p_filesz header \<noteq> 0 \<Longrightarrow> int (unat (p_offset header)) + int (unat (p_filesz header)) \<le> file_size"
    by (auto simp: load_segment_range_def Let_def not_less split: if_splits outcome.splits)
  show "ss = bias + p_vaddr header" "ms = align_down ss (page_size g)" by (simp_all add: eqs)
  show "unat ss = unat bias + unat (p_vaddr header)"
    using unat_add_guarded [OF bias] by (simp add: eqs add.commute)
  show "unat ss + unat (p_memsz header) < 4294967296" using size by (simp add: eqs range_guard_iff)
  show "ms \<le> ss" "unat (page_size g) dvd unat ms"
    using page_align [OF page] by (simp_all add: eqs)
  show "ss + p_memsz header \<le> me" "unat (page_size g) dvd unat me"
    using page_align_up [OF page top] by (simp_all add: eqs)
  show "ms < me" "GUEST_MIN_ADDRESS \<le> ms" "me \<le> GUEST_MAX_ADDRESS"
    "\<forall>s\<in>set (load_segments g). \<not> ranges_overlap ms me (map_start s) (map_start s + map_length s)"
    using valid by (simp_all add: validate_load_range_Done)
qed (use run in \<open>auto simp: load_segment_range_def Let_def not_less split: if_splits outcome.splits\<close>)

lemma map_load_segment_cases:
  assumes "guest_memory_map_load_segment M pread fd header bias file_size (g, w) = (r, g', w')"
  obtains (same) "g' = g" "r \<noteq> Done ()"
  | (added) ss ms me where "load_segment_range header bias file_size g = Done (ss, ms, me)" "r = Done ()"
      "g' = g\<lparr>load_segments := load_segments g @ [\<lparr>map_start = ms, map_length = me - ms,
         final_protection = protection_from_flags (p_flags header)\<rparr>]\<rparr>"
  using assms unfolding guest_memory_map_load_segment_def
  by (auto split: outcome.splits sum.splits prod.splits if_splits)

lemma new_segment_ok:
  fixes p :: "prot set"
  assumes page: "page_ok g" and ok: "segments_ok g"
    and range: "load_segment_range header bias file_size g = Done (ss, ms, me)"
  defines "s \<equiv> \<lparr>map_start = ms, map_length = me - ms, final_protection = p\<rparr>"
  shows "segments_ok (g\<lparr>load_segments := load_segments g @ [s]\<rparr>)"
proof -
  note f = load_segment_range_facts [OF page range]
  have lt: "unat ms < unat me" using f(8) by (simp add: word_less_nat_alt)
  have le: "ms \<le> me" using f(8) by (rule less_imp_le)
  have len: "unat (me - ms) = unat me - unat ms" by (rule unat_sub [OF le])
  have "me - ms \<noteq> 0" using len lt by (auto simp: word_unat_eq_iff)
  moreover have "unat me \<le> unat GUEST_MAX_ADDRESS" using f(10) by (simp only: word_le_nat_alt)
  moreover have "unat (page_size g) dvd unat (me - ms)" using f(11,12) by (simp add: len)
  ultimately have new: "segment_ok g s" using f(9,11) lt len by (simp add: segment_ok_def s_def)
  have "segments_apart t s" if t: "t \<in> set (load_segments g)" for t
  proof -
    have tok: "segment_ok g t" using ok t by (simp add: segments_ok_def)
    then have "unat (map_start t + map_length t) = unat (map_start t) + unat (map_length t)"
      using unat_add_lem [of "map_start t" "map_length t"] by (simp add: segment_ok_def)
    moreover have "\<not> ranges_overlap ms me (map_start t) (map_start t + map_length t)" using f(13) t by blast
    ultimately show ?thesis
      using lt len by (auto simp: ranges_overlap_def segments_apart_def s_def word_less_nat_alt not_less)
  qed
  then show ?thesis using ok new f(14) by (auto simp: segments_ok_def sorted_wrt_append segment_ok_def)
qed

text \<open>
  Whatever the ELF headers say and however the host answers,
  \<open>guest_memory_map_load_segment\<close> keeps the segment table sound: at most 32 page-aligned,
  nonempty segments between \<open>GUEST_MIN_ADDRESS\<close> and \<open>GUEST_MAX_ADDRESS\<close> that do not
  overlap. It adds a segment only when it succeeds, and rolling back to the earlier count
  gives the earlier table.
\<close>

theorem load_segment_invariant:
  assumes "page_ok g" and "segments_ok g"
    and "guest_memory_map_load_segment M pread fd header bias file_size (g, w) = (r, g', w')"
  shows "segments_ok g' \<and> page_ok g' \<and> (r \<noteq> Done () \<longrightarrow> g' = g) \<and>
    fst (guest_memory_rollback M (guest_memory_segment_count g) (g', w')) = g"
  using assms(3)
proof (cases rule: map_load_segment_cases)
  case same
  then show ?thesis using assms(1,2) by (simp add: guest_memory_rollback_def guest_memory_segment_count_def)
next
  case (added ss ms me)
  then show ?thesis
    using new_segment_ok [OF assms(1,2) added(1)] assms(1)
    by (simp add: page_ok_def guest_memory_rollback_def guest_memory_segment_count_def)
qed

lemma fill_segment_byte:
  assumes "p_filesz h \<le> p_memsz h" and "unat ss + unat (p_memsz h) < 4294967296" and "ms \<le> ss"
    and "length bytes = unat (p_filesz h)"
  shows "fill_segment h ss ms bytes m x =
    (if ms \<le> x \<and> x < ss then 0
     else if unat ss \<le> unat x \<and> unat x < unat ss + unat (p_filesz h) then bytes ! (unat x - unat ss)
     else if unat ss + unat (p_filesz h) \<le> unat x \<and> unat x < unat ss + unat (p_memsz h) then 0
     else m x)"
proof -
  have u: "unat (ss + p_filesz h) = unat ss + unat (p_filesz h)"
    "unat (p_memsz h - p_filesz h) = unat (p_memsz h) - unat (p_filesz h)"
    "unat (ss - ms) = unat ss - unat ms" "unat (p_filesz h) \<le> unat (p_memsz h)" "unat ms \<le> unat ss"
    using assms unat_add_lem [of ss "p_filesz h"] by (simp_all add: unat_sub word_le_nat_alt)
  have dist: "unat (x - ss) = unat x - unat ss" if "unat ss \<le> unat x"
    using that by (simp add: unat_sub word_le_nat_alt)
  have head: "unat (x - ms) < unat (ss - ms) \<longleftrightarrow> ms \<le> x \<and> x < ss"
    using u unat_diff_less_iff [of ms "unat (ss - ms)" x] unat_u32_less [of ss]
    by (simp add: word_le_nat_alt word_less_nat_alt)
  have body: "unat (x - ss) < unat (p_filesz h) \<longleftrightarrow> unat ss \<le> unat x \<and> unat x < unat ss + unat (p_filesz h)"
    using u assms(2) by (intro unat_diff_less_iff) simp
  have tail: "unat (x - (ss + p_filesz h)) < unat (p_memsz h - p_filesz h) \<longleftrightarrow>
      unat ss + unat (p_filesz h) \<le> unat x \<and> unat x < unat ss + unat (p_memsz h)"
    using u assms(2) unat_diff_less_iff [of "ss + p_filesz h" "unat (p_memsz h - p_filesz h)" x] by simp
  have none: "\<not> p_filesz h < p_memsz h \<Longrightarrow> \<not> unat (x - (ss + p_filesz h)) < unat (p_memsz h - p_filesz h)"
    using assms(1) by simp
  have m2: "(if p_memsz h > p_filesz h
      then memset m1 (ss + p_filesz h) 0 (unat (p_memsz h - p_filesz h)) else m1) x =
      (if unat (x - (ss + p_filesz h)) < unat (p_memsz h - p_filesz h) then 0 else m1 x)" for m1
    using none by (auto simp: memset_def store_bytes_def)
  have m3: "(if ss \<noteq> ms then memset m2 ms 0 (unat (ss - ms)) else m2) x =
      (if unat (x - ms) < unat (ss - ms) then 0 else m2 x)" for m2
    by (auto simp: memset_def store_bytes_def)
  show ?thesis
    unfolding fill_segment_def Let_def m3 m2 head tail
    using dist body assms(4) by (auto simp: store_bytes_def)
qed
text \<open>A host that places every mapping where it is asked to, for the examples.\<close>

definition obliging_mm :: "'h host_mm" where
  "obliging_mm = \<lparr>h_mmap = (\<lambda>addr len pr fl fd off w. (Inr addr, w)), h_munmap = (\<lambda>addr len w. (None, w)),
     h_mprotect = (\<lambda>addr len pr w. (None, w)), h_msync = (\<lambda>addr len w. (None, w))\<rparr>"

definition fresh_memory :: guest_memory where
  "fresh_memory = \<lparr>load_segments = [], page_size = 0x1000, current_break = 0, minimum_break = 0,
     break_mapping_end = 0, runtime_mappings = []\<rparr>"

definition text_phdr :: elf32_phdr where
  "text_phdr = \<lparr>p_type = PT_LOAD, p_offset = 2, p_vaddr = 0x10010, p_paddr = 0, p_filesz = 4,
     p_memsz = 0x1800, p_flags = 5, p_align = 0x1000\<rparr>"

definition bss_phdr :: elf32_phdr where
  "bss_phdr = text_phdr\<lparr>p_filesz := 0, p_flags := 6\<rparr>"

lemma fresh_memory_ok: "page_ok fresh_memory" "segments_ok fresh_memory"
  by (auto simp: fresh_memory_def page_ok_def segments_ok_def intro!: exI [of _ 12])

lemma text_phdr_range:
  "load_segment_range text_phdr 0 6 fresh_memory = Done (0x10010, 0x10000, 0x12000)"
  "load_segment_range bss_phdr 0 6 fresh_memory = Done (0x10010, 0x10000, 0x12000)"
  by (simp_all add: load_segment_range_def text_phdr_def bss_phdr_def fresh_memory_def Let_def
      align_down_def align_up_def validate_load_range_def)

theorem load_segment_invariant_witness:
  "segments_ok (fst (snd (guest_memory_map_load_segment obliging_mm (drip_pread []) 3 bss_phdr 0 6
     (fresh_memory, \<lparr>w_host = False, w_mem = (\<lambda>_. 1)\<rparr>))))"
proof -
  obtain r g' w' where run: "guest_memory_map_load_segment obliging_mm (drip_pread []) 3 bss_phdr 0 6
     (fresh_memory, \<lparr>w_host = False, w_mem = (\<lambda>_. 1)\<rparr>) = (r, g', w')"
    by (cases "guest_memory_map_load_segment obliging_mm (drip_pread []) 3 bss_phdr 0 6
     (fresh_memory, \<lparr>w_host = False, w_mem = (\<lambda>_. 1)\<rparr>)")
  show ?thesis using load_segment_invariant [OF fresh_memory_ok run] by (simp add: run)
qed

text \<open>
  Loading a segment of a regular file on a host that grants the requested
  address succeeds, and the guest then sees the file's bytes at the segment's address,
  zeros from there to \<open>p_memsz\<close>, and zeros before them on the first page. No byte outside
  the new mapping differs from what the host left there.
\<close>

theorem load_segment_contents:
  assumes page: "page_ok g" and regular: "regular_pread pread fd data budget"
    and range: "load_segment_range header bias (int (length data)) g = Done (ss, ms, me)"
    and grant: "h_mmap M ms (me - ms) {PROT_READ, PROT_WRITE} {MAP_PRIVATE, MAP_ANON} (-1) 0 w = (Inr ms, w1)"
    and quiet: "\<forall>n off v. w_mem (snd (pread fd n off v)) = w_mem v"
  shows "\<exists>g' w'. guest_memory_map_load_segment M pread fd header bias (int (length data)) (g, w)
      = (Done (), g', w') \<and>
    load_bytes (w_mem w') ss (unat (p_filesz header)) =
      take (unat (p_filesz header)) (drop (unat (p_offset header)) data) \<and>
    (\<forall>x. unat ss + unat (p_filesz header) \<le> unat x \<and> unat x < unat ss + unat (p_memsz header) \<longrightarrow>
      w_mem w' x = 0) \<and>
    (\<forall>x. ms \<le> x \<and> x < ss \<longrightarrow> w_mem w' x = 0) \<and>
    (\<forall>x. x < ms \<or> me \<le> x \<longrightarrow> w_mem w' x = w_mem w1 x)"
proof -
  note f = load_segment_range_facts [OF page range]
  define n where "n = unat (p_filesz header)"
  define bytes where "bytes = take n (drop (unat (p_offset header)) data)"
  have fit: "unat (p_offset header) + n \<le> length data" if "p_filesz header \<noteq> 0"
    using f(16) [OF that] by (simp only: n_def of_nat_add [symmetric] of_nat_le_iff)
  have len: "length bytes = unat (p_filesz header)"
    using fit by (cases "p_filesz header = 0") (auto simp: bytes_def n_def)
  obtain w2 where read: "(if p_filesz header \<noteq> 0
      then read_exact_at pread fd (unat (p_filesz header)) (int (unat (p_offset header))) w1
      else (Done [], w1)) = (Done bytes, w2)" and mem: "w_mem w2 = w_mem w1"
  proof (cases "p_filesz header = 0")
    case True
    then show thesis using that [of w1] by (simp add: bytes_def n_def)
  next
    case False
    from read_exact_at_delivers [OF regular fit [OF False], of w1] obtain w2 where
      "read_exact_at pread fd (unat (p_filesz header)) (int (unat (p_offset header))) w1 = (Done bytes, w2)"
      by (auto simp: bytes_def n_def)
    moreover from this have "w_mem w2 = w_mem w1" using read_exact_at_mem [of pread fd] quiet by (metis snd_conv)
    ultimately show thesis using that [of w2] False by simp
  qed
  let ?m = "fill_segment header ss ms bytes (w_mem w2)"
  note byte = fill_segment_byte [OF f(4,3,6) len, of "w_mem w2"]
  have le: "unat (p_filesz header) \<le> unat (p_memsz header)" using f(4) by (simp add: word_le_nat_alt)
  have fit2: "unat ss + unat (p_filesz header) < 4294967296" using f(3) le by simp
  have inside: "?m (ss + of_nat i) = bytes ! i" if "i < unat (p_filesz header)" for i
  proof -
    have "unat (ss + of_nat i) = unat ss + i"
      using that fit2 unat_add_lem [of ss "of_nat i"] by (simp add: unat_of_nat)
    then show ?thesis using that by (simp add: byte word_less_nat_alt)
  qed
  have "load_bytes ?m ss (unat (p_filesz header)) = bytes"
    by (rule nth_equalityI) (auto simp: len load_bytes_def inside)
  moreover have "\<forall>x. unat ss + unat (p_filesz header) \<le> unat x \<and> unat x < unat ss + unat (p_memsz header) \<longrightarrow>
      ?m x = 0" by (simp add: byte)
  moreover have "\<forall>x. ms \<le> x \<and> x < ss \<longrightarrow> ?m x = 0" by (simp add: byte)
  moreover have "\<forall>x. x < ms \<or> me \<le> x \<longrightarrow> ?m x = w_mem w1 x"
  proof (intro allI impI)
    fix x assume x: "x < ms \<or> me \<le> x"
    have "unat (ss + p_memsz header) = unat ss + unat (p_memsz header)"
      using f(3) unat_add_lem [of ss "p_memsz header"] by simp
    then have "unat ss + unat (p_memsz header) \<le> unat me" using f(7) by (simp add: word_le_nat_alt)
    then show "?m x = w_mem w1 x"
      using x f(6) le unfolding byte by (auto simp: mem word_le_nat_alt word_less_nat_alt)
  qed
  moreover have "guest_memory_map_load_segment M pread fd header bias (int (length data)) (g, w) =
      (Done (), g\<lparr>load_segments := load_segments g @ [\<lparr>map_start = ms, map_length = me - ms,
         final_protection = protection_from_flags (p_flags header)\<rparr>]\<rparr>, w2\<lparr>w_mem := ?m\<rparr>)"
    using read by (simp add: guest_memory_map_load_segment_def range grant)
  ultimately show ?thesis by (simp add: bytes_def n_def)
qed


theorem load_segment_contents_witness:
  "\<exists>g' w'. guest_memory_map_load_segment obliging_mm (drip_pread [1, 2, 3, 4, 5, 6]) 3 text_phdr 0 6
      (fresh_memory, \<lparr>w_host = True, w_mem = (\<lambda>_. 9)\<rparr>) = (Done (), g', w') \<and>
    load_bytes (w_mem w') 0x10010 4 = [3, 4, 5, 6] \<and> w_mem w' 0x10014 = 0 \<and> w_mem w' 0x12000 = 9"
proof -
  let ?w = "\<lparr>w_host = True, w_mem = (\<lambda>_. 9)\<rparr> :: bool world"
  have quiet: "\<forall>n off v. w_mem (snd (drip_pread [1, 2, 3, 4, 5, 6] 3 n off v)) = w_mem v"
    by (simp add: drip_pread_def)
  have range: "load_segment_range text_phdr 0 (int (length [1, 2, 3, 4, 5, 6 :: u8])) fresh_memory =
      Done (0x10010, 0x10000, 0x12000)"
    using text_phdr_range by simp
  have grant: "h_mmap obliging_mm 0x10000 (0x12000 - 0x10000) {PROT_READ, PROT_WRITE} {MAP_PRIVATE, MAP_ANON}
      (-1) 0 ?w = (Inr 0x10000, ?w)" by (simp add: obliging_mm_def)
  from load_segment_contents [OF fresh_memory_ok(1) drip_pread_regular range grant quiet]
  obtain g' w' where run: "guest_memory_map_load_segment obliging_mm (drip_pread [1, 2, 3, 4, 5, 6]) 3 text_phdr 0
      (int (length [1, 2, 3, 4, 5, 6 :: u8])) (fresh_memory, ?w) = (Done (), g', w')"
    and bytes: "load_bytes (w_mem w') 0x10010 (unat (p_filesz text_phdr)) =
      take (unat (p_filesz text_phdr)) (drop (unat (p_offset text_phdr)) [1, 2, 3, 4, 5, 6])"
    and zero: "\<forall>x. unat (0x10010 :: u32) + unat (p_filesz text_phdr) \<le> unat x \<and>
      unat x < unat (0x10010 :: u32) + unat (p_memsz text_phdr) \<longrightarrow> w_mem w' x = 0"
    and out: "\<forall>x. x < 0x10000 \<or> 0x12000 \<le> x \<longrightarrow> w_mem w' x = w_mem ?w x"
    by blast
  have "w_mem w' 0x10014 = 0" using zero by (simp add: text_phdr_def)
  moreover have "w_mem w' 0x12000 = 9" using out by simp
  moreover have "load_bytes (w_mem w') 0x10010 4 = [3, 4, 5, 6]" using bytes by (simp add: text_phdr_def)
  ultimately show ?thesis using run by auto
qed

section \<open>Ownership of runtime memory\<close>

lemma executable_run:
  assumes ok: "registry_ok ms" and lt: "a < b"
  shows "list_ex (\<lambda>r. rm_executable r \<and> rm_start r \<le> a \<and> b \<le> rm_end r) ms \<longleftrightarrow>
    (\<forall>x. a \<le> x \<and> x < b \<longrightarrow> owner ms x = Some True)"
proof
  have ord: "ordered ms" using ok by (simp add: registry_ok_def)
  assume "list_ex (\<lambda>r. rm_executable r \<and> rm_start r \<le> a \<and> b \<le> rm_end r) ms"
  then obtain r where r: "r \<in> set ms" "rm_executable r" "rm_start r \<le> a" "b \<le> rm_end r"
    by (auto simp: list_ex_iff)
  show "\<forall>x. a \<le> x \<and> x < b \<longrightarrow> owner ms x = Some True"
  proof (intro allI impI)
    fix x assume "a \<le> x \<and> x < b"
    then have "covers r x" using r(3,4) unfolding covers_def by (blast intro: order_trans less_le_trans)
    then show "owner ms x = Some True" using r by (auto simp: owner_iff [OF ord] owns_def)
  qed
next
  have ord: "ordered ms" and far: "successively (\<lambda>a b. \<not> joins a b) ms"
    using ok by (simp_all add: registry_ok_def)
  assume all: "\<forall>x. a \<le> x \<and> x < b \<longrightarrow> owner ms x = Some True"
  then have "owns ms a True" using lt by (simp add: owner_iff [OF ord])
  then obtain r where r: "r \<in> set ms" "covers r a" "rm_executable r" by (auto simp: owns_def)
  have "b \<le> rm_end r"
  proof (rule ccontr)
    assume "\<not> b \<le> rm_end r"
    then have y: "a < rm_end r" "rm_end r < b" using r(2) by (auto simp: covers_def)
    then have "owns ms (rm_end r) True" using all by (simp add: owner_iff [OF ord])
    then obtain q where q: "q \<in> set ms" "covers q (rm_end r)" "rm_executable q" by (auto simp: owns_def)
    obtain xs ys where split: "ms = xs @ r # ys" using split_list [OF r(1)] by blast
    have "q \<noteq> r" using q(2) by (auto simp: covers_def)
    moreover have "q \<notin> set xs"
    proof
      assume "q \<in> set xs"
      then have "rm_end q \<le> rm_start r" using ord split by (simp add: registry_simps)
      moreover have "rm_start r \<le> a" "rm_end r < rm_end q" using r(2) q(2) by (simp_all add: covers_def)
      ultimately show False using y(1) by simp
    qed
    ultimately have "q \<in> set ys" using q(1) split by simp
    then obtain z zs where ys: "ys = z # zs" by (cases ys) auto
    have z: "rm_end r \<le> rm_start z" "rm_start z < rm_end z" using ord split ys by (simp_all add: registry_simps)
    have start: "rm_start q \<le> rm_end r" using q(2) by (simp add: covers_def)
    have "rm_end r \<le> rm_start q" using ord split \<open>q \<in> set ys\<close> by (simp add: registry_simps)
    with start have touch: "rm_start q = rm_end r" by simp
    show False
    proof (cases "q = z")
      case True
      then have "joins r z" using touch r(3) q(3) by (simp add: joins_def)
      then show False using far split ys by (simp add: successively_append_iff)
    next
      case False
      then have "q \<in> set zs" using \<open>q \<in> set ys\<close> ys by simp
      then have "rm_end z \<le> rm_start q" using ord split ys by (simp add: registry_simps)
      then show False using z touch by simp
    qed
  qed
  then show "list_ex (\<lambda>r. rm_executable r \<and> rm_start r \<le> a \<and> b \<le> rm_end r) ms"
    using r by (auto simp: list_ex_iff covers_def)
qed

text \<open>
  In a sound registry, \<open>guest_memory_is_executable\<close> accepts a nonempty
  range that lies in no executable load segment exactly when every byte of it belongs to an
  executable runtime mapping: joining neighbours makes the test on single mappings exact.
\<close>

theorem is_executable_iff:
  assumes "registry_ok (runtime_mappings g)" and "len \<noteq> 0" and "len \<le> UINTPTR_MAX - address"
  shows "guest_memory_is_executable address len g \<longleftrightarrow>
    (\<exists>s\<in>set (load_segments g). PROT_EXEC \<in> final_protection s \<and> map_start s \<le> address \<and>
       address + len \<le> map_start s + map_length s) \<or>
    (\<forall>x. address \<le> x \<and> x < address + len \<longrightarrow> owner (runtime_mappings g) x = Some True)"
  using executable_run [OF assms(1) add_guarded_less [OF assms(3,2)]] assms(3)
  by (auto simp: guest_memory_is_executable_def list_ex_iff not_less)

text \<open>
  The effect of the three operations on the map of owned addresses, through the contract of
  the registry.
\<close>

lemma runtime_map_outcome:
  assumes "registry_ok (runtime_mappings g)"
    and "guest_memory_runtime_map address len ex g = (r, g')"
  shows "registry_ok (runtime_mappings g')" and "r = Done () \<or> (r = Fail EINVAL \<or> r = Fail ENOMEM) \<and> g' = g"
    and "owner (runtime_mappings g') x =
      (if r = Done () \<and> address \<le> x \<and> x < address + len then Some ex else owner (runtime_mappings g) x)"
    and "g' = g\<lparr>runtime_mappings := runtime_mappings g'\<rparr>"
proof -
  have "registry_ok (runtime_mappings g') \<and> (r = Done () \<or> (r = Fail EINVAL \<or> r = Fail ENOMEM) \<and> g' = g) \<and>
    owner (runtime_mappings g') x =
      (if r = Done () \<and> address \<le> x \<and> x < address + len then Some ex else owner (runtime_mappings g) x) \<and>
    g' = g\<lparr>runtime_mappings := runtime_mappings g'\<rparr>"
  proof (cases "len = 0 \<or> len > UINTPTR_MAX - address")
    case True
    then show ?thesis using assms by (auto simp: guest_memory_runtime_map_def)
  next
    case False
    then have lt: "address < address + len" by (intro add_guarded_less) auto
    show ?thesis
      using rr.put_outcome [OF assms(1) lt, of "Some ex"] rr.put_valid [OF assms(1) lt, of "Some ex"]
        rr.put_look [OF assms(1) lt, of "Some ex"] assms False
      by (auto simp: guest_memory_runtime_map_def)
  qed
  then show "registry_ok (runtime_mappings g')" and "r = Done () \<or> (r = Fail EINVAL \<or> r = Fail ENOMEM) \<and> g' = g"
    and "owner (runtime_mappings g') x =
      (if r = Done () \<and> address \<le> x \<and> x < address + len then Some ex else owner (runtime_mappings g) x)"
    and "g' = g\<lparr>runtime_mappings := runtime_mappings g'\<rparr>"
    by blast+
qed

lemma runtime_unmap_outcome:
  assumes "registry_ok (runtime_mappings g)"
  shows "registry_ok (runtime_mappings (guest_memory_runtime_unmap address len g))"
    and "guest_memory_runtime_unmap address len g = g \<or>
      (len \<noteq> 0 \<and> len \<le> UINTPTR_MAX - address \<and>
       (\<forall>x. owner (runtime_mappings (guest_memory_runtime_unmap address len g)) x =
         (if address \<le> x \<and> x < address + len then None else owner (runtime_mappings g) x)))"
    and "guest_memory_runtime_unmap address len g =
      g\<lparr>runtime_mappings := runtime_mappings (guest_memory_runtime_unmap address len g)\<rparr>"
proof -
  let ?g = "guest_memory_runtime_unmap address len g"
  have "registry_ok (runtime_mappings ?g) \<and>
    (?g = g \<or> (len \<noteq> 0 \<and> len \<le> UINTPTR_MAX - address \<and>
       (\<forall>x. owner (runtime_mappings ?g) x =
         (if address \<le> x \<and> x < address + len then None else owner (runtime_mappings g) x)))) \<and>
    ?g = g\<lparr>runtime_mappings := runtime_mappings ?g\<rparr>"
  proof (cases "len = 0 \<or> len > UINTPTR_MAX - address")
    case True
    then show ?thesis using assms by (auto simp: guest_memory_runtime_unmap_def)
  next
    case False
    then have lt: "address < address + len" by (intro add_guarded_less) auto
    show ?thesis
      using rr.put_outcome [OF assms lt, of None] rr.put_valid [OF assms lt, of None]
        rr.put_look [OF assms lt, of None] assms False
      by (auto simp: guest_memory_runtime_unmap_def not_less)
  qed
  then show "registry_ok (runtime_mappings ?g)"
    and "?g = g \<or> (len \<noteq> 0 \<and> len \<le> UINTPTR_MAX - address \<and>
       (\<forall>x. owner (runtime_mappings ?g) x =
         (if address \<le> x \<and> x < address + len then None else owner (runtime_mappings g) x)))"
    and "?g = g\<lparr>runtime_mappings := runtime_mappings ?g\<rparr>"
    by blast+
qed

lemma runtime_protect_outcome:
  assumes "registry_ok (runtime_mappings g)"
    and "guest_memory_runtime_protect address len ex g = (r, g')"
  shows "registry_ok (runtime_mappings g')"
    and "r = Done True \<or> (r = Done False \<or> r = Fail EINVAL \<or> r = Fail ENOMEM) \<and> g' = g"
    and "owner (runtime_mappings g') x =
      (if r = Done True \<and> address \<le> x \<and> x < address + len then Some ex else owner (runtime_mappings g) x)"
    and "r = Done True \<Longrightarrow> guest_memory_runtime_owned address len g"
    and "r = Done False \<Longrightarrow> \<not> guest_memory_runtime_owned address len g"
proof -
  have "registry_ok (runtime_mappings g') \<and>
    (r = Done True \<or> (r = Done False \<or> r = Fail EINVAL \<or> r = Fail ENOMEM) \<and> g' = g) \<and>
    owner (runtime_mappings g') x =
      (if r = Done True \<and> address \<le> x \<and> x < address + len then Some ex else owner (runtime_mappings g) x) \<and>
    (r = Done True \<longrightarrow> guest_memory_runtime_owned address len g) \<and>
    (r = Done False \<longrightarrow> \<not> guest_memory_runtime_owned address len g)"
  proof (cases "len = 0 \<or> len > UINTPTR_MAX - address")
    case True
    then show ?thesis using assms by (auto simp: guest_memory_runtime_protect_def)
  next
    case False
    then have lt: "address < address + len" by (intro add_guarded_less) auto
    show ?thesis
      using rr.put_outcome [OF assms(1) lt, of "Some ex"] rr.put_valid [OF assms(1) lt, of "Some ex"]
        rr.put_look [OF assms(1) lt, of "Some ex"] assms False
      by (auto simp: guest_memory_runtime_protect_def guest_memory_runtime_owned_def split: if_splits)
  qed
  then show "registry_ok (runtime_mappings g')"
    and "r = Done True \<or> (r = Done False \<or> r = Fail EINVAL \<or> r = Fail ENOMEM) \<and> g' = g"
    and "owner (runtime_mappings g') x =
      (if r = Done True \<and> address \<le> x \<and> x < address + len then Some ex else owner (runtime_mappings g) x)"
    and "r = Done True \<Longrightarrow> guest_memory_runtime_owned address len g"
    and "r = Done False \<Longrightarrow> \<not> guest_memory_runtime_owned address len g"
    by blast+
qed
text \<open>
  The specification: the address space as a map, and the three operations on it. An
  operation the arguments do not allow, or a protection change of a range that is not
  owned throughout, does nothing.
\<close>

datatype runtime_op = RMap u32 u32 bool | RProtect u32 u32 bool | RUnmap u32 u32

fun run_op :: "runtime_op \<Rightarrow> guest_memory \<Rightarrow> guest_memory" where
  "run_op (RMap address len ex) g = snd (guest_memory_runtime_map address len ex g)"
| "run_op (RProtect address len ex) g = snd (guest_memory_runtime_protect address len ex g)"
| "run_op (RUnmap address len) g = guest_memory_runtime_unmap address len g"

definition set_range :: "u32 \<Rightarrow> u32 \<Rightarrow> bool option \<Rightarrow> (u32 \<Rightarrow> bool option) \<Rightarrow> u32 \<Rightarrow> bool option" where
  "set_range address len v own =
     (if len = 0 \<or> len > UINTPTR_MAX - address then own
      else (\<lambda>x. if address \<le> x \<and> x < address + len then v else own x))"

fun spec_op :: "runtime_op \<Rightarrow> (u32 \<Rightarrow> bool option) \<Rightarrow> u32 \<Rightarrow> bool option" where
  "spec_op (RMap address len ex) own = set_range address len (Some ex) own"
| "spec_op (RProtect address len ex) own =
     (if \<forall>x. address \<le> x \<and> x < address + len \<longrightarrow> own x \<noteq> None
      then set_range address len (Some ex) own else own)"
| "spec_op (RUnmap address len) own = set_range address len None own"

lemma run_op_spec:
  assumes ok: "registry_ok (runtime_mappings g)"
  shows "registry_ok (runtime_mappings (run_op op g)) \<and>
    (owner (runtime_mappings (run_op op g)) = owner (runtime_mappings g) \<or>
     owner (runtime_mappings (run_op op g)) = spec_op op (owner (runtime_mappings g)))"
proof (cases op)
  case (RMap address len ex)
  obtain r g' where run: "guest_memory_runtime_map address len ex g = (r, g')"
    by (cases "guest_memory_runtime_map address len ex g")
  note o = runtime_map_outcome [OF ok run]
  show ?thesis
  proof (cases "r = Done ()")
    case True
    then have "\<not> (len = 0 \<or> len > UINTPTR_MAX - address)"
      using run by (auto simp: guest_memory_runtime_map_def)
    then have "owner (runtime_mappings g') = set_range address len (Some ex) (owner (runtime_mappings g))"
      using o(3) True by (auto simp: set_range_def fun_eq_iff)
    then show ?thesis using o(1) RMap run by simp
  next
    case False
    then show ?thesis using o(1,2) RMap run by auto
  qed
next
  case (RProtect address len ex)
  obtain r g' where run: "guest_memory_runtime_protect address len ex g = (r, g')"
    by (cases "guest_memory_runtime_protect address len ex g")
  note o = runtime_protect_outcome [OF ok run]
  show ?thesis
  proof (cases "r = Done True")
    case True
    with o(4) have own: "guest_memory_runtime_owned address len g" by blast
    then have "owner (runtime_mappings g') = spec_op op (owner (runtime_mappings g))"
      using o(3) True RProtect
      by (auto simp: set_range_def fun_eq_iff guest_memory_runtime_owned_def owned_locked_iff)
    then show ?thesis using o(1) RProtect run by simp
  next
    case False
    then show ?thesis using o(1,2) RProtect run by auto
  qed
next
  case (RUnmap address len)
  note o = runtime_unmap_outcome [OF ok, of address len]
  show ?thesis
  proof (cases "guest_memory_runtime_unmap address len g = g")
    case True
    then show ?thesis using ok RUnmap by simp
  next
    case False
    then have "owner (runtime_mappings (guest_memory_runtime_unmap address len g)) =
        set_range address len None (owner (runtime_mappings g))"
      using o(2) by (auto simp: set_range_def fun_eq_iff)
    then show ?thesis using o(1) RUnmap by simp
  qed
qed

lemma run_op_room:
  assumes ok: "registry_ok (runtime_mappings g)"
    and room: "length (runtime_mappings g) + 2 \<le> MAX_RUNTIME_MAPPINGS"
  shows "owner (runtime_mappings (run_op op g)) = spec_op op (owner (runtime_mappings g))"
proof -
  have puts: "\<exists>ms. runtime_replace_locked address (address + len) v (runtime_mappings g) = Done ms \<and>
      (\<forall>x. owner ms x = (if address \<le> x \<and> x < address + len then v else owner (runtime_mappings g) x))"
    if "\<not> (len = 0 \<or> len > UINTPTR_MAX - address)" for address len v
  proof -
    have lt: "address < address + len" using that by (intro add_guarded_less) auto
    have "ordered (runtime_mappings g)" using ok by (simp add: registry_ok_def)
    from replace_with_room [OF this lt room, of v] rr.put_look [OF ok lt, of v]
    show ?thesis by (auto simp: is_done_iff)
  qed
  show ?thesis
  proof (cases op)
    case (RMap address len ex)
    then show ?thesis using puts [of len address "Some ex"]
      by (cases "len = 0 \<or> len > UINTPTR_MAX - address")
        (auto simp: guest_memory_runtime_map_def set_range_def fun_eq_iff)
  next
    case (RProtect address len ex)
    then show ?thesis using puts [of len address "Some ex"]
      by (cases "len = 0 \<or> len > UINTPTR_MAX - address")
        (auto simp: guest_memory_runtime_protect_def set_range_def fun_eq_iff owned_locked_iff)
  next
    case (RUnmap address len)
    then show ?thesis using puts [of len address None]
      by (cases "len = 0 \<or> len > UINTPTR_MAX - address")
        (auto simp: guest_memory_runtime_unmap_def set_range_def fun_eq_iff)
  qed
qed
text \<open>
  C10 (refinement). The sorted, joined array of ranges implements the map of owned
  addresses: from a sound registry every operation leads to a sound registry and either
  changes the map as specified or leaves it, and it always changes it while two entries
  are free. \<open>guest_memory_runtime_owned\<close> holds exactly when every byte is owned.
\<close>

theorem runtime_registry_refines:
  assumes "registry_ok (runtime_mappings g)"
  shows "registry_ok (runtime_mappings (run_op op g)) \<and>
    (owner (runtime_mappings (run_op op g)) = owner (runtime_mappings g) \<or>
     owner (runtime_mappings (run_op op g)) = spec_op op (owner (runtime_mappings g))) \<and>
    (length (runtime_mappings g) + 2 \<le> MAX_RUNTIME_MAPPINGS \<longrightarrow>
     owner (runtime_mappings (run_op op g)) = spec_op op (owner (runtime_mappings g))) \<and>
    (guest_memory_runtime_owned address len g \<longleftrightarrow> len \<noteq> 0 \<and> len \<le> UINTPTR_MAX - address \<and>
      (\<forall>x. address \<le> x \<and> x < address + len \<longrightarrow> owner (runtime_mappings g) x \<noteq> None))"
  using run_op_spec [OF assms, of op] run_op_room [OF assms, of op]
  by (auto simp: guest_memory_runtime_owned_def owned_locked_iff not_less)

definition two_mappings :: guest_memory where
  "two_mappings = fresh_memory\<lparr>runtime_mappings :=
     [\<lparr>rm_start = 0x20000, rm_end = 0x24000, rm_executable = False\<rparr>,
      \<lparr>rm_start = 0x24000, rm_end = 0x26000, rm_executable = True\<rparr>]\<rparr>"

lemma two_mappings_ok: "registry_ok (runtime_mappings two_mappings)"
  by (simp add: two_mappings_def registry_ok_def ordered_def joins_def)

theorem runtime_registry_refines_witness:
  "owner (runtime_mappings (run_op (RUnmap 0x23000 0x2000) two_mappings)) 0x24FFF = None \<and>
   owner (runtime_mappings (run_op (RUnmap 0x23000 0x2000) two_mappings)) 0x25000 = Some True"
  using runtime_registry_refines [OF two_mappings_ok, of "RUnmap 0x23000 0x2000"]
  by (auto simp: two_mappings_def set_range_def owner_def covers_def)

theorem is_executable_iff_witness:
  "guest_memory_is_executable 0x24100 0x100 two_mappings \<and> \<not> guest_memory_is_executable 0x23F00 0x200 two_mappings"
proof -
  have "owner (runtime_mappings two_mappings) 0x23F00 \<noteq> Some True"
    by (simp add: two_mappings_def owner_def covers_def)
  then have "\<not> guest_memory_is_executable 0x23F00 0x200 two_mappings"
    using is_executable_iff [OF two_mappings_ok, of "0x200" "0x23F00"]
    by (auto simp: two_mappings_def fresh_memory_def)
  moreover have "guest_memory_is_executable 0x24100 0x100 two_mappings"
    by (simp add: guest_memory_is_executable_def two_mappings_def fresh_memory_def)
  ultimately show ?thesis by blast
qed

text \<open>
  C35 (safety). When the registry is full, unmapping the middle of a mapping leaves the
  registry unchanged: \<open>guest_memory_runtime_unmap\<close> drops the error, so the emulator goes
  on treating the range as owned by the guest although the host has unmapped it.
\<close>

theorem runtime_unmap_full_registry:
  assumes "registry_ok (runtime_mappings g)" and "length (runtime_mappings g) = MAX_RUNTIME_MAPPINGS"
    and "r \<in> set (runtime_mappings g)" and "rm_start r < address" and "len \<noteq> 0"
    and "len \<le> UINTPTR_MAX - address" and "address + len < rm_end r"
  shows "guest_memory_runtime_unmap address len g = g \<and>
    guest_memory_runtime_owned address len (guest_memory_runtime_unmap address len g)"
proof -
  have lt: "address < address + len" using assms(5,6) by (intro add_guarded_less)
  have full: "runtime_replace_locked address (address + len) None (runtime_mappings g) = FailStale"
    by (rule replace_full [OF assms(1-4) lt assms(7)])
  have same: "guest_memory_runtime_unmap address len g = g"
    using assms(5,6) by (simp add: guest_memory_runtime_unmap_def full)
  have "owner (runtime_mappings g) x \<noteq> None" if "address \<le> x \<and> x < address + len" for x
  proof -
    have "rm_start r \<le> x" using that assms(4) by (meson less_imp_le order_trans)
    moreover have "x < rm_end r" using that assms(7) by (meson less_trans)
    ultimately show ?thesis using assms(3) by (auto simp: owner_None_iff covers_def)
  qed
  then show ?thesis
    using same assms(5,6) by (simp add: guest_memory_runtime_owned_def owned_locked_iff not_less)
qed

text \<open>2048 mappings of three pages, one page apart.\<close>

definition full_registry :: registry where
  "full_registry = map (\<lambda>i. \<lparr>rm_start = of_nat (0x10000 + i * 0x4000),
     rm_end = of_nat (0x13000 + i * 0x4000), rm_executable = False\<rparr>) [0..<2048]"

lemma full_registry_ok: "registry_ok full_registry"
proof -
  have u: "unat (of_nat (c + i * 0x4000) :: u32) = c + i * 0x4000" if "i < 2048" "c \<le> 0x13000" for c i
    using that by (subst unat_of_nat) simp
  have lt: "rm_end a < rm_start b" if "i < j" "j < 2048"
    "a = \<lparr>rm_start = of_nat (0x10000 + i * 0x4000), rm_end = of_nat (0x13000 + i * 0x4000), rm_executable = False\<rparr>"
    "b = \<lparr>rm_start = of_nat (0x10000 + j * 0x4000), rm_end = of_nat (0x13000 + j * 0x4000), rm_executable = False\<rparr>"
    for a b i j
    using that u [of i "0x13000"] u [of j "0x10000"] by (simp add: word_less_nat_alt del: of_nat_add)
  have gaps: "sorted_wrt (\<lambda>a b. rm_end a < rm_start b) full_registry"
    unfolding full_registry_def sorted_wrt_map
    by (rule sorted_wrt_mono_rel [OF _ sorted_wrt_upt]) (rule lt, auto)
  have "sorted_wrt (\<lambda>a b. rm_end a \<le> rm_start b) full_registry"
    by (rule sorted_wrt_mono_rel [OF _ gaps]) simp
  moreover have "successively (\<lambda>a b. \<not> joins a b) full_registry"
    by (rule successively_if_sorted_wrt, rule sorted_wrt_mono_rel [OF _ gaps]) (auto simp: joins_def)
  moreover have "\<forall>r\<in>set full_registry. rm_start r < rm_end r"
    using u [of _ "0x13000"] u [of _ "0x10000"]
    by (auto simp: full_registry_def word_less_nat_alt simp del: of_nat_add)
  moreover have "length full_registry \<le> MAX_RUNTIME_MAPPINGS" by (simp add: full_registry_def)
  ultimately show ?thesis by (simp add: registry_ok_def ordered_def)
qed

lemma length_full_registry: "length full_registry = MAX_RUNTIME_MAPPINGS"
  by (simp add: full_registry_def)

theorem runtime_unmap_full_registry_witness:
  "guest_memory_runtime_owned 0x11000 0x1000 (guest_memory_runtime_unmap 0x11000 0x1000
     (fresh_memory\<lparr>runtime_mappings := full_registry\<rparr>))"
proof -
  have "\<lparr>rm_start = 0x10000, rm_end = 0x13000, rm_executable = False\<rparr> \<in> set full_registry"
    by (auto simp: full_registry_def intro!: image_eqI [of _ _ 0])
  then show ?thesis
    using runtime_unmap_full_registry [of "fresh_memory\<lparr>runtime_mappings := full_registry\<rparr>"
        "\<lparr>rm_start = 0x10000, rm_end = 0x13000, rm_executable = False\<rparr>" "0x11000" "0x1000"] full_registry_ok
    by (auto simp: length_full_registry)
qed

section \<open>The program break stays inside its mapping\<close>

text \<open>
  The break lies between its minimum and \<open>GUEST_MAX_ADDRESS\<close>, its mapping ends at the
  break rounded up to a page, and the heap's pages are owned and not executable.
\<close>

definition brk_ok :: "guest_memory \<Rightarrow> bool" where
  "brk_ok g \<longleftrightarrow> page_ok g \<and> registry_ok (runtime_mappings g) \<and>
     minimum_break g \<le> current_break g \<and> current_break g < GUEST_MAX_ADDRESS \<and>
     break_mapping_end g = align_up (current_break g) (page_size g) \<and>
     (\<forall>x. align_up (minimum_break g) (page_size g) \<le> x \<and> x < break_mapping_end g \<longrightarrow>
       owner (runtime_mappings g) x = Some False)"

lemma below_max:
  assumes "page_ok g" and "v < GUEST_MAX_ADDRESS"
  shows "v \<le> UINTPTR_MAX - (page_size g - 1)"
proof -
  obtain k where k: "k \<le> 30" "unat (page_size g - 1) = 2 ^ k - 1" using assms(1) by (rule page_ok_cases)
  have "(2 :: nat) ^ k \<le> 2 ^ 30" using k(1) by (intro power_increasing) auto
  moreover have "unat v < 0x70000000" using assms(2) by (simp add: word_less_nat_alt)
  ultimately have "unat (page_size g - 1) + unat v < 4294967296" unfolding k(2) by simp
  then show ?thesis by (rule range_guard_iff [THEN iffD2])
qed

lemma align_up_mono_page:
  assumes "page_ok g" and "a \<le> b" and "b < GUEST_MAX_ADDRESS"
  shows "align_up a (page_size g) \<le> align_up b (page_size g)"
proof -
  have "a < GUEST_MAX_ADDRESS" using assms(2,3) by (rule le_less_trans)
  note sa = page_sum [OF assms(1) below_max [OF assms(1) this]]
    and sb = page_sum [OF assms(1) below_max [OF assms(1,3)]]
  obtain k where k: "k < 32" "page_size g = 2 ^ k" "unat (page_size g) = 2 ^ k"
    using assms(1) by (rule page_ok_cases)
  have "(unat a + (2 ^ k - 1)) div 2 ^ k * 2 ^ k \<le> (unat b + (2 ^ k - 1)) div 2 ^ k * 2 ^ k"
    using assms(2) by (intro mult_le_mono1 div_le_mono) (simp add: word_le_nat_alt)
  then show ?thesis
    using unat_align_up [OF k(1), of a] unat_align_up [OF k(1), of b] sa sb k
    by (simp add: word_le_nat_alt)
qed

lemma brk_initialize_ok:
  assumes "page_ok g" and "registry_ok (runtime_mappings g)"
    and "guest_brk_initialize initial g = (Done (), g')"
  shows "brk_ok g'"
  using assms by (auto simp: guest_brk_initialize_def brk_ok_def page_ok_def not_le split: if_splits)

lemma brk_shrink_correct:
  assumes ok: "brk_ok g" and lo: "minimum_break g \<le> requested" and hi: "requested < current_break g"
    and run: "brk_shrink M requested (g, w) = (r, g', w')"
  shows "brk_ok g'" and "r = requested" and "current_break g' = requested"
    and "minimum_break g' = minimum_break g" and "load_segments g' = load_segments g"
    and "x < align_up (minimum_break g) (page_size g) \<or> break_mapping_end g \<le> x \<Longrightarrow>
      owner (runtime_mappings g') x = owner (runtime_mappings g) x"
proof -
  let ?e = "align_up requested (page_size g)" and ?m = "align_up (minimum_break g) (page_size g)"
  let ?old = "break_mapping_end g"
  have page: "page_ok g" and reg: "registry_ok (runtime_mappings g)" and top: "current_break g < GUEST_MAX_ADDRESS"
    and old: "?old = align_up (current_break g) (page_size g)"
    using ok by (simp_all add: brk_ok_def)
  have le: "?e \<le> ?old" unfolding old using hi top by (intro align_up_mono_page [OF page]) auto
  have top': "requested < GUEST_MAX_ADDRESS" using hi top by (rule less_trans)
  have me: "?m \<le> ?e" using lo top' by (intro align_up_mono_page [OF page])
  let ?u = "guest_memory_runtime_unmap ?e (?old - ?e) g"
  note un = runtime_unmap_outcome [OF reg, of ?e "?old - ?e"]
  obtain ums where u: "?u = g\<lparr>runtime_mappings := ums\<rparr>" using un(3) by blast
  have owner: "owner (runtime_mappings ?u) x = owner (runtime_mappings g) x" if "x < ?e \<or> ?old \<le> x" for x
    using un(2) that by auto
  define ms where "ms = (if ?e < ?old then ums else runtime_mappings g)"
  have "\<not> ?e < ?old \<Longrightarrow> ?e = ?old" using le by simp
  then have g': "g' = g\<lparr>runtime_mappings := ms, break_mapping_end := ?e, current_break := requested\<rparr>" and r: "r = requested"
    using run by (auto simp: brk_shrink_def Let_def ms_def u split: if_splits)
  have msok: "registry_ok ms" using un(1) reg by (simp add: ms_def u)
  have msown: "owner ms x = owner (runtime_mappings g) x" if "x < ?e \<or> ?old \<le> x" for x
    using owner [OF that] by (simp add: ms_def u)
  have heap: "\<forall>x. ?m \<le> x \<and> x < ?e \<longrightarrow> owner ms x = Some False"
    using ok le msown unfolding brk_ok_def by (metis less_le_trans)
  show "brk_ok g'"
    using ok msok heap lo top' by (simp add: g' brk_ok_def page_ok_def)
  show "r = requested" "current_break g' = requested" "minimum_break g' = minimum_break g"
    "load_segments g' = load_segments g" using r by (simp_all add: g')
  show "owner (runtime_mappings g') x = owner (runtime_mappings g) x" if "x < ?m \<or> ?old \<le> x"
    using that msown [of x] less_le_trans [OF _ me, of x] by (auto simp: g')
qed

lemma brk_grow_correct:
  assumes ok: "brk_ok g" and lo: "current_break g \<le> requested" and hi: "requested < GUEST_MAX_ADDRESS"
    and run: "brk_grow M requested (g, w) = (r, g', w')"
  shows "brk_ok g'" and "r = current_break g'" and "r = requested \<or> g' = g"
    and "minimum_break g' = minimum_break g" and "load_segments g' = load_segments g"
    and "x < break_mapping_end g \<or> break_mapping_end g' \<le> x \<Longrightarrow>
      owner (runtime_mappings g') x = owner (runtime_mappings g) x"
proof -
  let ?e = "align_up requested (page_size g)" and ?m = "align_up (minimum_break g) (page_size g)"
  let ?old = "break_mapping_end g"
  have page: "page_ok g" and reg: "registry_ok (runtime_mappings g)"
    and old: "?old = align_up (current_break g) (page_size g)" and min: "minimum_break g \<le> current_break g"
    using ok by (simp_all add: brk_ok_def)
  have le: "?old \<le> ?e" unfolding old using lo hi by (intro align_up_mono_page [OF page])
  consider (same) "r = current_break g" "g' = g"
    | (inside) "?e = ?old" "r = requested" "g' = g\<lparr>current_break := requested\<rparr>"
    | (mapped) g1 where "?old < ?e" "r = requested" "guest_memory_runtime_map ?old (?e - ?old) False g = (Done (), g1)"
        "g' = g1\<lparr>break_mapping_end := ?e, current_break := requested\<rparr>"
  proof (cases "?old < ?e")
    case False
    then have "?e = ?old" using le by simp
    then show thesis using inside run by (auto simp: brk_grow_def Let_def)
  next
    case True
    obtain answer w1 where mm: "h_mmap M ?old (?e - ?old) {PROT_READ, PROT_WRITE} {MAP_PRIVATE, MAP_ANON} (-1) 0 w
        = (answer, w1)" by fastforce
    obtain r1 g1 where rm: "guest_memory_runtime_map ?old (?e - ?old) False g = (r1, g1)"
      by fastforce
    show thesis
    proof (cases "answer = Inr ?old")
      case False
      then have "r = current_break g \<and> g' = g" using run True
        by (cases answer) (auto simp: brk_grow_def Let_def mm)
      then show thesis using same by blast
    next
      case Inr: True
      show thesis
      proof (cases "r1 = Done ()")
        case True
        then have "r = requested \<and> g' = g1\<lparr>break_mapping_end := ?e, current_break := requested\<rparr>"
          using run Inr rm \<open>?old < ?e\<close> by (auto simp: brk_grow_def Let_def mm)
        then show thesis using mapped [of g1] rm True \<open>?old < ?e\<close> by blast
      next
        case False
        then have "g1 = g" "r1 = Fail EINVAL \<or> r1 = Fail ENOMEM"
          using runtime_map_outcome(2) [OF reg rm] by auto
        then have "r = current_break g \<and> g' = g"
          using run Inr rm \<open>?old < ?e\<close> by (elim disjE) (auto simp: brk_grow_def Let_def mm)
        then show thesis using same by blast
      qed
    qed
  qed
  then have "brk_ok g' \<and> r = current_break g' \<and> (r = requested \<or> g' = g) \<and>
    minimum_break g' = minimum_break g \<and> load_segments g' = load_segments g \<and>
    (x < ?old \<or> break_mapping_end g' \<le> x \<longrightarrow> owner (runtime_mappings g') x = owner (runtime_mappings g) x)"
  proof cases
    case same
    then show ?thesis using ok by simp
  next
    case inside
    have "minimum_break g \<le> requested" using min lo by (rule order_trans)
    then show ?thesis using inside ok hi by (simp add: brk_ok_def page_ok_def)
  next
    case mapped
    note o = runtime_map_outcome [OF reg mapped(3)]
    have sum: "?old + (?e - ?old) = ?e" by simp
    have g1: "g1 = g\<lparr>runtime_mappings := runtime_mappings g1\<rparr>" by (rule o(4))
    have own: "owner (runtime_mappings g1) y = (if ?old \<le> y \<and> y < ?e then Some False else owner (runtime_mappings g) y)" for y
      using o(3) [of y] by (simp add: sum)
    have heap: "\<forall>y. ?m \<le> y \<and> y < ?e \<longrightarrow> owner (runtime_mappings g1) y = Some False"
      using ok own unfolding brk_ok_def by (metis not_le)
    have g'': "g' = g\<lparr>runtime_mappings := runtime_mappings g1, break_mapping_end := ?e, current_break := requested\<rparr>"
      using mapped(4) by (subst (asm) g1) simp
    have "minimum_break g \<le> requested" using min lo by (rule order_trans)
    then show ?thesis
      using ok o(1) heap own [of x] mapped(2) hi by (auto simp: g'' brk_ok_def page_ok_def)
  qed
  then show "brk_ok g'" and "r = current_break g'" and "r = requested \<or> g' = g"
    and "minimum_break g' = minimum_break g" and "load_segments g' = load_segments g"
    and "x < ?old \<or> break_mapping_end g' \<le> x \<Longrightarrow>
      owner (runtime_mappings g') x = owner (runtime_mappings g) x"
    by blast+
qed

text \<open>
  C25 (invariant). \<open>guest_brk_set\<close> keeps the break sound whatever the host answers: it
  returns the break in force, which is the requested one or the old one, it always grants a
  request between the minimum and the current break, and it refuses requests below the
  minimum or at or above \<open>GUEST_MAX_ADDRESS\<close>. The heap's pages stay owned, and the
  ownership of addresses outside the old and the new heap does not change.
\<close>

theorem brk_set_correct:
  assumes "brk_ok g" and "guest_brk_set M requested (g, w) = (r, g', w')"
  shows "brk_ok g' \<and> r = current_break g' \<and> minimum_break g' = minimum_break g \<and>
    (r = requested \<or> r = current_break g) \<and>
    (requested \<noteq> 0 \<and> minimum_break g \<le> requested \<and> requested < current_break g \<longrightarrow> r = requested) \<and>
    (requested < minimum_break g \<or> GUEST_MAX_ADDRESS \<le> requested \<longrightarrow> g' = g) \<and>
    (\<forall>x. x < align_up (minimum_break g) (page_size g) \<or>
       (break_mapping_end g \<le> x \<and> break_mapping_end g' \<le> x) \<longrightarrow>
       owner (runtime_mappings g') x = owner (runtime_mappings g) x)"
proof -
  have page: "page_ok g" and top: "current_break g < GUEST_MAX_ADDRESS" and min: "minimum_break g \<le> current_break g"
    using assms(1) by (simp_all add: brk_ok_def)
  consider (keep) "g' = g" "r = current_break g"
      "\<not> (requested \<noteq> 0 \<and> minimum_break g \<le> requested \<and> requested < current_break g)"
    | (shrink) "minimum_break g \<le> requested" "requested < current_break g" "requested \<noteq> 0"
        "brk_shrink M requested (g, w) = (r, g', w')"
    | (grow) "minimum_break g \<le> requested" "current_break g \<le> requested" "requested < GUEST_MAX_ADDRESS"
        "brk_grow M requested (g, w) = (r, g', w')"
    using assms(2) unfolding guest_brk_set_def by (auto simp: not_less not_le split: if_splits)
  then show ?thesis
  proof cases
    case keep
    then show ?thesis using assms(1) by auto
  next
    case shrink
    have "\<not> GUEST_MAX_ADDRESS \<le> requested" using less_trans [OF shrink(2) top] by simp
    then show ?thesis
      using brk_shrink_correct [OF assms(1) shrink(1,2,4)] shrink(1) by auto
  next
    case grow
    have old: "align_up (minimum_break g) (page_size g) \<le> break_mapping_end g"
      using assms(1) align_up_mono_page [OF page min top] by (simp add: brk_ok_def)
    have "x < break_mapping_end g" if "x < align_up (minimum_break g) (page_size g)" for x
      using that old by (rule less_le_trans)
    then show ?thesis
      using brk_grow_correct [OF assms(1) grow(2-4)] grow(1-3) by (auto simp: not_le)
  qed
qed

theorem brk_set_correct_witness:
  "fst (guest_brk_set obliging_mm 0x21800
     (snd (guest_brk_initialize 0x20010 fresh_memory), \<lparr>w_host = (), w_mem = (\<lambda>_. 0)\<rparr>)) = 0x21800 \<and>
   brk_ok (fst (snd (guest_brk_set obliging_mm 0x21800
     (snd (guest_brk_initialize 0x20010 fresh_memory), \<lparr>w_host = (), w_mem = (\<lambda>_. 0)\<rparr>))))"
proof -
  let ?g = "snd (guest_brk_initialize 0x20010 fresh_memory)"
  let ?run = "guest_brk_set obliging_mm 0x21800 (?g, \<lparr>w_host = (), w_mem = (\<lambda>_. 0)\<rparr>)"
  have init: "guest_brk_initialize 0x20010 fresh_memory = (Done (), ?g)"
    by (simp add: guest_brk_initialize_def)
  have ok: "brk_ok ?g"
    using brk_initialize_ok [OF fresh_memory_ok(1) _ init]
    by (simp add: fresh_memory_def registry_ok_def ordered_def)
  have "fst ?run = 0x21800"
    by (simp add: guest_brk_set_def guest_brk_initialize_def fresh_memory_def brk_grow_def Let_def
        obliging_mm_def align_up_def guest_memory_runtime_map_def runtime_replace_locked_def
        replacement_scratch_def insertion_sort_def shift_insert.simps compact_def compact_one_def)
  moreover obtain r g' w' where "?run = (r, g', w')" by (cases ?run)
  ultimately show ?thesis using brk_set_correct [OF ok, of obliging_mm "0x21800"] by auto
qed

end
