(* ===== verification/Linux_Abi.thy ===== *)
theory Linux_Abi
  imports Prelude
begin

text \<open>
  \<open>src/src/linux_abi.c\<close>: translation of host \<open>errno\<close> values and open flags, and the
  layout of the Linux ARM \<open>stat64\<close> and \<open>rusage\<close> structures in guest memory.
\<close>

unbundle bit_operations_syntax

section \<open>Error numbers\<close>

fun linux_errno_number :: "host_errno \<Rightarrow> int" where
  "linux_errno_number NoError = 0"
| "linux_errno_number EPERM = 1"
| "linux_errno_number ENOENT = 2"
| "linux_errno_number ESRCH = 3"
| "linux_errno_number EINTR = 4"
| "linux_errno_number EIO = 5"
| "linux_errno_number ENXIO = 6"
| "linux_errno_number E2BIG = 7"
| "linux_errno_number ENOEXEC = 8"
| "linux_errno_number EBADF = 9"
| "linux_errno_number ECHILD = 10"
| "linux_errno_number EAGAIN = 11"
| "linux_errno_number ENOMEM = 12"
| "linux_errno_number EACCES = 13"
| "linux_errno_number EFAULT = 14"
| "linux_errno_number EBUSY = 16"
| "linux_errno_number EEXIST = 17"
| "linux_errno_number EXDEV = 18"
| "linux_errno_number ENODEV = 19"
| "linux_errno_number ENOTDIR = 20"
| "linux_errno_number EISDIR = 21"
| "linux_errno_number EINVAL = 22"
| "linux_errno_number ENFILE = 23"
| "linux_errno_number EMFILE = 24"
| "linux_errno_number ENOTTY = 25"
| "linux_errno_number EFBIG = 27"
| "linux_errno_number ENOSPC = 28"
| "linux_errno_number ESPIPE = 29"
| "linux_errno_number EROFS = 30"
| "linux_errno_number EMLINK = 31"
| "linux_errno_number EPIPE = 32"
| "linux_errno_number ERANGE = 34"
| "linux_errno_number ENAMETOOLONG = 36"
| "linux_errno_number ENOSYS = 38"
| "linux_errno_number ENOTEMPTY = 39"
| "linux_errno_number ELOOP = 40"
| "linux_errno_number ENOTSOCK = 88"
| "linux_errno_number EDESTADDRREQ = 89"
| "linux_errno_number EMSGSIZE = 90"
| "linux_errno_number EPROTOTYPE = 91"
| "linux_errno_number ENOPROTOOPT = 92"
| "linux_errno_number EPROTONOSUPPORT = 93"
| "linux_errno_number ESOCKTNOSUPPORT = 94"
| "linux_errno_number EOPNOTSUPP = 95"
| "linux_errno_number EPFNOSUPPORT = 96"
| "linux_errno_number EAFNOSUPPORT = 97"
| "linux_errno_number EADDRINUSE = 98"
| "linux_errno_number EADDRNOTAVAIL = 99"
| "linux_errno_number ENETDOWN = 100"
| "linux_errno_number ENETUNREACH = 101"
| "linux_errno_number ENETRESET = 102"
| "linux_errno_number ECONNABORTED = 103"
| "linux_errno_number ECONNRESET = 104"
| "linux_errno_number ENOBUFS = 105"
| "linux_errno_number EISCONN = 106"
| "linux_errno_number ENOTCONN = 107"
| "linux_errno_number ESHUTDOWN = 108"
| "linux_errno_number ETOOMANYREFS = 109"
| "linux_errno_number ETIMEDOUT = 110"
| "linux_errno_number ECONNREFUSED = 111"
| "linux_errno_number EHOSTDOWN = 112"
| "linux_errno_number EHOSTUNREACH = 113"
| "linux_errno_number EALREADY = 114"
| "linux_errno_number EINPROGRESS = 115"
| "linux_errno_number EOVERFLOW = 5"
| "linux_errno_number (OtherErrno n) = 5"

text \<open>
  The number the guest finds in \<open>r0\<close>. The host's own \<open>errno\<close> numbering is the
  parameter \<open>host_number\<close>.
\<close>

fun sysret_number :: "(host_errno \<Rightarrow> int) \<Rightarrow> sysret \<Rightarrow> int" where
  "sysret_number host_number (Value v) = v"
| "sysret_number host_number (Translated e) = - linux_errno_number e"
| "sysret_number host_number (RawHost e) = - host_number e"
| "sysret_number host_number (LinuxErr n) = - n"

section \<open>Open flags\<close>

text \<open>
  The host's open flags by name; \<open>O_RDONLY\<close> is the absence of \<open>O_WRONLY\<close> and
  \<open>O_RDWR\<close>. The flags in \<open>defined\<close> are those the host's headers define, which is
  what the sources test with \<open>#ifdef\<close>.
\<close>

datatype host_oflag =
    O_WRONLY | O_RDWR | O_CREAT | O_EXCL | O_NOCTTY | O_TRUNC | O_APPEND | O_NONBLOCK
  | O_DSYNC | O_DIRECTORY | O_NOFOLLOW | O_DIRECT | O_CLOEXEC

datatype fd_flag = FD_CLOEXEC

abbreviation LINUX_O_ACCMODE :: u32 where "LINUX_O_ACCMODE \<equiv> 0x00000003"
abbreviation LINUX_O_CREAT :: u32 where "LINUX_O_CREAT \<equiv> 0x00000040"
abbreviation LINUX_O_EXCL :: u32 where "LINUX_O_EXCL \<equiv> 0x00000080"
abbreviation LINUX_O_NOCTTY :: u32 where "LINUX_O_NOCTTY \<equiv> 0x00000100"
abbreviation LINUX_O_TRUNC :: u32 where "LINUX_O_TRUNC \<equiv> 0x00000200"
abbreviation LINUX_O_APPEND :: u32 where "LINUX_O_APPEND \<equiv> 0x00000400"
abbreviation LINUX_O_NONBLOCK :: u32 where "LINUX_O_NONBLOCK \<equiv> 0x00000800"
abbreviation LINUX_O_DSYNC :: u32 where "LINUX_O_DSYNC \<equiv> 0x00001000"
abbreviation LINUX_O_DIRECTORY :: u32 where "LINUX_O_DIRECTORY \<equiv> 0x00004000"
abbreviation LINUX_O_NOFOLLOW :: u32 where "LINUX_O_NOFOLLOW \<equiv> 0x00008000"
abbreviation LINUX_O_DIRECT :: u32 where "LINUX_O_DIRECT \<equiv> 0x00010000"
abbreviation LINUX_O_LARGEFILE :: u32 where "LINUX_O_LARGEFILE \<equiv> 0x00020000"
abbreviation LINUX_O_CLOEXEC :: u32 where "LINUX_O_CLOEXEC \<equiv> 0x00080000"

definition open_known :: u32 where
  "open_known = LINUX_O_ACCMODE OR LINUX_O_CREAT OR LINUX_O_EXCL OR LINUX_O_NOCTTY OR
     LINUX_O_TRUNC OR LINUX_O_APPEND OR LINUX_O_NONBLOCK OR LINUX_O_DSYNC OR
     LINUX_O_DIRECTORY OR LINUX_O_NOFOLLOW OR LINUX_O_DIRECT OR LINUX_O_LARGEFILE OR
     LINUX_O_CLOEXEC"

definition flag_if :: "bool \<Rightarrow> 'a \<Rightarrow> 'a set" where
  "flag_if b f = (if b then {f} else {})"

definition linux_open_flags :: "host_oflag set \<Rightarrow> u32 \<Rightarrow> host_oflag set option" where
  "linux_open_flags defined linux_flags =
     (if linux_flags AND NOT open_known \<noteq> 0 \<or>
         linux_flags AND LINUX_O_ACCMODE = LINUX_O_ACCMODE then None
      else Some (
        (if linux_flags AND LINUX_O_ACCMODE = 0 then {}
         else if linux_flags AND LINUX_O_ACCMODE = 1 then {O_WRONLY}
         else {O_RDWR}) \<union>
        flag_if (linux_flags AND LINUX_O_CREAT \<noteq> 0) O_CREAT \<union>
        flag_if (linux_flags AND LINUX_O_EXCL \<noteq> 0) O_EXCL \<union>
        flag_if (linux_flags AND LINUX_O_NOCTTY \<noteq> 0) O_NOCTTY \<union>
        flag_if (linux_flags AND LINUX_O_TRUNC \<noteq> 0) O_TRUNC \<union>
        flag_if (linux_flags AND LINUX_O_APPEND \<noteq> 0) O_APPEND \<union>
        flag_if (linux_flags AND LINUX_O_NONBLOCK \<noteq> 0) O_NONBLOCK \<union>
        flag_if (O_DSYNC \<in> defined \<and> linux_flags AND LINUX_O_DSYNC \<noteq> 0) O_DSYNC \<union>
        flag_if (O_DIRECTORY \<in> defined \<and> linux_flags AND LINUX_O_DIRECTORY \<noteq> 0) O_DIRECTORY \<union>
        flag_if (O_NOFOLLOW \<in> defined \<and> linux_flags AND LINUX_O_NOFOLLOW \<noteq> 0) O_NOFOLLOW \<union>
        flag_if (O_DIRECT \<in> defined \<and> linux_flags AND LINUX_O_DIRECT \<noteq> 0) O_DIRECT \<union>
        flag_if (O_CLOEXEC \<in> defined \<and> linux_flags AND LINUX_O_CLOEXEC \<noteq> 0) O_CLOEXEC))"

definition linux_status_flags :: "host_oflag set \<Rightarrow> host_oflag set \<Rightarrow> u32" where
  "linux_status_flags defined host_flags =
     (if host_flags \<inter> {O_WRONLY, O_RDWR} = {O_WRONLY} then 1
      else if host_flags \<inter> {O_WRONLY, O_RDWR} = {O_RDWR} then 2 else 0) OR
     (if O_APPEND \<in> host_flags then LINUX_O_APPEND else 0) OR
     (if O_NONBLOCK \<in> host_flags then LINUX_O_NONBLOCK else 0) OR
     (if O_DSYNC \<in> defined \<and> O_DSYNC \<in> host_flags then LINUX_O_DSYNC else 0) OR
     LINUX_O_LARGEFILE"

section \<open>Structures in guest memory\<close>

text \<open>The fields of the host's \<open>struct stat\<close> and \<open>struct rusage\<close> the sources read.\<close>

record host_stat =
  st_dev :: int
  st_ino :: int
  st_mode :: int
  st_nlink :: int
  st_uid :: int
  st_gid :: int
  st_rdev :: int
  st_size :: int
  st_blksize :: int
  st_blocks :: int
  st_atime :: int
  st_mtime :: int
  st_ctime :: int

definition store_u32 :: "mem \<Rightarrow> u32 \<Rightarrow> u32 \<Rightarrow> u32 \<Rightarrow> mem" where
  "store_u32 m buffer offset v = store32 m (buffer + offset) v"

definition store_u64 :: "mem \<Rightarrow> u32 \<Rightarrow> u32 \<Rightarrow> u64 \<Rightarrow> mem" where
  "store_u64 m buffer offset v = store64 m (buffer + offset) v"

definition linux_stat64_store :: "mem \<Rightarrow> u32 \<Rightarrow> host_stat \<Rightarrow> mem" where
  "linux_stat64_store m0 buffer status =
     (let m = memset m0 buffer 0 104;
          m = store_u64 m buffer 0 (of_int (st_dev status));
          m = store_u32 m buffer 12 (of_int (st_ino status));
          m = store_u32 m buffer 16 (of_int (st_mode status));
          m = store_u32 m buffer 20 (of_int (st_nlink status));
          m = store_u32 m buffer 24 (of_int (st_uid status));
          m = store_u32 m buffer 28 (of_int (st_gid status));
          m = store_u64 m buffer 32 (of_int (st_rdev status));
          m = store_u64 m buffer 48 (of_int (st_size status));
          m = store_u32 m buffer 56 (of_int (st_blksize status));
          m = store_u64 m buffer 64 (of_int (st_blocks status));
          m = store_u32 m buffer 72 (of_int (st_atime status));
          m = store_u32 m buffer 80 (of_int (st_mtime status));
          m = store_u32 m buffer 88 (of_int (st_ctime status))
      in store_u64 m buffer 96 (of_int (st_ino status)))"

text \<open>
  \<open>ru_counters\<close> lists the fourteen counters in the order of the array \<open>values\<close> of the
  source, from \<open>ru_maxrss\<close> to \<open>ru_nivcsw\<close>.
\<close>

record host_rusage =
  ru_utime_sec :: int
  ru_utime_usec :: int
  ru_stime_sec :: int
  ru_stime_usec :: int
  ru_counters :: "int list"

fun store_counters :: "mem \<Rightarrow> u32 \<Rightarrow> nat \<Rightarrow> int list \<Rightarrow> mem" where
  "store_counters m buffer i [] = m"
| "store_counters m buffer i (v # vs) =
     store_counters (store_u32 m buffer (16 + of_nat i * 4) (of_int v)) buffer (Suc i) vs"

definition linux_rusage_store :: "mem \<Rightarrow> u32 \<Rightarrow> host_rusage \<Rightarrow> mem" where
  "linux_rusage_store m0 buffer usage =
     (let m = memset m0 buffer 0 72;
          m = store_u32 m buffer 0 (of_int (ru_utime_sec usage));
          m = store_u32 m buffer 4 (of_int (ru_utime_usec usage));
          m = store_u32 m buffer 8 (of_int (ru_stime_sec usage));
          m = store_u32 m buffer 12 (of_int (ru_stime_usec usage))
      in store_counters m buffer 0 (ru_counters usage))"

section \<open>Error numbers: no two host errors are confused\<close>

text \<open>The Linux numbering read backwards; every number the translation never makes gives \<open>NoError\<close>.\<close>

definition known_errnos :: "host_errno list" where
  "known_errnos = [EPERM, ENOENT, ESRCH, EINTR, EIO, ENXIO, E2BIG, ENOEXEC, EBADF, ECHILD,
     EAGAIN, ENOMEM, EACCES, EFAULT, EBUSY, EEXIST, EXDEV, ENODEV, ENOTDIR, EISDIR, EINVAL,
     ENFILE, EMFILE, ENOTTY, EFBIG, ENOSPC, ESPIPE, EROFS, EMLINK, EPIPE, ERANGE,
     ENAMETOOLONG, ENOSYS, ENOTEMPTY, ELOOP, ENOTSOCK, EDESTADDRREQ, EMSGSIZE, EPROTOTYPE,
     ENOPROTOOPT, EPROTONOSUPPORT, ESOCKTNOSUPPORT, EOPNOTSUPP, EPFNOSUPPORT, EAFNOSUPPORT,
     EADDRINUSE, EADDRNOTAVAIL, ENETDOWN, ENETUNREACH, ENETRESET, ECONNABORTED, ECONNRESET,
     ENOBUFS, EISCONN, ENOTCONN, ESHUTDOWN, ETOOMANYREFS, ETIMEDOUT, ECONNREFUSED,
     EHOSTDOWN, EHOSTUNREACH, EALREADY, EINPROGRESS]"

definition errno_of_linux :: "int \<Rightarrow> host_errno" where
  "errno_of_linux n =
     (case find (\<lambda>e. linux_errno_number e = n) known_errnos of Some e \<Rightarrow> e | None \<Rightarrow> NoError)"

lemma known_errnos_roundtrip:
  "e \<in> set known_errnos \<Longrightarrow> errno_of_linux (linux_errno_number e) = e"
  by (cases e) (simp_all add: errno_of_linux_def known_errnos_def)

lemma errno_known_or_EIO:
  "e = NoError \<or> e \<in> set known_errnos \<or> linux_errno_number e = 5"
  by (cases e) (simp_all add: known_errnos_def)

lemma linux_errno_bounds: "0 \<le> linux_errno_number e \<and> linux_errno_number e \<le> 115"
  by (cases e) simp_all

lemma linux_errno_zero_iff: "linux_errno_number e = 0 \<longleftrightarrow> e = NoError"
  by (cases e) simp_all

text \<open>
  The translation of error numbers loses nothing but the codes Linux has no
  name for: the number handed to the guest lies in 1..115 for every actual error, and it
  determines the host error again unless it is 5 (\<open>EIO\<close>), the number of last resort.
\<close>

theorem linux_errno_injective:
  assumes "e \<noteq> NoError"
  shows "1 \<le> linux_errno_number e \<and> linux_errno_number e \<le> 115 \<and>
    (linux_errno_number e = 5 \<or> errno_of_linux (linux_errno_number e) = e)"
  using assms linux_errno_bounds [of e] linux_errno_zero_iff [of e] errno_known_or_EIO [of e]
    known_errnos_roundtrip [of e] by linarith

theorem linux_errno_injective_witness:
  "ECONNREFUSED \<noteq> NoError \<and> errno_of_linux (linux_errno_number ECONNREFUSED) = ECONNREFUSED"
  using linux_errno_injective [of ECONNREFUSED] by simp

section \<open>Open flags\<close>

lemma mem_flag_if [simp]: "x \<in> flag_if b f \<longleftrightarrow> b \<and> x = f"
  by (simp add: flag_if_def)

lemma accmode_cases:
  "(f :: u32) AND 3 = 0 \<or> f AND 3 = 1 \<or> f AND 3 = 2 \<or> f AND 3 = 3"
proof -
  have "unat (f AND 3) \<le> unat (3 :: u32)"
    by (rule word_and_le1 [THEN word_le_nat_alt [THEN iffD1]])
  then have "unat (f AND 3) \<in> {0, 1, 2, 3}" by auto
  then show ?thesis by (auto simp: word_unat_eq_iff)
qed

lemma and_two_power: "(f :: u32) AND 2 ^ n = (if bit f n then 2 ^ n else 0)"
  by (rule bit_word_eqI) (auto simp: bit_simps)

lemma open_flags_None: "linux_open_flags defined f = None \<longleftrightarrow>
   f AND NOT open_known \<noteq> 0 \<or> f AND LINUX_O_ACCMODE = LINUX_O_ACCMODE"
  by (simp add: linux_open_flags_def)

lemma open_flags_mem:
  assumes "linux_open_flags defined f = Some h"
  shows "O_WRONLY \<in> h \<longleftrightarrow> f AND LINUX_O_ACCMODE = 1"
    and "O_RDWR \<in> h \<longleftrightarrow> f AND LINUX_O_ACCMODE \<noteq> 0 \<and> f AND LINUX_O_ACCMODE \<noteq> 1"
    and "O_APPEND \<in> h \<longleftrightarrow> f AND LINUX_O_APPEND \<noteq> 0"
    and "O_NONBLOCK \<in> h \<longleftrightarrow> f AND LINUX_O_NONBLOCK \<noteq> 0"
    and "O_DSYNC \<in> h \<longleftrightarrow> O_DSYNC \<in> defined \<and> f AND LINUX_O_DSYNC \<noteq> 0"
proof -
  from assms have h: "h = the (linux_open_flags defined f)" by simp
  have ok: "\<not> (f AND NOT open_known \<noteq> 0 \<or> f AND LINUX_O_ACCMODE = LINUX_O_ACCMODE)"
    using assms open_flags_None [of defined f] by simp
  show "O_WRONLY \<in> h \<longleftrightarrow> f AND LINUX_O_ACCMODE = 1"
    "O_RDWR \<in> h \<longleftrightarrow> f AND LINUX_O_ACCMODE \<noteq> 0 \<and> f AND LINUX_O_ACCMODE \<noteq> 1"
    "O_APPEND \<in> h \<longleftrightarrow> f AND LINUX_O_APPEND \<noteq> 0"
    "O_NONBLOCK \<in> h \<longleftrightarrow> f AND LINUX_O_NONBLOCK \<noteq> 0"
    "O_DSYNC \<in> h \<longleftrightarrow> O_DSYNC \<in> defined \<and> f AND LINUX_O_DSYNC \<noteq> 0"
    unfolding h linux_open_flags_def if_not_P [OF ok] option.sel by simp_all
qed

text \<open>
  An open request that is accepted is reported back by \<open>F_GETFL\<close> as it was
  made: the access mode, \<open>O_APPEND\<close>, \<open>O_NONBLOCK\<close> and, where the host has it, \<open>O_DSYNC\<close>
  survive the translation to host flags and back; a request with an unknown bit or with
  access mode 3 is refused.
\<close>

theorem open_status_roundtrip:
  "(linux_open_flags defined f = None \<longleftrightarrow>
     f AND NOT open_known \<noteq> 0 \<or> f AND LINUX_O_ACCMODE = LINUX_O_ACCMODE) \<and>
   (\<forall>h. linux_open_flags defined f = Some h \<longrightarrow>
     linux_status_flags defined h =
       (f AND LINUX_O_ACCMODE) OR (f AND LINUX_O_APPEND) OR (f AND LINUX_O_NONBLOCK) OR
       (if O_DSYNC \<in> defined then f AND LINUX_O_DSYNC else 0) OR LINUX_O_LARGEFILE)"
proof (intro conjI allI impI)
  show "linux_open_flags defined f = None \<longleftrightarrow>
     f AND NOT open_known \<noteq> 0 \<or> f AND LINUX_O_ACCMODE = LINUX_O_ACCMODE"
    by (rule open_flags_None)
next
  fix h assume h: "linux_open_flags defined f = Some h"
  note mem = open_flags_mem [OF h]
  have ok: "f AND LINUX_O_ACCMODE \<noteq> LINUX_O_ACCMODE"
    using h open_flags_None [of defined f] by simp
  have sets: "h \<inter> {O_WRONLY, O_RDWR} = {O_WRONLY} \<longleftrightarrow> O_WRONLY \<in> h \<and> O_RDWR \<notin> h"
    "h \<inter> {O_WRONLY, O_RDWR} = {O_RDWR} \<longleftrightarrow> O_RDWR \<in> h \<and> O_WRONLY \<notin> h" by auto
  have acc: "(if h \<inter> {O_WRONLY, O_RDWR} = {O_WRONLY} then 1
      else if h \<inter> {O_WRONLY, O_RDWR} = {O_RDWR} then 2 else 0) = f AND LINUX_O_ACCMODE"
    unfolding sets mem using accmode_cases [of f] ok by (elim disjE) simp_all
  have app: "(if O_APPEND \<in> h then LINUX_O_APPEND else 0) = f AND LINUX_O_APPEND"
    using and_two_power [of f 10] by (simp add: mem)
  have nb: "(if O_NONBLOCK \<in> h then LINUX_O_NONBLOCK else 0) = f AND LINUX_O_NONBLOCK"
    using and_two_power [of f 11] by (simp add: mem)
  have ds: "(if O_DSYNC \<in> defined \<and> O_DSYNC \<in> h then LINUX_O_DSYNC else 0) =
      (if O_DSYNC \<in> defined then f AND LINUX_O_DSYNC else 0)"
    using and_two_power [of f 12] by (simp add: mem)
  show "linux_status_flags defined h =
       (f AND LINUX_O_ACCMODE) OR (f AND LINUX_O_APPEND) OR (f AND LINUX_O_NONBLOCK) OR
       (if O_DSYNC \<in> defined then f AND LINUX_O_DSYNC else 0) OR LINUX_O_LARGEFILE"
    unfolding linux_status_flags_def acc app nb ds by (rule refl)
qed

theorem open_status_roundtrip_witness:
  "linux_open_flags {O_DSYNC} 0x1442 = Some {O_RDWR, O_CREAT, O_APPEND, O_DSYNC} \<and>
   linux_status_flags {O_DSYNC} {O_RDWR, O_CREAT, O_APPEND, O_DSYNC} = 0x21402"
proof -
  have "linux_open_flags {O_DSYNC} 0x1442 = Some {O_RDWR, O_CREAT, O_APPEND, O_DSYNC}"
    by (simp add: linux_open_flags_def open_known_def flag_if_def insert_commute)
  moreover from open_status_roundtrip [of "{O_DSYNC}" "0x1442"] this
  have "linux_status_flags {O_DSYNC} {O_RDWR, O_CREAT, O_APPEND, O_DSYNC} = 0x21402"
    by simp
  ultimately show ?thesis by simp
qed

section \<open>Structure layouts\<close>

lemmas stat_store_simps = linux_stat64_store_def Let_def store_u32_def store_u64_def

text \<open>
  \<open>linux_stat64_store\<close> lays the host's \<open>struct stat\<close> out as the Linux
  ARM \<open>struct stat64\<close>: every field is found at its offset, truncated to its width, the
  inode both in its 32-bit and in its 64-bit place, and no byte outside the 104 bytes of
  the buffer changes.
\<close>

theorem stat64_layout:
  "load64 (linux_stat64_store m b s) b = of_int (st_dev s) \<and>
   load32 (linux_stat64_store m b s) (b + 12) = of_int (st_ino s) \<and>
   load32 (linux_stat64_store m b s) (b + 16) = of_int (st_mode s) \<and>
   load32 (linux_stat64_store m b s) (b + 20) = of_int (st_nlink s) \<and>
   load32 (linux_stat64_store m b s) (b + 24) = of_int (st_uid s) \<and>
   load32 (linux_stat64_store m b s) (b + 28) = of_int (st_gid s) \<and>
   load64 (linux_stat64_store m b s) (b + 32) = of_int (st_rdev s) \<and>
   load64 (linux_stat64_store m b s) (b + 48) = of_int (st_size s) \<and>
   load32 (linux_stat64_store m b s) (b + 56) = of_int (st_blksize s) \<and>
   load64 (linux_stat64_store m b s) (b + 64) = of_int (st_blocks s) \<and>
   load32 (linux_stat64_store m b s) (b + 72) = of_int (st_atime s) \<and>
   load32 (linux_stat64_store m b s) (b + 80) = of_int (st_mtime s) \<and>
   load32 (linux_stat64_store m b s) (b + 88) = of_int (st_ctime s) \<and>
   load64 (linux_stat64_store m b s) (b + 96) = of_int (st_ino s) \<and>
   (\<forall>x. 104 \<le> unat (x - b) \<longrightarrow> linux_stat64_store m b s x = m x)"
proof (intro conjI allI impI)
  fix x assume "104 \<le> unat (x - b)"
  then have "n \<le> unat (x - (b + c))" if "unat c + n \<le> 104" for c n
    using that by (intro outside_field) simp
  then show "linux_stat64_store m b s x = m x"
    using \<open>104 \<le> unat (x - b)\<close>
    by (simp add: stat_store_simps store32_outside store64_outside memset_outside)
qed (simp_all add: stat_store_simps mem_simps apart_def)

definition sample_stat :: host_stat where
  "sample_stat = \<lparr>st_dev = 1, st_ino = 0x100000002, st_mode = 33188, st_nlink = 1, st_uid = 0, st_gid = 0,
     st_rdev = 0, st_size = 5, st_blksize = 4096, st_blocks = 8, st_atime = 10, st_mtime = 11, st_ctime = 12\<rparr>"

theorem stat64_layout_witness:
  "load32 (linux_stat64_store (\<lambda>_. 7) 0x1000 sample_stat) 0x100C = 2 \<and>
   load64 (linux_stat64_store (\<lambda>_. 7) 0x1000 sample_stat) 0x1060 = 0x100000002 \<and>
   linux_stat64_store (\<lambda>_. 7) 0x1000 sample_stat 0x1068 = 7"
  using stat64_layout [of "\<lambda>_. 7" "0x1000" sample_stat] by (simp add: sample_stat_def)

end
