(* ===== verification/Guest_Thread.thy ===== *)
theory Guest_Thread
  imports Linux_Abi
begin

text \<open>
  \<open>src/src/guest_thread.c\<close>, the part that works on the state of the calling thread: pending
  signals, signal masks, the wake-up pipe of a signal wait, the futex wait flags and the
  alternate stack. \<open>current_thread ()\<close> is an argument: \<open>None\<close> is the null pointer. A
  thread's own signal handlers interrupt it between instructions; the source orders its
  stores so that each operation here behaves as one step. The registry of threads, cloning and
  the end of a thread are in \<open>Thread_Registry\<close>.
\<close>

unbundle bit_operations_syntax

section \<open>State\<close>

record siginfo =
  si_errno :: host_errno
  si_code :: int
  si_addr :: u32
  si_pid :: int
  si_uid :: u32

definition zero_siginfo :: siginfo where
  "zero_siginfo = \<lparr>si_errno = NoError, si_code = 0, si_addr = 0, si_pid = 0, si_uid = 0\<rparr>"

text \<open>A guest signal set: two words, bit \<open>(n - 1) mod 32\<close> of word \<open>(n - 1) div 32\<close> for signal \<open>n\<close>.\<close>

type_synonym sigwords = "u32 \<times> u32"

definition sig_word :: "sigwords \<Rightarrow> int \<Rightarrow> u32" where
  "sig_word ws n = (if (n - 1) div 32 = 0 then fst ws else snd ws)"

definition sig_bit :: "int \<Rightarrow> u32" where
  "sig_bit n = push_bit (nat ((n - 1) mod 32)) 1"

definition sig_member :: "sigwords \<Rightarrow> int \<Rightarrow> bool" where
  "sig_member ws n \<longleftrightarrow> sig_word ws n AND sig_bit n \<noteq> 0"

definition sig_add :: "int \<Rightarrow> sigwords \<Rightarrow> sigwords" where
  "sig_add n ws = (if (n - 1) div 32 = 0 then (fst ws OR sig_bit n, snd ws) else (fst ws, snd ws OR sig_bit n))"

text \<open>
  The thread's structure. Arrays are functions of the index. The queue counters are
  \<open>sig_atomic_t\<close> in the source and only grow; a thread that received \<open>2 ^ 31\<close> real-time
  signals of one number is outside the model. A semaphore is named by a number.
\<close>

record guest_thread_state =
  registers :: "nat \<Rightarrow> u32"
  guest_tls :: u32
  clear_child_tid :: u32
  child_tid :: u32
  tid :: u32
  start :: bool
  host_thread :: nat
  pending_signals :: sigwords
  pending_information :: "int \<Rightarrow> siginfo"
  realtime_head :: "int \<Rightarrow> nat"
  realtime_tail :: "int \<Rightarrow> nat"
  realtime_information :: "int \<Rightarrow> nat \<Rightarrow> siginfo"
  signal_mask :: sigwords
  suspend_restore_mask :: sigwords
  suspend_restore_valid :: bool
  futex_semaphore :: "nat option"
  futex_interrupted :: bool
  signal_wait_write_fd :: int
  signal_wait_read_fd :: int
  syscall_active :: bool
  altstack_pointer :: u32
  altstack_size :: u32
  deferred_unmap_start :: u32
  deferred_unmap_length :: u32

text \<open>\<open>calloc\<close> or \<open>memset\<close>, and both descriptors set to -1.\<close>

definition blank_thread :: guest_thread_state where
  "blank_thread = \<lparr>registers = (\<lambda>_. 0), guest_tls = 0, clear_child_tid = 0, child_tid = 0, tid = 0, start = False,
     host_thread = 0, pending_signals = (0, 0), pending_information = (\<lambda>_. zero_siginfo),
     realtime_head = (\<lambda>_. 0), realtime_tail = (\<lambda>_. 0), realtime_information = (\<lambda>_ _. zero_siginfo),
     signal_mask = (0, 0), suspend_restore_mask = (0, 0), suspend_restore_valid = False,
     futex_semaphore = None, futex_interrupted = False, signal_wait_write_fd = -1, signal_wait_read_fd = -1,
     syscall_active = False, altstack_pointer = 0, altstack_size = 0, deferred_unmap_start = 0,
     deferred_unmap_length = 0\<rparr>"

text \<open>What an operation asks of the host on the side.\<close>

datatype thread_effect = SemPost nat | PipeWrite int | CloseFd int

abbreviation (input) LINUX_FIRST_REALTIME_SIGNAL :: int where "LINUX_FIRST_REALTIME_SIGNAL \<equiv> 32"
abbreviation (input) LINUX_LAST_REALTIME_SIGNAL :: int where "LINUX_LAST_REALTIME_SIGNAL \<equiv> 47"
abbreviation (input) REALTIME_QUEUE_LENGTH :: nat where "REALTIME_QUEUE_LENGTH \<equiv> 64"

section \<open>Pending signals\<close>

definition realtime_push :: "int \<Rightarrow> siginfo option \<Rightarrow> guest_thread_state \<Rightarrow> guest_thread_state" where
  "realtime_push index information s =
     (let tail = realtime_tail s index in
      if tail - realtime_head s index < REALTIME_QUEUE_LENGTH then
        s\<lparr>realtime_information := (realtime_information s)(index :=
            (realtime_information s index)(tail mod REALTIME_QUEUE_LENGTH :=
              (case information of Some i \<Rightarrow> i | None \<Rightarrow> zero_siginfo))),
          realtime_tail := (realtime_tail s)(index := tail + 1)\<rparr>
      else s)"

definition standard_push :: "int \<Rightarrow> siginfo option \<Rightarrow> guest_thread_state \<Rightarrow> guest_thread_state" where
  "standard_push n information s =
     (let s1 = (if \<not> sig_member (pending_signals s) n \<and> n \<le> 31
                then s\<lparr>pending_information := (pending_information s)(n - 1 :=
                  (case information of Some i \<Rightarrow> i | None \<Rightarrow> zero_siginfo))\<rparr>
                else s)
      in s1\<lparr>pending_signals := sig_add n (pending_signals s1)\<rparr>)"

definition guest_thread_signal_pending ::
  "int \<Rightarrow> siginfo option \<Rightarrow> guest_thread_state option \<Rightarrow> thread_effect list \<times> guest_thread_state option" where
  "guest_thread_signal_pending linux_signal information state =
     (case state of None \<Rightarrow> ([], None)
      | Some s \<Rightarrow>
          if linux_signal > 0 \<and> linux_signal \<le> 64 then
            let s1 = (if linux_signal \<ge> LINUX_FIRST_REALTIME_SIGNAL \<and> linux_signal \<le> LINUX_LAST_REALTIME_SIGNAL
                      then realtime_push (linux_signal - LINUX_FIRST_REALTIME_SIGNAL) information s
                      else standard_push linux_signal information s);
                s2 = (if futex_semaphore s1 \<noteq> None then s1\<lparr>futex_interrupted := True\<rparr> else s1)
            in ((case futex_semaphore s1 of Some sem \<Rightarrow> [SemPost sem] | None \<Rightarrow> []) @
                (if signal_wait_write_fd s1 \<ge> 0 then [PipeWrite (signal_wait_write_fd s1)] else []), Some s2)
          else ([], Some s))"

text \<open>\<open>__builtin_ctz\<close>: the index of the lowest bit that is set.\<close>

definition ctz :: "u32 \<Rightarrow> nat" where
  "ctz w = (case find (bit w) [0..<32] of Some i \<Rightarrow> i | None \<Rightarrow> 32)"

text \<open>The loop over the real-time signals, from a given number on.\<close>

function take_realtime :: "int \<Rightarrow> guest_thread_state \<Rightarrow> (int \<times> siginfo) option \<times> guest_thread_state" where
  "take_realtime n s =
     (if n > LINUX_LAST_REALTIME_SIGNAL then (None, s)
      else let index = n - LINUX_FIRST_REALTIME_SIGNAL; head = realtime_head s index in
        if sig_member (signal_mask s) n then take_realtime (n + 1) s
        else if head = realtime_tail s index then take_realtime (n + 1) s
        else (Some (n, realtime_information s index (head mod REALTIME_QUEUE_LENGTH)),
              s\<lparr>realtime_head := (realtime_head s)(index := head + 1)\<rparr>))"
  by pat_completeness auto
termination
  by (relation "measure (\<lambda>(n, s). nat (LINUX_LAST_REALTIME_SIGNAL + 1 - n))") auto

declare take_realtime.simps [simp del]

text \<open>
  \<open>guest_thread_take_pending\<close> delivers the signal and its information; \<open>None\<close> is the return
  value 0 with \<open>has_information\<close> 0. The first loop runs for word 0 only.
\<close>

definition guest_thread_take_pending ::
  "guest_thread_state option \<Rightarrow> (int \<times> siginfo) option \<times> guest_thread_state option" where
  "guest_thread_take_pending state =
     (case state of None \<Rightarrow> (None, None)
      | Some s \<Rightarrow>
          let old_value = fst (pending_signals s);
              candidates = old_value AND NOT (fst (signal_mask s))
          in if candidates \<noteq> 0 then
               let signal_number = int (ctz candidates) + 1;
                   new_value = old_value AND NOT (sig_bit signal_number)
               in (Some (signal_number, pending_information s (signal_number - 1)),
                   Some (s\<lparr>pending_signals := (new_value, snd (pending_signals s))\<rparr>))
             else (case take_realtime LINUX_FIRST_REALTIME_SIGNAL s of (r, s') \<Rightarrow> (r, Some s')))"

section \<open>Masks\<close>

definition guest_thread_signal_mask_get :: "guest_thread_state option \<Rightarrow> sigwords" where
  "guest_thread_signal_mask_get state = (case state of None \<Rightarrow> (0, 0) | Some s \<Rightarrow> signal_mask s)"

definition guest_thread_signal_mask_set :: "sigwords \<Rightarrow> guest_thread_state option \<Rightarrow> guest_thread_state option" where
  "guest_thread_signal_mask_set words = map_option (\<lambda>s. s\<lparr>signal_mask := words\<rparr>)"

definition guest_thread_signal_suspend_restore ::
  "sigwords \<Rightarrow> guest_thread_state option \<Rightarrow> guest_thread_state option" where
  "guest_thread_signal_suspend_restore words =
     map_option (\<lambda>s. s\<lparr>suspend_restore_mask := words, suspend_restore_valid := True\<rparr>)"

definition guest_thread_signal_delivery_mask ::
  "guest_thread_state option \<Rightarrow> sigwords \<times> guest_thread_state option" where
  "guest_thread_signal_delivery_mask state =
     (case state of
        Some s \<Rightarrow> if suspend_restore_valid s
          then (suspend_restore_mask s, Some (s\<lparr>suspend_restore_valid := False\<rparr>))
          else (guest_thread_signal_mask_get state, state)
      | None \<Rightarrow> (guest_thread_signal_mask_get state, state))"

section \<open>Waiting for signals\<close>

text \<open>
  The calls \<open>guest_thread_signal_wait_begin\<close> makes: \<open>pipe\<close> delivers the two descriptors, and
  \<open>fcntl\<close> makes one of them non-blocking.
\<close>

record 'h host_pipe =
  h_pipe :: "'h \<Rightarrow> (host_errno + int \<times> int) \<times> 'h"
  h_set_nonblock :: "int \<Rightarrow> 'h \<Rightarrow> host_errno option \<times> 'h"
  h_close :: "int \<Rightarrow> 'h \<Rightarrow> 'h"

definition guest_thread_signal_wait_begin ::
  "'h host_pipe \<Rightarrow> guest_thread_state option \<Rightarrow> 'h \<Rightarrow> int outcome \<times> guest_thread_state option \<times> 'h" where
  "guest_thread_signal_wait_begin H state h =
     (case state of None \<Rightarrow> (Fail EINVAL, None, h)
      | Some s \<Rightarrow>
          (case h_pipe H h of
             (Inl e, h) \<Rightarrow> (Fail e, Some s, h)
           | (Inr (rd, wr), h) \<Rightarrow>
               (case h_set_nonblock H rd h of
                  (Some e, h) \<Rightarrow> (Fail e, Some s, h_close H wr (h_close H rd h))
                | (None, h) \<Rightarrow>
                    (case h_set_nonblock H wr h of
                       (Some e, h) \<Rightarrow> (Fail e, Some s, h_close H wr (h_close H rd h))
                     | (None, h) \<Rightarrow>
                         (Done rd, Some (s\<lparr>signal_wait_read_fd := rd, signal_wait_write_fd := wr\<rparr>), h)))))"

definition realtime_ready :: "guest_thread_state \<Rightarrow> bool" where
  "realtime_ready s \<longleftrightarrow> list_ex (\<lambda>n. \<not> sig_member (signal_mask s) n \<and>
     realtime_head s (n - LINUX_FIRST_REALTIME_SIGNAL) \<noteq> realtime_tail s (n - LINUX_FIRST_REALTIME_SIGNAL))
     [LINUX_FIRST_REALTIME_SIGNAL..LINUX_LAST_REALTIME_SIGNAL]"

definition guest_thread_signal_wait_arm :: "guest_thread_state option \<Rightarrow> thread_effect list" where
  "guest_thread_signal_wait_arm state =
     (case state of None \<Rightarrow> []
      | Some s \<Rightarrow>
          if signal_wait_write_fd s < 0 then []
          else if fst (pending_signals s) AND NOT (fst (signal_mask s)) \<noteq> 0 \<or> realtime_ready s
          then [PipeWrite (signal_wait_write_fd s)] else [])"

definition guest_thread_signal_wait_interrupted ::
  "sigwords \<Rightarrow> guest_thread_state option \<Rightarrow> guest_thread_state option" where
  "guest_thread_signal_wait_interrupted old_words = guest_thread_signal_suspend_restore old_words"

definition guest_thread_signal_wait_complete ::
  "sigwords \<Rightarrow> guest_thread_state option \<Rightarrow> guest_thread_state option" where
  "guest_thread_signal_wait_complete old_words state =
     guest_thread_signal_mask_set old_words (map_option (\<lambda>s. s\<lparr>suspend_restore_valid := False\<rparr>) state)"

definition guest_thread_signal_wait_end ::
  "guest_thread_state option \<Rightarrow> thread_effect list \<times> guest_thread_state option" where
  "guest_thread_signal_wait_end state =
     (case state of None \<Rightarrow> ([], None)
      | Some s \<Rightarrow>
          ((if signal_wait_read_fd s \<ge> 0 then [CloseFd (signal_wait_read_fd s)] else []) @
           (if signal_wait_write_fd s \<ge> 0 then [CloseFd (signal_wait_write_fd s)] else []),
           Some (s\<lparr>signal_wait_write_fd := -1, signal_wait_read_fd := -1\<rparr>)))"

section \<open>System calls, futex waits, alternate stack, thread register\<close>

definition guest_thread_syscall_enter :: "guest_thread_state option \<Rightarrow> guest_thread_state option" where
  "guest_thread_syscall_enter = map_option (\<lambda>s. s\<lparr>syscall_active := True\<rparr>)"

definition guest_thread_syscall_leave :: "guest_thread_state option \<Rightarrow> guest_thread_state option" where
  "guest_thread_syscall_leave = map_option (\<lambda>s. s\<lparr>syscall_active := False\<rparr>)"

definition guest_thread_syscall_active :: "guest_thread_state option \<Rightarrow> bool" where
  "guest_thread_syscall_active state = (case state of None \<Rightarrow> False | Some s \<Rightarrow> syscall_active s)"

definition guest_thread_futex_wait_begin :: "nat \<Rightarrow> guest_thread_state option \<Rightarrow> guest_thread_state option" where
  "guest_thread_futex_wait_begin semaphore =
     map_option (\<lambda>s. s\<lparr>futex_interrupted := False, futex_semaphore := Some semaphore\<rparr>)"

definition guest_thread_futex_wait_end :: "guest_thread_state option \<Rightarrow> bool \<times> guest_thread_state option" where
  "guest_thread_futex_wait_end state =
     (case state of None \<Rightarrow> (False, None)
      | Some s \<Rightarrow> (futex_interrupted s, Some (s\<lparr>futex_semaphore := None, futex_interrupted := False\<rparr>)))"

definition guest_thread_altstack_get :: "guest_thread_state option \<Rightarrow> u32 \<times> u32" where
  "guest_thread_altstack_get state =
     (case state of None \<Rightarrow> (0, 0) | Some s \<Rightarrow> (altstack_pointer s, altstack_size s))"

definition guest_thread_altstack_set :: "u32 \<Rightarrow> u32 \<Rightarrow> guest_thread_state option \<Rightarrow> guest_thread_state option" where
  "guest_thread_altstack_set pointer sz =
     map_option (\<lambda>s. s\<lparr>altstack_pointer := pointer, altstack_size := sz\<rparr>)"

definition runtime_guest_tls :: "guest_thread_state option \<Rightarrow> u32" where
  "runtime_guest_tls state = (case state of None \<Rightarrow> 0 | Some s \<Rightarrow> guest_tls s)"

definition runtime_set_guest_tls :: "u32 \<Rightarrow> guest_thread_state option \<Rightarrow> guest_thread_state option" where
  "runtime_set_guest_tls v = map_option (\<lambda>s. s\<lparr>guest_tls := v\<rparr>)"

text \<open>
  \<open>guest_thread_defer_active_stack_unmap\<close>: \<open>active_stack\<close> is the address of a local variable
  of the call.
\<close>

definition guest_thread_defer_active_stack_unmap ::
  "u32 \<Rightarrow> u32 \<Rightarrow> u32 \<Rightarrow> guest_thread_state option \<Rightarrow> bool \<times> guest_thread_state option" where
  "guest_thread_defer_active_stack_unmap active_stack address len state =
     (case state of None \<Rightarrow> (False, None)
      | Some s \<Rightarrow>
          if active_stack < address \<or> active_stack - address \<ge> len then (False, Some s)
          else
            let start0 = address; end0 = address + len;
                old_start = deferred_unmap_start s;
                old_end = old_start + deferred_unmap_length s;
                start1 = (if deferred_unmap_length s \<noteq> 0 \<and> old_start < start0 then old_start else start0);
                end1 = (if deferred_unmap_length s \<noteq> 0 \<and> old_end > end0 then old_end else end0)
            in (True, Some (s\<lparr>deferred_unmap_start := start1, deferred_unmap_length := end1 - start1\<rparr>)))"

section \<open>Signal sets\<close>

definition sig_index :: "int \<Rightarrow> nat" where
  "sig_index n = nat ((n - 1) mod 32)"

lemma sig_member_bit: "sig_member ws n \<longleftrightarrow> bit (sig_word ws n) (sig_index n)"
  by (simp add: sig_member_def sig_bit_def sig_index_def and_exp_eq_0_iff_not_bit)

lemma bit_sig_bit: "bit (sig_bit n) i \<longleftrightarrow> i = sig_index n"
proof -
  have "sig_index n < 32" by (simp add: sig_index_def nat_less_iff)
  then show ?thesis by (auto simp: sig_bit_def sig_index_def bit_exp_iff)
qed

lemma sig_index_eq_iff:
  "(n - 1) div 32 = (k - 1) div 32 \<Longrightarrow> sig_index n = sig_index k \<longleftrightarrow> n = k" for n k :: int
proof -
  assume same: "(n - 1) div 32 = (k - 1) div 32"
  have "sig_index n = sig_index k \<longleftrightarrow> (n - 1) mod 32 = (k - 1) mod 32"
    by (simp add: sig_index_def eq_nat_nat_iff)
  also have "\<dots> \<longleftrightarrow> n - 1 = k - 1" using same by (metis mult_div_mod_eq)
  finally show ?thesis by simp
qed

lemma sig_member_add:
  assumes "1 \<le> n" "n \<le> 64" "1 \<le> k" "k \<le> 64"
  shows "sig_member (sig_add k ws) n \<longleftrightarrow> n = k \<or> sig_member ws n"
proof -
  have div: "(m - 1) div 32 = (if m \<le> 32 then 0 else 1)" if "1 \<le> m" "m \<le> 64" for m :: int
    using that by auto
  show ?thesis
    using assms sig_index_eq_iff [of n k]
    by (auto simp: sig_member_bit sig_add_def sig_word_def bit_or_iff bit_sig_bit div split: if_splits)
qed

lemma ctz_spec:
  assumes "w \<noteq> 0"
  shows "bit w (ctz w)" "ctz w < 32" "\<And>i. i < ctz w \<Longrightarrow> \<not> bit w i"
proof -
  obtain i where "bit w i" using assms by (metis bit_eq_iff bit_0_eq bot_apply bot_bool_def)
  then have i: "i < 32" "bit w i" by (auto dest: bit_imp_le_length)
  then obtain j where j: "find (bit w) [0..<32] = Some j"
    by (cases "find (bit w) [0..<32]") (auto simp: find_None_iff)
  then obtain k where k: "k < 32" "bit w ([0..<32] ! k)" "j = [0..<32] ! k" "\<forall>l<k. \<not> bit w ([0..<32] ! l)"
    by (auto simp: find_Some_iff)
  then have "ctz w = k" using j by (simp add: ctz_def)
  then show "bit w (ctz w)" "ctz w < 32" "\<And>i. i < ctz w \<Longrightarrow> \<not> bit w i" using k by auto
qed

section \<open>Pending signals as bounded queues\<close>

text \<open>
  What the thread's queues mean: for each signal the informations waiting to be delivered,
  oldest first. A standard signal has room for one, a real-time signal for 64.
\<close>

definition rt_signal :: "int \<Rightarrow> bool" where
  "rt_signal n \<longleftrightarrow> LINUX_FIRST_REALTIME_SIGNAL \<le> n \<and> n \<le> LINUX_LAST_REALTIME_SIGNAL"

definition deliverable :: "int \<Rightarrow> bool" where
  "deliverable n \<longleftrightarrow> 1 \<le> n \<and> n \<le> LINUX_LAST_REALTIME_SIGNAL"

definition capacity :: "int \<Rightarrow> nat" where
  "capacity n = (if rt_signal n then REALTIME_QUEUE_LENGTH else 1)"

definition waiting :: "guest_thread_state \<Rightarrow> int \<Rightarrow> siginfo list" where
  "waiting s n =
     (if rt_signal n then
        map (\<lambda>k. realtime_information s (n - LINUX_FIRST_REALTIME_SIGNAL) (k mod REALTIME_QUEUE_LENGTH))
          [realtime_head s (n - LINUX_FIRST_REALTIME_SIGNAL)..<realtime_tail s (n - LINUX_FIRST_REALTIME_SIGNAL)]
      else if sig_member (pending_signals s) n then [pending_information s (n - 1)] else [])"

definition queues_ok :: "guest_thread_state \<Rightarrow> bool" where
  "queues_ok s \<longleftrightarrow> \<not> bit (fst (pending_signals s)) 31 \<and>
     (\<forall>i. realtime_head s i \<le> realtime_tail s i \<and>
       realtime_tail s i - realtime_head s i \<le> REALTIME_QUEUE_LENGTH)"

lemma waiting_cong:
  assumes "pending_signals t = pending_signals s" "pending_information t = pending_information s"
    "realtime_head t = realtime_head s" "realtime_tail t = realtime_tail s"
    "realtime_information t = realtime_information s"
  shows "waiting t = waiting s" "queues_ok t = queues_ok s"
  using assms by (auto simp: waiting_def queues_ok_def fun_eq_iff)

lemma ring_push:
  fixes head tail :: nat
  assumes "head \<le> tail" "tail - head < m"
  shows "map (\<lambda>k. (f(tail mod m := x)) (k mod m)) [head..<Suc tail] = map (\<lambda>k. f (k mod m)) [head..<tail] @ [x]"
proof -
  have "k mod m \<noteq> tail mod m" if "head \<le> k" "k < tail" for k
  proof
    assume "k mod m = tail mod m"
    then have "m dvd tail - k" using that by (metis less_imp_le mod_eq_dvd_iff_nat)
    moreover have "0 < tail - k" "tail - k < m" using that assms by auto
    ultimately show False by (auto dest: dvd_imp_le)
  qed
  then show ?thesis using assms by auto
qed

lemma realtime_push_ok: "queues_ok s \<Longrightarrow> queues_ok (realtime_push index info s)"
  by (auto simp: queues_ok_def realtime_push_def Let_def le_SucI)

lemma realtime_push_waiting:
  assumes ok: "queues_ok s" and r: "rt_signal k" and n: "deliverable n"
  shows "waiting (realtime_push (k - 32) info s) n =
      (if n = k \<and> length (waiting s n) < capacity n
       then waiting s n @ [case info of Some i \<Rightarrow> i | None \<Rightarrow> zero_siginfo] else waiting s n)"
proof -
  have ok': "realtime_head s (k - 32) \<le> realtime_tail s (k - 32)" using ok by (simp add: queues_ok_def)
  show ?thesis
    using r ok' ring_push [OF ok', of 64 "realtime_information s (k - 32)"]
    by (auto simp: waiting_def realtime_push_def Let_def capacity_def)
qed

lemma standard_push_ok:
  assumes "queues_ok s" "1 \<le> k" "k \<le> 64" "\<not> rt_signal k"
  shows "queues_ok (standard_push k info s)"
proof -
  have "k \<le> 31 \<or> k \<ge> 48" using assms by (auto simp: rt_signal_def)
  then have "\<not> bit (fst (sig_add k (pending_signals s))) 31"
    using assms by (auto simp: sig_add_def bit_or_iff bit_sig_bit sig_index_def queues_ok_def)
  then show ?thesis using assms(1) by (simp add: queues_ok_def standard_push_def Let_def)
qed

lemma standard_push_waiting:
  assumes k: "1 \<le> k" "k \<le> 64" "\<not> rt_signal k" and n: "deliverable n"
  shows "waiting (standard_push k info s) n =
      (if n = k \<and> length (waiting s n) < capacity n
       then waiting s n @ [case info of Some i \<Rightarrow> i | None \<Rightarrow> zero_siginfo] else waiting s n)"
  using k n sig_member_add [of n k "pending_signals s"]
  by (auto simp: waiting_def standard_push_def Let_def capacity_def deliverable_def rt_signal_def)

text \<open>The signal an ideal thread delivers next, and the queues after it.\<close>

definition next_signal :: "(int \<Rightarrow> bool) \<Rightarrow> (int \<Rightarrow> 'i list) \<Rightarrow> (int \<times> 'i) option" where
  "next_signal blocked q =
     map_option (\<lambda>n. (n, hd (q n))) (find (\<lambda>n. \<not> blocked n \<and> q n \<noteq> []) [1..47])"

definition after_next :: "(int \<Rightarrow> bool) \<Rightarrow> (int \<Rightarrow> 'i list) \<Rightarrow> int \<Rightarrow> 'i list" where
  "after_next blocked q =
     (case next_signal blocked q of None \<Rightarrow> q | Some (n, _) \<Rightarrow> q(n := tl (q n)))"

lemma next_signal_Some:
  assumes "deliverable n" "\<not> blocked n" "q n \<noteq> []"
    and "\<And>k. 1 \<le> k \<Longrightarrow> k < n \<Longrightarrow> blocked k \<or> q k = []"
  shows "next_signal blocked q = Some (n, hd (q n))"
proof -
  have "[1..47] = [1..n - 1] @ n # [n + 1..47]"
    using assms(1) by (intro upto_split3) (auto simp: deliverable_def)
  moreover have "find (\<lambda>n. \<not> blocked n \<and> q n \<noteq> []) ([1..n - 1] @ n # [n + 1..47]) = Some n"
  proof -
    have "find (\<lambda>n. \<not> blocked n \<and> q n \<noteq> []) [1..n - 1] = None"
      using assms(4) by (auto simp: find_None_iff)
    then show ?thesis using assms(2,3) by (simp add: find_append)
  qed
  ultimately show ?thesis by (simp add: next_signal_def)
qed

lemma take_realtime_spec:
  assumes "queues_ok s" "32 \<le> n"
    and "\<forall>k. 1 \<le> k \<and> k < n \<and> deliverable k \<longrightarrow> sig_member (signal_mask s) k \<or> waiting s k = []"
  shows "fst (take_realtime n s) = next_signal (sig_member (signal_mask s)) (waiting s) \<and>
    (\<forall>k. deliverable k \<longrightarrow> waiting (snd (take_realtime n s)) k =
      after_next (sig_member (signal_mask s)) (waiting s) k) \<and>
    queues_ok (snd (take_realtime n s))"
  using assms
proof (induction n s rule: take_realtime.induct)
  case (1 n s)
  let ?m = "sig_member (signal_mask s)"
  show ?case
  proof (cases "n > 47")
    case True
    then have "find (\<lambda>n. \<not> ?m n \<and> waiting s n \<noteq> []) [1..47] = None"
      using "1.prems"(3) by (auto simp: find_None_iff deliverable_def)
    then show ?thesis using True "1.prems"(1)
      by (subst (1 2 3) take_realtime.simps) (simp add: next_signal_def after_next_def)
  next
    case le: False
    have r: "rt_signal n" using le "1.prems"(2) by (simp add: rt_signal_def)
    have ht: "realtime_head s (n - 32) \<le> realtime_tail s (n - 32)"
      and gap: "realtime_tail s (n - 32) - realtime_head s (n - 32) \<le> 64"
      using "1.prems"(1) by (simp_all add: queues_ok_def)
    have empty: "waiting s n = [] \<longleftrightarrow> realtime_head s (n - 32) = realtime_tail s (n - 32)"
      using r ht by (auto simp: waiting_def)
    show ?thesis
    proof (cases "?m n \<or> waiting s n = []")
      case True
      have "\<forall>k. 1 \<le> k \<and> k < n + 1 \<and> deliverable k \<longrightarrow> ?m k \<or> waiting s k = []"
        using "1.prems"(3) True by (metis zless_add1_eq)
      moreover have "take_realtime n s = take_realtime (n + 1) s"
        using True le empty by (subst take_realtime.simps) (auto simp: Let_def)
      ultimately show ?thesis using "1.IH" [OF le refl refl] True le empty "1.prems"(1,2) by (cases "?m n") auto
    next
      case False
      let ?i = "realtime_information s (n - 32) (realtime_head s (n - 32) mod 64)"
      let ?t = "s\<lparr>realtime_head := (realtime_head s)(n - 32 := realtime_head s (n - 32) + 1)\<rparr>"
      have run: "take_realtime n s = (Some (n, ?i), ?t)"
        using False le empty by (subst take_realtime.simps) (auto simp: Let_def)
      have lt: "realtime_head s (n - 32) < realtime_tail s (n - 32)" using False empty ht by simp
      have cons: "waiting s n = ?i # waiting ?t n" using r lt by (simp add: waiting_def upt_conv_Cons)
      have "next_signal ?m (waiting s) = Some (n, hd (waiting s n))"
        using False "1.prems"(2,3) le by (intro next_signal_Some) (auto simp: deliverable_def)
      then have nx: "next_signal ?m (waiting s) = Some (n, ?i)" using cons by simp
      have "waiting ?t k = after_next ?m (waiting s) k" for k
        using cons nx by (auto simp: after_next_def waiting_def)
      moreover have "queues_ok ?t"
        using "1.prems"(1) lt gap by (auto simp: queues_ok_def intro: order_trans [OF diff_le_mono2 gap])
      ultimately show ?thesis using run nx by simp
    qed
  qed
qed

lemma take_pending_spec:
  assumes ok: "queues_ok s"
  shows "\<exists>t. guest_thread_take_pending (Some s) = (next_signal (sig_member (signal_mask s)) (waiting s), Some t) \<and>
    queues_ok t \<and> signal_mask t = signal_mask s \<and>
    (\<forall>k. deliverable k \<longrightarrow> waiting t k = after_next (sig_member (signal_mask s)) (waiting s) k)"
proof -
  let ?m = "sig_member (signal_mask s)"
  let ?c = "fst (pending_signals s) AND NOT (fst (signal_mask s))"
  have std: "bit ?c (nat (k - 1)) \<longleftrightarrow> \<not> ?m k \<and> waiting s k \<noteq> []" if "1 \<le> k" "k \<le> 31" for k
    using that by (auto simp: sig_member_bit sig_word_def sig_index_def waiting_def rt_signal_def bit_and_iff bit_not_iff
        dest: bit_imp_le_length)
  have top: "\<not> bit ?c 31" using ok by (simp add: queues_ok_def bit_and_iff)
  show ?thesis
  proof (cases "?c = 0")
    case True
    have "\<forall>k. 1 \<le> k \<and> k < 32 \<and> deliverable k \<longrightarrow> ?m k \<or> waiting s k = []"
      using std True by force
    note spec = take_realtime_spec [OF ok order_refl this]
    have "signal_mask (snd (take_realtime n s)) = signal_mask s" for n
      by (induction n s rule: take_realtime.induct) (subst take_realtime.simps, auto simp: Let_def)
    moreover obtain r t where run: "take_realtime 32 s = (r, t)" by fastforce
    ultimately have "signal_mask t = signal_mask s" by (metis snd_conv)
    then show ?thesis using True spec run by (simp add: guest_thread_take_pending_def)
  next
    case False
    define n where "n = int (ctz ?c) + 1"
    note z = ctz_spec [OF False]
    have "ctz ?c \<noteq> 31" using z(1) top by metis
    then have n: "1 \<le> n" "n \<le> 31" "nat (n - 1) = ctz ?c" using z(2) by (auto simp: n_def)
    have pend: "\<not> ?m n" "waiting s n \<noteq> []" using std [OF n(1,2)] z(1) n(3) by auto
    then have mem: "sig_member (pending_signals s) n" "waiting s n = [pending_information s (n - 1)]"
      using n by (auto simp: waiting_def rt_signal_def split: if_splits)
    have "?m k \<or> waiting s k = []" if "1 \<le> k" "k < n" for k
    proof -
      have "nat (k - 1) < ctz ?c" using that n(3) by linarith
      then show ?thesis using z(3) std [of k] that n(2) by auto
    qed
    then have nx: "next_signal ?m (waiting s) = Some (n, pending_information s (n - 1))"
      using next_signal_Some [of n ?m "waiting s"] pend mem n by (simp add: deliverable_def)
    let ?t = "s\<lparr>pending_signals := (fst (pending_signals s) AND NOT (sig_bit n), snd (pending_signals s))\<rparr>"
    have run: "guest_thread_take_pending (Some s) = (next_signal ?m (waiting s), Some ?t)"
      using False nx by (simp add: guest_thread_take_pending_def Let_def n_def)
    have mem': "sig_member (pending_signals ?t) k \<longleftrightarrow> k \<noteq> n \<and> sig_member (pending_signals s) k" if "deliverable k" for k
    proof -
      have "(k - 1) div 32 = (if k \<le> 32 then 0 else 1)" "(n - 1) div 32 = 0"
        using that n by (auto simp: deliverable_def)
      then show ?thesis using sig_index_eq_iff [of k n] n
        by (auto simp: sig_member_bit sig_word_def bit_and_iff bit_not_iff bit_sig_bit dest: bit_imp_le_length)
    qed
    have "waiting ?t k = after_next ?m (waiting s) k" if "deliverable k" for k
      using mem' [OF that] nx mem n by (auto simp: waiting_def after_next_def rt_signal_def)
    moreover have "queues_ok ?t" using ok by (simp add: queues_ok_def bit_and_iff)
    ultimately show ?thesis using run by auto
  qed
qed

primrec take_many :: "('s \<Rightarrow> 'r \<times> 's) \<Rightarrow> nat \<Rightarrow> 's \<Rightarrow> 'r list \<times> 's" where
  "take_many f 0 s = ([], s)"
| "take_many f (Suc m) s =
     (case f s of (r, t) \<Rightarrow> case take_many f m t of (rs, u) \<Rightarrow> (r # rs, u))"

text \<open>
  What signal delivery relies on: pending signals form one bounded queue per signal, and
  taking a signal gives the oldest entry of the lowest deliverable signal that is not
  blocked.
\<close>

locale signal_queues =
  fixes ok :: "'s \<Rightarrow> bool"
    and queue :: "'s \<Rightarrow> int \<Rightarrow> 'i list"
    and blocked :: "'s \<Rightarrow> int \<Rightarrow> bool"
    and push :: "int \<Rightarrow> 'i \<Rightarrow> 's \<Rightarrow> 's"
    and take_one :: "'s \<Rightarrow> (int \<times> 'i) option \<times> 's"
  assumes push_ok: "ok s \<Longrightarrow> 1 \<le> k \<Longrightarrow> k \<le> 64 \<Longrightarrow> ok (push k i s)"
    and push_queue: "ok s \<Longrightarrow> 1 \<le> k \<Longrightarrow> k \<le> 64 \<Longrightarrow> deliverable n \<Longrightarrow>
      queue (push k i s) n = (if n = k \<and> length (queue s n) < capacity n then queue s n @ [i] else queue s n)"
    and push_blocked: "blocked (push k i s) = blocked s"
    and take_value: "ok s \<Longrightarrow> fst (take_one s) = next_signal (blocked s) (queue s)"
    and take_ok: "ok s \<Longrightarrow> ok (snd (take_one s))"
    and take_queue: "ok s \<Longrightarrow> deliverable n \<Longrightarrow>
      queue (snd (take_one s)) n = after_next (blocked s) (queue s) n"
    and take_blocked: "ok s \<Longrightarrow> blocked (snd (take_one s)) = blocked s"
begin

lemma push_all_ok: "ok s \<Longrightarrow> 1 \<le> k \<Longrightarrow> k \<le> 64 \<Longrightarrow> ok (fold (push k) is s)"
  by (induction "is" arbitrary: s) (auto intro: push_ok)

lemma push_all_blocked: "blocked (fold (push k) is s) = blocked s"
  by (induction "is" arbitrary: s) (auto simp: push_blocked)

lemma push_all_queue:
  assumes "ok s" "deliverable k" "deliverable n"
  shows "queue (fold (push k) is s) n =
    (if n = k then queue s n @ take (capacity n - length (queue s n)) is else queue s n)"
  using assms
proof (induction "is" arbitrary: s)
  case (Cons i "is")
  have k: "1 \<le> k" "k \<le> 64" using Cons.prems by (auto simp: deliverable_def)
  have step: "queue (push k i s) n =
      (if n = k \<and> length (queue s n) < capacity n then queue s n @ [i] else queue s n)"
    by (rule push_queue [OF Cons.prems(1) k Cons.prems(3)])
  have "queue (fold (push k) is (push k i s)) n =
      (if n = k then queue (push k i s) n @ take (capacity n - length (queue (push k i s) n)) is
       else queue (push k i s) n)"
    by (rule Cons.IH [OF push_ok [OF Cons.prems(1) k] Cons.prems(2,3)])
  then show ?case using step by (auto simp: take_Cons' not_less Suc_diff_le)
qed simp

lemma drain:
  assumes "ok s" "deliverable k" "\<not> blocked s k"
    and "\<And>n. deliverable n \<Longrightarrow> n \<noteq> k \<Longrightarrow> blocked s n \<or> queue s n = []"
    and "queue s k = is"
  shows "fst (take_many take_one (length is) s) = map (\<lambda>i. Some (k, i)) is"
  using assms
proof (induction "is" arbitrary: s)
  case (Cons i "is")
  have below: "blocked s n \<or> queue s n = []" if "1 \<le> n" "n < k" for n
    using Cons.prems(2,4) that by (auto simp: deliverable_def)
  have nx: "next_signal (blocked s) (queue s) = Some (k, i)"
    using next_signal_Some [OF Cons.prems(2), of "blocked s" "queue s"] Cons.prems(3,5) below by simp
  obtain r t where step: "take_one s = (r, t)" by fastforce
  have r: "r = Some (k, i)" using take_value [OF Cons.prems(1)] nx step by simp
  have t: "ok t" "blocked t = blocked s"
    "\<And>n. deliverable n \<Longrightarrow> queue t n = after_next (blocked s) (queue s) n"
    using take_ok [OF Cons.prems(1)] take_blocked [OF Cons.prems(1)] take_queue [OF Cons.prems(1)] step by simp_all
  have "fst (take_many take_one (length is) t) = map (\<lambda>i. Some (k, i)) is"
    using Cons.prems t nx by (intro Cons.IH) (auto simp: after_next_def)
  then show ?case using step r by (auto split: prod.split)
qed simp

end

lemma signal_pending_state:
  assumes "1 \<le> k" "k \<le> 64"
  shows "\<exists>t u. snd (guest_thread_signal_pending k info (Some s)) = Some t \<and>
    u = (if rt_signal k then realtime_push (k - 32) info s else standard_push k info s) \<and>
    waiting t = waiting u \<and> queues_ok t = queues_ok u \<and> signal_mask t = signal_mask s"
proof -
  let ?u = "if rt_signal k then realtime_push (k - 32) info s else standard_push k info s"
  have mask: "signal_mask ?u = signal_mask s"
    by (simp add: realtime_push_def standard_push_def Let_def)
  have "snd (guest_thread_signal_pending k info (Some s)) =
      Some (if futex_semaphore ?u \<noteq> None then ?u\<lparr>futex_interrupted := True\<rparr> else ?u)"
    using assms by (simp add: guest_thread_signal_pending_def Let_def rt_signal_def)
  then show ?thesis using mask waiting_cong [of "?u\<lparr>futex_interrupted := True\<rparr>" ?u] by auto
qed

lemma signal_pending_spec:
  assumes "queues_ok s" "1 \<le> k" "k \<le> 64"
  shows "\<exists>t. snd (guest_thread_signal_pending k (Some i) (Some s)) = Some t \<and> queues_ok t \<and>
    signal_mask t = signal_mask s \<and>
    (\<forall>n. deliverable n \<longrightarrow> waiting t n =
      (if n = k \<and> length (waiting s n) < capacity n then waiting s n @ [i] else waiting s n))"
  using signal_pending_state [OF assms(2,3), of "Some i" s]
    realtime_push_waiting [OF assms(1), of k _ "Some i"] realtime_push_ok [OF assms(1)]
    standard_push_waiting [OF assms(2,3), of _ "Some i"] standard_push_ok [OF assms]
  by (auto split: if_splits)

interpretation tq: signal_queues queues_ok waiting "\<lambda>s. sig_member (signal_mask s)"
    "\<lambda>k i s. the (snd (guest_thread_signal_pending k (Some i) (Some s)))"
    "\<lambda>s. (fst (guest_thread_take_pending (Some s)), the (snd (guest_thread_take_pending (Some s))))"
proof unfold_locales
  fix s i and k n :: int
  assume ok: "queues_ok s"
  show "fst (fst (guest_thread_take_pending (Some s)), the (snd (guest_thread_take_pending (Some s)))) =
      next_signal (sig_member (signal_mask s)) (waiting s)"
    "queues_ok (snd (fst (guest_thread_take_pending (Some s)), the (snd (guest_thread_take_pending (Some s)))))"
    "sig_member (signal_mask (snd (fst (guest_thread_take_pending (Some s)),
       the (snd (guest_thread_take_pending (Some s)))))) = sig_member (signal_mask s)"
    using take_pending_spec [OF ok] by auto
  show "deliverable n \<Longrightarrow> waiting (snd (fst (guest_thread_take_pending (Some s)),
       the (snd (guest_thread_take_pending (Some s))))) n = after_next (sig_member (signal_mask s)) (waiting s) n"
    using take_pending_spec [OF ok] by auto
  assume k: "1 \<le> k" "k \<le> 64"
  show "queues_ok (the (snd (guest_thread_signal_pending k (Some i) (Some s))))"
    "deliverable n \<Longrightarrow> waiting (the (snd (guest_thread_signal_pending k (Some i) (Some s)))) n =
       (if n = k \<and> length (waiting s n) < capacity n then waiting s n @ [i] else waiting s n)"
    using signal_pending_spec [OF ok k, of i] by auto
next
  fix k :: int and i s
  show "sig_member (signal_mask (the (snd (guest_thread_signal_pending k (Some i) (Some s))))) = sig_member (signal_mask s)"
  proof (cases "1 \<le> k \<and> k \<le> 64")
    case True
    then show ?thesis using signal_pending_state [of k "Some i" s] by auto
  qed (auto simp: guest_thread_signal_pending_def)
qed

section \<open>Properties\<close>


text \<open>
  Real-time signals are neither lost nor reordered: up to 64 instances of an
  unblocked real-time signal posted to a thread with nothing else to deliver come out of
  \<open>guest_thread_take_pending\<close> one by one in the order of posting.
\<close>

theorem realtime_fifo:
  assumes "queues_ok s" and "rt_signal k" and "\<not> sig_member (signal_mask s) k"
    and "\<forall>n. deliverable n \<longrightarrow> waiting s n = []" and "length is \<le> 64"
  shows "fst (take_many
      (\<lambda>s. (fst (guest_thread_take_pending (Some s)), the (snd (guest_thread_take_pending (Some s)))))
      (length is)
      (fold (\<lambda>i s. the (snd (guest_thread_signal_pending k (Some i) (Some s)))) is s)) =
    map (\<lambda>i. Some (k, i)) is"
proof -
  have d: "deliverable k" "1 \<le> k" "k \<le> 64" "capacity k = 64"
    using assms(2) by (auto simp: rt_signal_def deliverable_def capacity_def)
  show ?thesis
    using assms d
    by (intro tq.drain [OF tq.push_all_ok]) (simp_all add: tq.push_all_queue tq.push_all_blocked)
qed

definition rt_infos :: "siginfo list" where
  "rt_infos = [zero_siginfo\<lparr>si_code := 7\<rparr>, zero_siginfo\<lparr>si_code := 8\<rparr>, zero_siginfo\<lparr>si_code := 9\<rparr>]"

lemma blank_queues: "queues_ok blank_thread" "waiting blank_thread n = []" "\<not> sig_member (signal_mask blank_thread) n"
  by (auto simp: blank_thread_def queues_ok_def waiting_def sig_member_def sig_word_def)


theorem realtime_fifo_witness:
  "fst (take_many
      (\<lambda>s. (fst (guest_thread_take_pending (Some s)), the (snd (guest_thread_take_pending (Some s)))))
      (length rt_infos)
      (fold (\<lambda>i s. the (snd (guest_thread_signal_pending 34 (Some i) (Some s)))) rt_infos blank_thread)) =
    map (\<lambda>i. Some (34, i)) rt_infos"
  by (rule realtime_fifo) (simp_all add: blank_queues rt_signal_def rt_infos_def)

end
