(* ===== verification/Linux_Mm.thy ===== *)
theory Linux_Mm
  imports Arm_Patch Guest_Memory Guest_Thread
begin

text \<open>
  The memory calls of \<open>src/src/linux_syscall.c\<close>: \<open>mmap2\<close>, \<open>mprotect\<close> and \<open>munmap\<close>. They
  bring together the host's mappings, the table of patched instructions, the registry of
  runtime mappings and the deferred unmapping of a thread's own stack. Tracing is left out.
\<close>

unbundle bit_operations_syntax

section \<open>State\<close>

text \<open>
  The host: its calls on mappings and files, the page size, and the conversion to \<open>off_t\<close>,
  whose width the sources do not fix.
\<close>

record 'h mm_host =
  mh_mm :: "'h host_mm"
  mh_file :: "'h host_file"
  mh_page :: u32
  mh_off_t :: "int \<Rightarrow> int"

record 'h mm_state =
  mm_patches :: patch_table
  mm_memory :: guest_memory
  mm_world :: "'h world"
  mm_thread :: "guest_thread_state option"

abbreviation (input) LINUX_MAP_SHARED :: u32 where "LINUX_MAP_SHARED \<equiv> 1"
abbreviation (input) LINUX_MAP_PRIVATE :: u32 where "LINUX_MAP_PRIVATE \<equiv> 2"
abbreviation (input) LINUX_MAP_FIXED :: u32 where "LINUX_MAP_FIXED \<equiv> 0x10"
abbreviation (input) LINUX_MAP_ANONYMOUS :: u32 where "LINUX_MAP_ANONYMOUS \<equiv> 0x20"
abbreviation (input) LINUX_MAP_KNOWN :: u32 where "LINUX_MAP_KNOWN \<equiv> 0x33"

definition translate_protection :: "u32 \<Rightarrow> prot set option" where
  "translate_protection linux_protection =
     (if linux_protection AND NOT 7 \<noteq> 0 then None
      else Some ((if linux_protection AND 1 \<noteq> 0 then {PROT_READ} else {}) \<union>
        (if linux_protection AND 2 \<noteq> 0 then {PROT_WRITE} else {}) \<union>
        (if linux_protection AND 4 \<noteq> 0 then {PROT_EXEC} else {})))"

section \<open>\<open>mmap2\<close>\<close>

text \<open>
  The arguments after the checks. A private file mapping that is to be executable is made of
  anonymous memory into which the file is copied (\<open>rq_copy\<close>), and any private file mapping is
  first writable and not executable.
\<close>

record mmap_request =
  rq_address :: u32
  rq_length :: u32
  rq_mapped_length :: u32
  rq_protection :: "prot set"
  rq_mapping_protection :: "prot set"
  rq_flags :: "map_flag set"
  rq_descriptor :: int
  rq_offset :: int
  rq_anonymous :: bool
  rq_copy :: bool

definition mmap_request_of :: "'h mm_host \<Rightarrow> guest_memory \<Rightarrow> (nat \<Rightarrow> u32) \<Rightarrow> sysret + mmap_request" where
  "mmap_request_of H g r =
     (let requested_address = r 0; requested_length = r 1; linux_flags = r 3; host_page_size = mh_page H in
      case translate_protection (r 2) of None \<Rightarrow> Inl (RawHost EINVAL)
      | Some host_protection \<Rightarrow>
        if linux_flags AND NOT LINUX_MAP_KNOWN \<noteq> 0 then Inl (RawHost EINVAL)
        else if linux_flags AND (LINUX_MAP_SHARED OR LINUX_MAP_PRIVATE) = LINUX_MAP_SHARED OR LINUX_MAP_PRIVATE
        then Inl (RawHost EINVAL)
        else if linux_flags AND LINUX_MAP_SHARED = 0 \<and> linux_flags AND LINUX_MAP_PRIVATE = 0
        then Inl (RawHost EINVAL)
        else if requested_length = 0 \<or> requested_length > UINTPTR_MAX - (host_page_size - 1)
        then Inl (RawHost EINVAL)
        else
          let mapped_length = align_up requested_length host_page_size;
              shared = linux_flags AND LINUX_MAP_SHARED \<noteq> 0;
              private = linux_flags AND LINUX_MAP_PRIVATE \<noteq> 0;
              fixed = linux_flags AND LINUX_MAP_FIXED \<noteq> 0;
              anonymous = linux_flags AND LINUX_MAP_ANONYMOUS \<noteq> 0
          in if fixed \<and> (requested_address AND (host_page_size - 1) \<noteq> 0 \<or>
                \<not> guest_memory_runtime_owned requested_address mapped_length g)
             then Inl (RawHost ENOMEM)
             else if shared \<and> PROT_EXEC \<in> host_protection then Inl (RawHost EOPNOTSUPP)
             else
               let copy_file = private \<and> \<not> anonymous \<and> PROT_EXEC \<in> host_protection in
               Inr \<lparr>rq_address = requested_address, rq_length = requested_length,
                 rq_mapped_length = mapped_length, rq_protection = host_protection,
                 rq_mapping_protection = (if private \<and> \<not> anonymous
                   then (host_protection \<union> {PROT_READ, PROT_WRITE}) - {PROT_EXEC} else host_protection),
                 rq_flags = (if shared then {MAP_SHARED} else {MAP_PRIVATE}) \<union>
                   (if fixed then {MAP_FIXED} else {}) \<union> (if anonymous \<or> copy_file then {MAP_ANON} else {}),
                 rq_descriptor = sint (r 4), rq_offset = mh_off_t H (mh_off_t H (uint (r 5)) * 4096),
                 rq_anonymous = anonymous, rq_copy = copy_file\<rparr>)"

text \<open>The copy of the file into an executable mapping; \<open>Done (Some e)\<close> is a failure.\<close>

definition mmap_copy ::
  "'h mm_host \<Rightarrow> mmap_request \<Rightarrow> u32 \<Rightarrow> 'h world \<Rightarrow> sysret option outcome \<times> 'h world" where
  "mmap_copy H q mapped_address w =
     (case f_size (mh_file H) (rq_descriptor q) w of
        Inl e \<Rightarrow> (Done (Some (Translated e)), w)
      | Inr file_size \<Rightarrow>
          if file_size < 0 \<or> rq_offset q < 0 \<or> rq_offset q > file_size then (Done (Some (RawHost EINVAL)), w)
          else
            let file_bytes = (if mh_off_t H (uint (rq_length q)) > file_size - rq_offset q
                  then of_int (file_size - rq_offset q) else rq_length q)
            in if file_bytes = 0 then (Done None, w)
               else case read_exact_at (f_pread (mh_file H)) (rq_descriptor q) (unat file_bytes) (rq_offset q) w of
                   (Done bytes, w) \<Rightarrow> (Done None, w\<lparr>w_mem := store_bytes (w_mem w) mapped_address bytes\<rparr>)
                 | (Fail e, w) \<Rightarrow> (Done (Some (Translated e)), w)
                 | (_, w) \<Rightarrow> (Hang, w))"

definition mmap_undo :: "'h mm_host \<Rightarrow> u32 \<Rightarrow> u32 \<Rightarrow> 'h mm_state \<Rightarrow> 'h mm_state" where
  "mmap_undo H mapped_address mapped_length st =
     st\<lparr>mm_patches := arm_patch_forget_range mapped_address mapped_length (mm_patches st),
       mm_world := snd (h_munmap (mh_mm H) mapped_address mapped_length (mm_world st))\<rparr>"

text \<open>
  Patching, the instruction cache, the final protection and the registry. A step that fails
  forgets the patches of the range and unmaps it.
\<close>

definition mmap_install ::
  "'h mm_host \<Rightarrow> mmap_request \<Rightarrow> u32 \<Rightarrow> 'h mm_state \<Rightarrow> sysret outcome \<times> 'h mm_state" where
  "mmap_install H q mapped_address st =
     (let mapped_length = rq_mapped_length q;
          patches = arm_patch_forget_range mapped_address mapped_length (mm_patches st);
          failed = (\<lambda>e st. (Done (Translated e), mmap_undo H mapped_address mapped_length st))
      in case (if \<not> rq_anonymous q
               then arm_patch_elf_mapping (mh_file H) (rq_descriptor q) (rq_offset q) mapped_address mapped_length
                 (patches, mm_world st)
               else (Done (), patches, mm_world st)) of
           (r, patches, w) \<Rightarrow>
             let st = st\<lparr>mm_patches := patches, mm_world := w\<rparr> in
             (case r of
                Fail e \<Rightarrow> failed e st
              | Done _ \<Rightarrow>
                (case (if PROT_EXEC \<in> rq_protection q then h_msync (mh_mm H) mapped_address mapped_length w
                       else (None, w)) of
                   (Some e, w) \<Rightarrow> failed e (st\<lparr>mm_world := w\<rparr>)
                 | (None, w) \<Rightarrow>
                   (case (if rq_mapping_protection q \<noteq> rq_protection q
                          then h_mprotect (mh_mm H) mapped_address mapped_length (rq_protection q) w
                          else (None, w)) of
                      (Some e, w) \<Rightarrow> failed e (st\<lparr>mm_world := w\<rparr>)
                    | (None, w) \<Rightarrow>
                      (case guest_memory_runtime_map mapped_address mapped_length
                              (PROT_EXEC \<in> rq_protection q) (mm_memory st) of
                         (Done _, g) \<Rightarrow> (Done (Value (sint mapped_address)), st\<lparr>mm_world := w, mm_memory := g\<rparr>)
                       | (Fail e, g) \<Rightarrow> failed e (st\<lparr>mm_world := w, mm_memory := g\<rparr>)
                       | (_, g) \<Rightarrow> (Fault, st\<lparr>mm_world := w, mm_memory := g\<rparr>))))
              | _ \<Rightarrow> (Hang, st)))"

definition linux_mmap2 ::
  "'h mm_host \<Rightarrow> (nat \<Rightarrow> u32) \<Rightarrow> 'h mm_state \<Rightarrow> sysret outcome \<times> 'h mm_state" where
  "linux_mmap2 H r st =
     (case mmap_request_of H (mm_memory st) r of
        Inl e \<Rightarrow> (Done e, st)
      | Inr q \<Rightarrow>
        (case h_mmap (mh_mm H) (rq_address q) (rq_length q) (rq_mapping_protection q) (rq_flags q)
                (if rq_copy q then -1 else rq_descriptor q) (if rq_copy q then 0 else rq_offset q) (mm_world st) of
           (Inl e, w) \<Rightarrow> (Done (Translated e), st\<lparr>mm_world := w\<rparr>)
         | (Inr mapped_address, w) \<Rightarrow>
             let unmap = (\<lambda>w. st\<lparr>mm_world := snd (h_munmap (mh_mm H) mapped_address (rq_mapped_length q) w)\<rparr>) in
             if mapped_address < GUEST_MIN_ADDRESS \<or> mapped_address \<ge> GUEST_MAX_ADDRESS \<or>
                rq_mapped_length q > GUEST_MAX_ADDRESS - mapped_address
             then (Done (RawHost ENOMEM), unmap w)
             else (case (if rq_copy q then mmap_copy H q mapped_address w else (Done None, w)) of
                 (Done None, w) \<Rightarrow> mmap_install H q mapped_address (st\<lparr>mm_world := w\<rparr>)
               | (Done (Some e), w) \<Rightarrow> (Done e, unmap w)
               | (_, w) \<Rightarrow> (Hang, st\<lparr>mm_world := w\<rparr>))))"

section \<open>\<open>mprotect\<close>\<close>

definition mprotect_undo :: "'h mm_host \<Rightarrow> nat \<Rightarrow> 'h mm_state \<Rightarrow> 'h mm_state" where
  "mprotect_undo H patches_before st =
     (case arm_patch_rollback patches_before (mm_patches st, w_mem (mm_world st)) of
        (patches, m) \<Rightarrow> st\<lparr>mm_patches := patches, mm_world := (mm_world st)\<lparr>w_mem := m\<rparr>\<rparr>)"

text \<open>
  Making the range writable, patching it and synchronising the instruction cache; \<open>Some e\<close> is a
  failure, after which the patches are undone and the protection is set all the same.
\<close>

definition mprotect_patch ::
  "'h mm_host \<Rightarrow> u32 \<Rightarrow> u32 \<Rightarrow> prot set \<Rightarrow> 'h mm_state \<Rightarrow> host_errno option \<times> 'h mm_state" where
  "mprotect_patch H address mapped_length host_protection st =
     (let patches_before = arm_patch_count (mm_patches st);
          set_protection = (\<lambda>st. st\<lparr>mm_world :=
            snd (h_mprotect (mh_mm H) address mapped_length host_protection (mm_world st))\<rparr>)
      in case h_mprotect (mh_mm H) address mapped_length (host_protection \<union> {PROT_READ, PROT_WRITE}) (mm_world st) of
           (Some e, w) \<Rightarrow> (Some e, st\<lparr>mm_world := w\<rparr>)
         | (None, w) \<Rightarrow>
             (case arm_patch_range address mapped_length (mm_patches st, w_mem w) of
                (r, patches, m) \<Rightarrow>
                  let st = st\<lparr>mm_patches := patches, mm_world := w\<lparr>w_mem := m\<rparr>\<rparr> in
                  (case r of
                     Fail e \<Rightarrow> (Some e, set_protection (mprotect_undo H patches_before st))
                   | _ \<Rightarrow>
                     (case h_msync (mh_mm H) address mapped_length (mm_world st) of
                        (Some e, w) \<Rightarrow> (Some e, set_protection (mprotect_undo H patches_before (st\<lparr>mm_world := w\<rparr>)))
                      | (None, w) \<Rightarrow> (None, st\<lparr>mm_world := w\<rparr>)))))"

text \<open>A range of runtime mappings.\<close>

definition mprotect_owned ::
  "'h mm_host \<Rightarrow> u32 \<Rightarrow> u32 \<Rightarrow> prot set \<Rightarrow> 'h mm_state \<Rightarrow> sysret outcome \<times> 'h mm_state" where
  "mprotect_owned H address mapped_length host_protection st =
     (let patches_before = arm_patch_count (mm_patches st); executable = (PROT_EXEC \<in> host_protection) in
      case (if executable then mprotect_patch H address mapped_length host_protection st else (None, st)) of
        (Some e, st) \<Rightarrow> (Done (Translated e), st)
      | (None, st) \<Rightarrow>
          (case h_mprotect (mh_mm H) address mapped_length host_protection (mm_world st) of
             (Some e, w) \<Rightarrow>
               (Done (Translated e), if executable then mprotect_undo H patches_before (st\<lparr>mm_world := w\<rparr>)
                 else st\<lparr>mm_world := w\<rparr>)
           | (None, w) \<Rightarrow>
               (case guest_memory_runtime_protect address mapped_length executable (mm_memory st) of
                  (Done True, g) \<Rightarrow> (Done (Value 0), st\<lparr>mm_world := w, mm_memory := g\<rparr>)
                | (Fail e, g) \<Rightarrow> (Done (Translated e), st\<lparr>mm_world := w, mm_memory := g\<rparr>)
                | (Done False, g) \<Rightarrow> (FailStale, st\<lparr>mm_world := w, mm_memory := g\<rparr>)
                | (_, g) \<Rightarrow> (Fault, st\<lparr>mm_world := w, mm_memory := g\<rparr>))))"

definition linux_mprotect_runtime ::
  "'h mm_host \<Rightarrow> u32 \<Rightarrow> u32 \<Rightarrow> u32 \<Rightarrow> 'h mm_state \<Rightarrow> sysret outcome \<times> 'h mm_state" where
  "linux_mprotect_runtime H address len linux_protection st =
     (let host_page_size = mh_page H; g = mm_memory st in
      case translate_protection linux_protection of None \<Rightarrow> (Done (RawHost EINVAL), st)
      | Some host_protection \<Rightarrow>
        if len = 0 \<or> address AND (host_page_size - 1) \<noteq> 0 \<or> len > UINTPTR_MAX - (host_page_size - 1)
        then (Done (RawHost EINVAL), st)
        else
          let mapped_length = align_up len host_page_size in
          if \<not> guest_memory_runtime_owned address mapped_length g then
            if \<not> guest_memory_range_owned address mapped_length g then (Done (RawHost ENOMEM), st)
            else if PROT_EXEC \<in> host_protection \<and> \<not> guest_memory_is_executable address mapped_length g
            then (Done (RawHost EACCES), st)
            else (case h_mprotect (mh_mm H) address mapped_length host_protection (mm_world st) of
                (Some e, w) \<Rightarrow> (Done (Translated e), st\<lparr>mm_world := w\<rparr>)
              | (None, w) \<Rightarrow> (Done (Value 0), st\<lparr>mm_world := w\<rparr>))
          else mprotect_owned H address mapped_length host_protection st)"

section \<open>\<open>munmap\<close>\<close>

text \<open>\<open>active_stack\<close> is the address of a local variable, see \<open>guest_thread_defer_active_stack_unmap\<close>.\<close>

definition linux_munmap_runtime ::
  "'h mm_host \<Rightarrow> u32 \<Rightarrow> u32 \<Rightarrow> u32 \<Rightarrow> 'h mm_state \<Rightarrow> sysret \<times> 'h mm_state" where
  "linux_munmap_runtime H active_stack address len st =
     (let host_page_size = mh_page H in
      if len = 0 \<or> address AND (host_page_size - 1) \<noteq> 0 \<or> len > UINTPTR_MAX - (host_page_size - 1)
      then (RawHost EINVAL, st)
      else
        let mapped_length = align_up len host_page_size in
        if \<not> guest_memory_runtime_owned address mapped_length (mm_memory st) then (RawHost EINVAL, st)
        else (case guest_thread_defer_active_stack_unmap active_stack address mapped_length (mm_thread st) of
            (True, thread) \<Rightarrow> (Value 0, st\<lparr>mm_thread := thread\<rparr>)
          | (False, thread) \<Rightarrow>
              (case h_munmap (mh_mm H) address mapped_length (mm_world st) of
                 (Some e, w) \<Rightarrow> (Translated e, st\<lparr>mm_thread := thread, mm_world := w\<rparr>)
               | (None, w) \<Rightarrow>
                   (Value 0, st\<lparr>mm_thread := thread, mm_world := w,
                      mm_patches := arm_patch_forget_range address mapped_length (mm_patches st),
                      mm_memory := guest_memory_runtime_unmap address mapped_length (mm_memory st)\<rparr>))))"

section \<open>What a call may change\<close>

text \<open>
  The contract of a memory call towards the tables: the registry stays sound, owned memory
  stays inside the guest's range, the patch table stays within its bound, and the load
  segments are not touched. Nothing is assumed of the host.
\<close>

definition owned_in_range :: "guest_memory \<Rightarrow> bool" where
  "owned_in_range g \<longleftrightarrow>
     (\<forall>x. owner (runtime_mappings g) x \<noteq> None \<longrightarrow> GUEST_MIN_ADDRESS \<le> x \<and> x < GUEST_MAX_ADDRESS)"

definition mm_ok :: "'h mm_state \<Rightarrow> bool" where
  "mm_ok st \<longleftrightarrow> registry_ok (runtime_mappings (mm_memory st)) \<and> owned_in_range (mm_memory st) \<and>
     length (mm_patches st) \<le> MAX_PATCHES"

definition same_segments :: "'h mm_state \<Rightarrow> 'h mm_state \<Rightarrow> bool" where
  "same_segments st st' \<longleftrightarrow> load_segments (mm_memory st') = load_segments (mm_memory st) \<and>
     page_size (mm_memory st') = page_size (mm_memory st)"

locale memory_call =
  fixes call :: "'a \<Rightarrow> 'h mm_state \<Rightarrow> 'r \<times> 'h mm_state"
  assumes keeps: "mm_ok st \<Longrightarrow> call a st = (r, st') \<Longrightarrow> mm_ok st' \<and> same_segments st st'"
begin

lemma keeps_all:
  "mm_ok st \<Longrightarrow> mm_ok (fold (\<lambda>a st. snd (call a st)) as st) \<and> same_segments st (fold (\<lambda>a st. snd (call a st)) as st)"
proof (induction as arbitrary: st)
  case Nil
  then show ?case by (simp add: same_segments_def)
next
  case (Cons a as)
  from keeps [OF Cons.prems surjective_pairing] have "mm_ok (snd (call a st))" "same_segments st (snd (call a st))"
    by blast+
  with Cons.IH [of "snd (call a st)"] show ?case by (simp add: same_segments_def)
qed

end

lemma patch_words_bound:
  "length (fst s) \<le> MAX_PATCHES \<Longrightarrow> length (fst (snd (patch_words as s))) \<le> MAX_PATCHES"
  by (induction as s rule: patch_words.induct) (auto simp: Let_def)

lemma patch_range_bound:
  "length (fst s) \<le> MAX_PATCHES \<Longrightarrow> length (fst (snd (arm_patch_range a n s))) \<le> MAX_PATCHES"
  by (simp add: arm_patch_range_def patch_words_bound)

lemma patch_section_bound:
  "length (fst s) \<le> MAX_PATCHES \<Longrightarrow> length (fst (snd (patch_mapped_section b e a sec s))) \<le> MAX_PATCHES"
  by (simp add: patch_mapped_section_def Let_def patch_range_bound)

lemma patch_sections_bound:
  "length (fst s) \<le> MAX_PATCHES \<Longrightarrow> length (fst (snd (patch_mapped_sections b e a secs s))) \<le> MAX_PATCHES"
  by (induction secs arbitrary: s) (auto simp: case_prod_beta patch_section_bound)

lemma elf_mapping_bound:
  assumes "length ps \<le> MAX_PATCHES"
  shows "length (fst (snd (arm_patch_elf_mapping F fd off a n (ps, w)))) \<le> MAX_PATCHES"
proof -
  have "length (fst (snd (patch_mapped_sections b e a secs (ps, m)))) \<le> MAX_PATCHES" for b e secs m
    using patch_sections_bound [of "(ps, m)"] assms by simp
  then show ?thesis using assms
    by (simp add: arm_patch_elf_mapping_def Let_def case_prod_beta split: sum.split outcome.split)
qed

lemma forget_bound: "length ps \<le> MAX_PATCHES \<Longrightarrow> length (arm_patch_forget_range a n ps) \<le> MAX_PATCHES"
  by (simp add: arm_patch_forget_range_def Let_def) (meson length_filter_le order_trans)

lemma rollback_bound: "length (fst (arm_patch_rollback k (ps, m))) \<le> length ps"
proof (induction ps arbitrary: m rule: rev_induct)
  case (snoc p ps)
  then show ?case by (cases "k \<le> length ps") (auto simp: rollback_snoc rollback_stop intro: le_SucI)
qed (simp add: rollback_stop)

lemma mmap_undo_fields:
  "mm_memory (mmap_undo H a n st) = mm_memory st" "mm_thread (mmap_undo H a n st) = mm_thread st"
  "length (mm_patches st) \<le> MAX_PATCHES \<Longrightarrow> length (mm_patches (mmap_undo H a n st)) \<le> MAX_PATCHES"
  by (simp_all add: mmap_undo_def forget_bound)

lemma mmap_install_cases:
  assumes ok: "mm_ok st" and run: "mmap_install H q a st = (res, st')"
  shows "length (mm_patches st') \<le> MAX_PATCHES" and
    "(res = Done (Value (sint a)) \<and>
      guest_memory_runtime_map a (rq_mapped_length q) (PROT_EXEC \<in> rq_protection q) (mm_memory st) =
        (Done (), mm_memory st')) \<or>
     ((\<forall>v. res \<noteq> Done (Value v)) \<and> mm_memory st' = mm_memory st)"
proof -
  let ?L = "rq_mapped_length q" and ?ex = "PROT_EXEC \<in> rq_protection q"
  have reg: "registry_ok (runtime_mappings (mm_memory st))" and len: "length (mm_patches st) \<le> MAX_PATCHES"
    using ok by (auto simp: mm_ok_def)
  let ?E = "if \<not> rq_anonymous q
       then arm_patch_elf_mapping (mh_file H) (rq_descriptor q) (rq_offset q) a ?L
         (arm_patch_forget_range a ?L (mm_patches st), mm_world st)
       else (Done (), arm_patch_forget_range a ?L (mm_patches st), mm_world st)"
  obtain r1 ps w where e: "?E = (r1, ps, w)" by (cases ?E) auto
  have "length (fst (snd ?E)) \<le> MAX_PATCHES" by (simp add: elf_mapping_bound forget_bound len)
  then have ps: "length ps \<le> MAX_PATCHES" unfolding e by simp
  obtain m g where rm: "guest_memory_runtime_map a ?L ?ex (mm_memory st) = (m, g)"
    by (cases "guest_memory_runtime_map a ?L ?ex (mm_memory st)")
  note o = runtime_map_outcome(2) [OF reg rm]
  let ?P = "length (mm_patches st') \<le> MAX_PATCHES \<and>
    ((res = Done (Value (sint a)) \<and> guest_memory_runtime_map a ?L ?ex (mm_memory st) = (Done (), mm_memory st')) \<or>
     ((\<forall>v. res \<noteq> Done (Value v)) \<and> mm_memory st' = mm_memory st))"
  obtain s1 w1 where s1: "(if ?ex then h_msync (mh_mm H) a ?L w else (None, w)) = (s1, w1)"
    by (cases "if ?ex then h_msync (mh_mm H) a ?L w else (None, w)")
  obtain p1 w2 where p1: "(if rq_mapping_protection q \<noteq> rq_protection q
      then h_mprotect (mh_mm H) a ?L (rq_protection q) w1 else (None, w1)) = (p1, w2)"
    by (cases "if rq_mapping_protection q \<noteq> rq_protection q
      then h_mprotect (mh_mm H) a ?L (rq_protection q) w1 else (None, w1)")
  note run' = run [unfolded mmap_install_def Let_def e prod.case, simplified s1 prod.case]
  have both: ?P
  proof (cases r1)
    case (Done u)
    note run' = run' [unfolded Done outcome.case]
    show ?thesis
    proof (cases s1)
      case None
      show ?thesis
      proof (cases p1)
        case None
        then show ?thesis using run' o ps rm s1 p1 \<open>s1 = None\<close>
          by (cases m) (auto simp: mmap_undo_fields)
      qed (use run' ps s1 p1 None in \<open>auto simp: mmap_undo_fields\<close>)
    qed (use run' ps s1 in \<open>auto simp: mmap_undo_fields\<close>)
  qed (use run' ps in \<open>auto simp: mmap_undo_fields\<close>)
  then show "length (mm_patches st') \<le> MAX_PATCHES" and
    "(res = Done (Value (sint a)) \<and> guest_memory_runtime_map a ?L ?ex (mm_memory st) = (Done (), mm_memory st')) \<or>
     ((\<forall>v. res \<noteq> Done (Value v)) \<and> mm_memory st' = mm_memory st)" by blast+
qed

lemma guard_Inr: "(if c then Inl e else x) = Inr q \<longleftrightarrow> \<not> c \<and> x = Inr q"
  by simp

lemma translated_exec: "translate_protection v = Some p \<Longrightarrow> PROT_EXEC \<in> p \<longleftrightarrow> v AND 4 \<noteq> 0"
  by (auto simp: translate_protection_def split: if_splits)

lemma mmap_request_fields:
  assumes "mmap_request_of H g r = Inr q"
  shows "rq_mapped_length q = align_up (r 1) (mh_page H)" "r 1 \<noteq> 0" "r 1 \<le> UINTPTR_MAX - (mh_page H - 1)"
    "PROT_EXEC \<in> rq_protection q \<longleftrightarrow> r 2 AND 4 \<noteq> 0" "rq_address q = r 0" "rq_length q = r 1"
    "MAP_FIXED \<in> rq_flags q \<longleftrightarrow> r 3 AND LINUX_MAP_FIXED \<noteq> 0"
    "r 3 AND LINUX_MAP_FIXED \<noteq> 0 \<Longrightarrow> guest_memory_runtime_owned (r 0) (rq_mapped_length q) g"
proof -
  obtain p where p: "translate_protection (r 2) = Some p"
    using assms by (cases "translate_protection (r 2)") (simp_all add: mmap_request_of_def)
  note d = assms [unfolded mmap_request_of_def Let_def p option.case guard_Inr sum.inject]
  then show "rq_mapped_length q = align_up (r 1) (mh_page H)" "rq_address q = r 0" "rq_length q = r 1"
    by (elim conjE, hypsubst, simp)+
  from d show "r 1 \<noteq> 0" by blast
  from d show "r 1 \<le> UINTPTR_MAX - (mh_page H - 1)" unfolding not_less [symmetric] by blast
  from d show "PROT_EXEC \<in> rq_protection q \<longleftrightarrow> r 2 AND 4 \<noteq> 0"
    unfolding translated_exec [OF p, symmetric] by (elim conjE, hypsubst, simp)
  from d show "MAP_FIXED \<in> rq_flags q \<longleftrightarrow> r 3 AND LINUX_MAP_FIXED \<noteq> 0"
    by (elim conjE, hypsubst) (simp del: not_less)
  show "guest_memory_runtime_owned (r 0) (rq_mapped_length q) g" if "r 3 AND LINUX_MAP_FIXED \<noteq> 0"
    using d that by (elim conjE, hypsubst, simp)
qed

lemma request_no_value:
  "mmap_request_of H g r = Inl e \<Longrightarrow> e \<noteq> Value v"
  by (auto simp: mmap_request_of_def Let_def split: option.splits if_splits)

lemma copy_no_value: "fst (mmap_copy H q a w) \<noteq> Done (Some (Value v))"
  by (simp add: mmap_copy_def Let_def case_prod_beta split: sum.split outcome.split)

text \<open>The effect of \<open>mmap2\<close> on the tables: a new owned range inside the guest, or none.\<close>

lemma mmap2_cases:
  assumes ok: "mm_ok st" and run: "linux_mmap2 H r st = (res, st')"
  shows "length (mm_patches st') \<le> MAX_PATCHES" and
    "(\<exists>a. res = Done (Value (sint a)) \<and> GUEST_MIN_ADDRESS \<le> a \<and> a < GUEST_MAX_ADDRESS \<and>
        align_up (r 1) (mh_page H) \<le> GUEST_MAX_ADDRESS - a \<and>
        guest_memory_runtime_map a (align_up (r 1) (mh_page H)) (r 2 AND 4 \<noteq> 0) (mm_memory st) =
          (Done (), mm_memory st')) \<or>
     ((\<forall>v. res \<noteq> Done (Value v)) \<and> mm_memory st' = mm_memory st)"
proof -
  have len: "length (mm_patches st) \<le> MAX_PATCHES" using ok by (simp add: mm_ok_def)
  have ok': "mm_ok (st\<lparr>mm_world := w\<rparr>)" for w using ok by (simp add: mm_ok_def)
  let ?P = "\<lambda>res st'. length (mm_patches st') \<le> MAX_PATCHES \<and>
    ((\<exists>a. res = Done (Value (sint a)) \<and> GUEST_MIN_ADDRESS \<le> a \<and> a < GUEST_MAX_ADDRESS \<and>
        align_up (r 1) (mh_page H) \<le> GUEST_MAX_ADDRESS - a \<and>
        guest_memory_runtime_map a (align_up (r 1) (mh_page H)) (r 2 AND 4 \<noteq> 0) (mm_memory st) =
          (Done (), mm_memory st')) \<or>
     ((\<forall>v. res \<noteq> Done (Value v)) \<and> mm_memory st' = mm_memory st))"
  have "?P res st'"
  proof (cases "mmap_request_of H (mm_memory st) r")
    case (Inl e)
    then show ?thesis using run len request_no_value [OF Inl] by (auto simp: linux_mmap2_def)
  next
    case (Inr q)
    note f = mmap_request_fields [OF Inr]
    obtain m w where mm: "h_mmap (mh_mm H) (rq_address q) (rq_length q) (rq_mapping_protection q) (rq_flags q)
        (if rq_copy q then -1 else rq_descriptor q) (if rq_copy q then 0 else rq_offset q) (mm_world st) = (m, w)"
      by (cases "h_mmap (mh_mm H) (rq_address q) (rq_length q) (rq_mapping_protection q) (rq_flags q)
        (if rq_copy q then -1 else rq_descriptor q) (if rq_copy q then 0 else rq_offset q) (mm_world st)")
    show ?thesis
    proof (cases m)
      case (Inl e)
      then show ?thesis using run len mm Inr by (auto simp: linux_mmap2_def)
    next
      case a: (Inr a)
      show ?thesis
      proof (cases "a < GUEST_MIN_ADDRESS \<or> a \<ge> GUEST_MAX_ADDRESS \<or> rq_mapped_length q > GUEST_MAX_ADDRESS - a")
        case True
        then show ?thesis using run len mm Inr a by (simp add: linux_mmap2_def Let_def) auto
      next
        case False
        obtain c w2 where c: "(if rq_copy q then mmap_copy H q a w else (Done None, w)) = (c, w2)"
          by (cases "if rq_copy q then mmap_copy H q a w else (Done None, w)")
        have nv: "c \<noteq> Done (Some (Value v))" for v
          using c copy_no_value [of H q a w v] by (auto split: if_splits)
        show ?thesis
        proof (cases "c = Done None")
          case True
          then have inst: "mmap_install H q a (st\<lparr>mm_world := w2\<rparr>) = (res, st')"
            using run mm Inr a False c by (simp add: linux_mmap2_def Let_def)
          show ?thesis
            using mmap_install_cases [OF ok' inst] False f(1,4) by (auto simp: not_less not_le)
        next
          case None: False
          then show ?thesis
            using run mm Inr a False c len nv
            by (auto simp: linux_mmap2_def Let_def split: outcome.splits option.splits)
        qed
      qed
    qed
  qed
  then show "length (mm_patches st') \<le> MAX_PATCHES" and
    "(\<exists>a. res = Done (Value (sint a)) \<and> GUEST_MIN_ADDRESS \<le> a \<and> a < GUEST_MAX_ADDRESS \<and>
        align_up (r 1) (mh_page H) \<le> GUEST_MAX_ADDRESS - a \<and>
        guest_memory_runtime_map a (align_up (r 1) (mh_page H)) (r 2 AND 4 \<noteq> 0) (mm_memory st) =
          (Done (), mm_memory st')) \<or>
     ((\<forall>v. res \<noteq> Done (Value v)) \<and> mm_memory st' = mm_memory st)" by blast+
qed

lemma mprotect_undo_fields:
  "mm_memory (mprotect_undo H k st) = mm_memory st"
  "length (mm_patches (mprotect_undo H k st)) \<le> length (mm_patches st)"
  using rollback_bound [of k "mm_patches st" "w_mem (mm_world st)"]
  by (simp_all add: mprotect_undo_def case_prod_beta)

lemma mprotect_patch_fields:
  assumes len: "length (mm_patches st) \<le> MAX_PATCHES" and run: "mprotect_patch H a n p st = (r, st')"
  shows "mm_memory st' = mm_memory st" "length (mm_patches st') \<le> MAX_PATCHES"
proof -
  obtain e1 w1 where e1: "h_mprotect (mh_mm H) a n (p \<union> {PROT_READ, PROT_WRITE}) (mm_world st) = (e1, w1)"
    by (cases "h_mprotect (mh_mm H) a n (p \<union> {PROT_READ, PROT_WRITE}) (mm_world st)")
  obtain r1 ps m where pr: "arm_patch_range a n (mm_patches st, w_mem w1) = (r1, ps, m)"
    by (cases "arm_patch_range a n (mm_patches st, w_mem w1)")
  have ps: "length ps \<le> MAX_PATCHES"
    using patch_range_bound [of "(mm_patches st, w_mem w1)" a n] len pr by simp
  note u = order_trans [OF mprotect_undo_fields(2)]
  have "mm_memory st' = mm_memory st \<and> length (mm_patches st') \<le> MAX_PATCHES"
    using run len ps unfolding mprotect_patch_def Let_def e1 prod.case pr
    by (auto simp: mprotect_undo_fields(1) intro!: u split: option.splits outcome.splits prod.splits)
  then show "mm_memory st' = mm_memory st" "length (mm_patches st') \<le> MAX_PATCHES" by blast+
qed

lemma mprotect_owned_cases:
  assumes ok: "mm_ok st" and run: "mprotect_owned H a n prot st = (res, st')"
  shows "length (mm_patches st') \<le> MAX_PATCHES" and
    "mm_memory st' = mm_memory st \<or>
     res = Done (Value 0) \<and>
     guest_memory_runtime_protect a n (PROT_EXEC \<in> prot) (mm_memory st) = (Done True, mm_memory st')"
proof -
  let ?ex = "PROT_EXEC \<in> prot"
  let ?P = "length (mm_patches st') \<le> MAX_PATCHES \<and> (mm_memory st' = mm_memory st \<or>
     res = Done (Value 0) \<and> guest_memory_runtime_protect a n ?ex (mm_memory st) = (Done True, mm_memory st'))"
  have len: "length (mm_patches st) \<le> MAX_PATCHES" and reg: "registry_ok (runtime_mappings (mm_memory st))"
    using ok by (auto simp: mm_ok_def)
  obtain r1 st1 where p1: "(if ?ex then mprotect_patch H a n prot st else (None, st)) = (r1, st1)"
    by (cases "if ?ex then mprotect_patch H a n prot st else (None, st)")
  have f: "mm_memory st1 = mm_memory st" "length (mm_patches st1) \<le> MAX_PATCHES"
    using p1 len mprotect_patch_fields [OF len, of H a n prot r1 st1] by (auto split: if_splits)
  obtain r2 g where pr: "guest_memory_runtime_protect a n ?ex (mm_memory st) = (r2, g)"
    by (cases "guest_memory_runtime_protect a n ?ex (mm_memory st)")
  obtain e2 w2 where e2: "h_mprotect (mh_mm H) a n prot (mm_world st1) = (e2, w2)"
    by (cases "h_mprotect (mh_mm H) a n prot (mm_world st1)")
  note o = runtime_protect_outcome(2) [OF reg pr]
  note u = order_trans [OF mprotect_undo_fields(2)]
  note run' = run [unfolded mprotect_owned_def Let_def p1 prod.case e2]
  have ?P
  proof (cases r1)
    case None
    show ?thesis
    proof (cases e2)
      case (Some e)
      then show ?thesis using run' f None by (auto simp: mprotect_undo_fields(1) intro!: u split: if_splits)
    next
      case None
      then show ?thesis using run' f \<open>r1 = None\<close> o pr by auto
    qed
  qed (use run' f in simp)
  then show "length (mm_patches st') \<le> MAX_PATCHES" and
    "mm_memory st' = mm_memory st \<or>
     res = Done (Value 0) \<and> guest_memory_runtime_protect a n ?ex (mm_memory st) = (Done True, mm_memory st')"
    by blast+
qed

lemma mprotect_cases:
  assumes ok: "mm_ok st" and run: "linux_mprotect_runtime H a n p st = (res, st')"
  shows "length (mm_patches st') \<le> MAX_PATCHES" and
    "mm_memory st' = mm_memory st \<or>
     res = Done (Value 0) \<and>
     guest_memory_runtime_protect a (align_up n (mh_page H)) (p AND 4 \<noteq> 0) (mm_memory st) = (Done True, mm_memory st')"
proof -
  let ?L = "align_up n (mh_page H)"
  let ?P = "length (mm_patches st') \<le> MAX_PATCHES \<and> (mm_memory st' = mm_memory st \<or>
     res = Done (Value 0) \<and>
     guest_memory_runtime_protect a ?L (p AND 4 \<noteq> 0) (mm_memory st) = (Done True, mm_memory st'))"
  have len: "length (mm_patches st) \<le> MAX_PATCHES" using ok by (auto simp: mm_ok_def)
  have ?P
  proof (cases "translate_protection p")
    case None
    then show ?thesis using run len by (simp add: linux_mprotect_runtime_def Let_def)
  next
    case (Some prot)
    show ?thesis
    proof (cases "\<not> (n = 0 \<or> a AND (mh_page H - 1) \<noteq> 0 \<or> n > UINTPTR_MAX - (mh_page H - 1)) \<and>
        guest_memory_runtime_owned a ?L (mm_memory st)")
      case False
      then show ?thesis using run len unfolding linux_mprotect_runtime_def Let_def Some option.case
        by (auto split: if_splits option.splits prod.splits)
    next
      case True
      then have "mprotect_owned H a ?L prot st = (res, st')"
        using run by (simp add: linux_mprotect_runtime_def Let_def Some)
      from mprotect_owned_cases [OF ok this] show ?thesis using translated_exec [OF Some] by simp
    qed
  qed
  then show "length (mm_patches st') \<le> MAX_PATCHES" and
    "mm_memory st' = mm_memory st \<or>
     res = Done (Value 0) \<and>
     guest_memory_runtime_protect a ?L (p AND 4 \<noteq> 0) (mm_memory st) = (Done True, mm_memory st')" by blast+
qed

lemma munmap_cases:
  assumes "mm_ok st" and "linux_munmap_runtime H stk a n st = (res, st')"
  shows "length (mm_patches st') \<le> MAX_PATCHES" and
    "mm_memory st' = mm_memory st \<or> mm_memory st' = guest_memory_runtime_unmap a (align_up n (mh_page H)) (mm_memory st)"
  using assms forget_bound [of "mm_patches st"]
  by (auto simp: mm_ok_def linux_munmap_runtime_def Let_def split: if_splits prod.splits option.splits bool.splits)

lemma mm_okI:
  assumes "mm_ok st" "length (mm_patches st') \<le> MAX_PATCHES" "registry_ok (runtime_mappings (mm_memory st'))"
    and "\<And>x. owner (runtime_mappings (mm_memory st')) x \<noteq> None \<Longrightarrow>
      owner (runtime_mappings (mm_memory st)) x \<noteq> None \<or> GUEST_MIN_ADDRESS \<le> x \<and> x < GUEST_MAX_ADDRESS"
  shows "mm_ok st'"
  using assms unfolding mm_ok_def owned_in_range_def by blast

lemma same_segmentsI: "mm_memory st' = mm_memory st\<lparr>runtime_mappings := ms\<rparr> \<Longrightarrow> same_segments st st'"
  by (simp add: same_segments_def)

interpretation mmap2_call: memory_call "linux_mmap2 H"
proof
  fix st :: "'a mm_state" and a r st'
  assume ok: "mm_ok st" and run: "linux_mmap2 H a st = (r, st')"
  note len = mmap2_cases(1) [OF ok run]
  from mmap2_cases(2) [OF ok run] show "mm_ok st' \<and> same_segments st st'"
  proof
    assume "\<exists>b. r = Done (Value (sint b)) \<and> GUEST_MIN_ADDRESS \<le> b \<and> b < GUEST_MAX_ADDRESS \<and>
        align_up (a 1) (mh_page H) \<le> GUEST_MAX_ADDRESS - b \<and>
        guest_memory_runtime_map b (align_up (a 1) (mh_page H)) (a 2 AND 4 \<noteq> 0) (mm_memory st) = (Done (), mm_memory st')"
    then obtain b where b: "GUEST_MIN_ADDRESS \<le> b" "b < GUEST_MAX_ADDRESS"
      "align_up (a 1) (mh_page H) \<le> GUEST_MAX_ADDRESS - b"
      and m: "guest_memory_runtime_map b (align_up (a 1) (mh_page H)) (a 2 AND 4 \<noteq> 0) (mm_memory st) = (Done (), mm_memory st')"
      by blast
    note o = runtime_map_outcome [OF _ m]
    have reg: "registry_ok (runtime_mappings (mm_memory st))" using ok by (simp add: mm_ok_def)
    have top: "b + align_up (a 1) (mh_page H) \<le> GUEST_MAX_ADDRESS"
    proof -
      have "unat (GUEST_MAX_ADDRESS - b) = 0x70000000 - unat b" using b(2) by (simp add: unat_sub word_less_nat_alt word_le_nat_alt)
      then have "unat b + unat (align_up (a 1) (mh_page H)) \<le> 0x70000000"
        using b(2,3) by (simp add: word_less_nat_alt word_le_nat_alt)
      then show ?thesis using unat_add_lem [of b "align_up (a 1) (mh_page H)"] by (simp add: word_le_nat_alt)
    qed
    have "mm_ok st'"
      by (rule mm_okI [OF ok len o(1) [OF reg]])
        (use o(3) [OF reg] b(1) top in \<open>auto split: if_splits intro: order_trans less_le_trans\<close>)
    moreover have "same_segments st st'" by (rule same_segmentsI [OF o(4) [OF reg]])
    ultimately show ?thesis by blast
  next
    assume "(\<forall>v. r \<noteq> Done (Value v)) \<and> mm_memory st' = mm_memory st"
    then show ?thesis using ok len by (simp add: mm_ok_def same_segments_def)
  qed
qed

interpretation mprotect_call: memory_call "\<lambda>(a, n, p). linux_mprotect_runtime H a n p"
proof
  fix st :: "'a mm_state" and arg :: "u32 \<times> u32 \<times> u32" and r st'
  assume ok: "mm_ok st" and run0: "(case arg of (a, n, p) \<Rightarrow> linux_mprotect_runtime H a n p) st = (r, st')"
  obtain a n p where run: "linux_mprotect_runtime H a n p st = (r, st')" using run0 by (cases arg) auto
  have reg: "registry_ok (runtime_mappings (mm_memory st))" using ok by (simp add: mm_ok_def)
  note len = mprotect_cases(1) [OF ok run]
  from mprotect_cases(2) [OF ok run] show "mm_ok st' \<and> same_segments st st'"
  proof
    assume "mm_memory st' = mm_memory st"
    then show ?thesis using ok len by (simp add: mm_ok_def same_segments_def)
  next
    assume pr: "r = Done (Value 0) \<and> guest_memory_runtime_protect a (align_up n (mh_page H)) (p AND 4 \<noteq> 0) (mm_memory st) =
        (Done True, mm_memory st')"
    note o = runtime_protect_outcome [OF reg conjunct2 [OF pr]]
    have "owner (runtime_mappings (mm_memory st)) x \<noteq> None"
      if "a \<le> x" "x < a + align_up n (mh_page H)" for x
      using o(4) reg that by (auto simp: guest_memory_runtime_owned_def owned_locked_iff registry_ok_def)
    then have "mm_ok st'" by (intro mm_okI [OF ok len o(1)]) (auto simp: o(3) split: if_splits)
    moreover have "same_segments st st'" using conjunct2 [OF pr]
      by (auto simp: guest_memory_runtime_protect_def split: if_splits outcome.splits intro: same_segmentsI [OF sym])
    ultimately show ?thesis by blast
  qed
qed

interpretation munmap_call: memory_call "\<lambda>(stk, a, n). linux_munmap_runtime H stk a n"
proof
  fix st :: "'a mm_state" and arg :: "u32 \<times> u32 \<times> u32" and r st'
  assume ok: "mm_ok st" and run0: "(case arg of (stk, a, n) \<Rightarrow> linux_munmap_runtime H stk a n) st = (r, st')"
  obtain stk a n where run: "linux_munmap_runtime H stk a n st = (r, st')" using run0 by (cases arg) auto
  have reg: "registry_ok (runtime_mappings (mm_memory st))" using ok by (simp add: mm_ok_def)
  note len = munmap_cases(1) [OF ok run] and o = runtime_unmap_outcome [OF reg, of a "align_up n (mh_page H)"]
  from munmap_cases(2) [OF ok run] show "mm_ok st' \<and> same_segments st st'"
  proof
    assume "mm_memory st' = mm_memory st"
    then show ?thesis using ok len by (simp add: mm_ok_def same_segments_def)
  next
    assume m: "mm_memory st' = guest_memory_runtime_unmap a (align_up n (mh_page H)) (mm_memory st)"
    have "owner (runtime_mappings (mm_memory st')) x = owner (runtime_mappings (mm_memory st)) x \<or>
        owner (runtime_mappings (mm_memory st')) x = None" for x
      using o(2) unfolding m by (metis (no_types, lifting))
    moreover have "registry_ok (runtime_mappings (mm_memory st'))" using o(1) m by simp
    ultimately have "mm_ok st'" by (intro mm_okI [OF ok len]) metis+
    moreover have "same_segments st st'" using o(3) unfolding m [symmetric] by (rule same_segmentsI)
    ultimately show ?thesis by blast
  qed
qed

section \<open>Properties\<close>

datatype mm_call = Mmap2 "nat \<Rightarrow> u32" | Mprotect u32 u32 u32 | Munmap u32 u32 u32

fun run_call :: "'h mm_host \<Rightarrow> mm_call \<Rightarrow> 'h mm_state \<Rightarrow> sysret outcome \<times> 'h mm_state" where
  "run_call H (Mmap2 r) st = linux_mmap2 H r st"
| "run_call H (Mprotect a n p) st = linux_mprotect_runtime H a n p st"
| "run_call H (Munmap stk a n) st = (case linux_munmap_runtime H stk a n st of (r, st) \<Rightarrow> (Done r, st))"

interpretation calls: memory_call "run_call H"
proof
  fix st :: "'a mm_state" and c r st'
  assume ok: "mm_ok st" and run: "run_call H c st = (r, st')"
  show "mm_ok st' \<and> same_segments st st'"
  proof (cases c)
    case (Mmap2 x)
    then show ?thesis using mmap2_call.keeps [OF ok] run by simp
  next
    case (Mprotect a n p)
    then show ?thesis using mprotect_call.keeps [OF ok, of H "(a, n, p)"] run by simp
  next
    case (Munmap stk a n)
    then show ?thesis using munmap_call.keeps [OF ok, of H "(stk, a, n)"] run by (auto split: prod.splits)
  qed
qed

text \<open>
  C9 (invariant). Whatever the host answers, no sequence of memory calls lets the guest own an
  address outside its range: the registry of runtime mappings stays sorted and free of overlap,
  everything in it lies between \<open>GUEST_MIN_ADDRESS\<close> and \<open>GUEST_MAX_ADDRESS\<close>, the patch table
  stays within its bound, and the segments of the loaded images are untouched.
\<close>

theorem memory_calls_invariant:
  assumes "mm_ok st"
  shows "mm_ok (fold (\<lambda>c st. snd (run_call H c st)) cs st) \<and>
    same_segments st (fold (\<lambda>c st. snd (run_call H c st)) cs st)"
  by (rule calls.keeps_all [OF assms])

text \<open>
  C23 (functional). \<open>mmap2\<close> either returns an address \<open>a\<close> such that the page-rounded length from \<open>a\<close>
  on lies inside the guest's range and exactly these addresses are now owned, executable if
  the call asked for it, or it returns an error and the ownership of no address changes.
\<close>

theorem mmap2_ownership:
  assumes "mm_ok st" and "linux_mmap2 H r st = (res, st')" and L: "L = align_up (r 1) (mh_page H)"
  shows "(\<exists>a. res = Done (Value (sint a)) \<and> GUEST_MIN_ADDRESS \<le> a \<and> unat a + unat L \<le> unat GUEST_MAX_ADDRESS \<and>
      (\<forall>x. owner (runtime_mappings (mm_memory st')) x =
        (if a \<le> x \<and> x < a + L then Some (r 2 AND 4 \<noteq> 0) else owner (runtime_mappings (mm_memory st)) x))) \<or>
    (\<forall>v. res \<noteq> Done (Value v)) \<and> mm_memory st' = mm_memory st"
  using mmap2_cases(2) [OF assms(1,2), folded L]
proof
  assume "\<exists>a. res = Done (Value (sint a)) \<and> GUEST_MIN_ADDRESS \<le> a \<and> a < GUEST_MAX_ADDRESS \<and>
      L \<le> GUEST_MAX_ADDRESS - a \<and>
      guest_memory_runtime_map a L (r 2 AND 4 \<noteq> 0) (mm_memory st) = (Done (), mm_memory st')"
  then obtain a where a: "res = Done (Value (sint a))" "GUEST_MIN_ADDRESS \<le> a" "a < GUEST_MAX_ADDRESS"
      "L \<le> GUEST_MAX_ADDRESS - a"
    and m: "guest_memory_runtime_map a L (r 2 AND 4 \<noteq> 0) (mm_memory st) = (Done (), mm_memory st')" by blast
  have "registry_ok (runtime_mappings (mm_memory st))" using assms(1) by (simp add: mm_ok_def)
  note o = runtime_map_outcome(3) [OF this m, simplified]
  have "unat a + unat L \<le> unat GUEST_MAX_ADDRESS"
    using a(3,4) unat_sub [of a GUEST_MAX_ADDRESS] by (simp add: word_less_nat_alt word_le_nat_alt)
  then show ?thesis using a(1,2) o by blast
qed simp

definition keeps_memory :: "'h mm_host \<Rightarrow> bool" where
  "keeps_memory H \<longleftrightarrow> (\<forall>a n p w. w_mem (snd (h_mprotect (mh_mm H) a n p w)) = w_mem w) \<and>
     (\<forall>a n w. w_mem (snd (h_msync (mh_mm H) a n w)) = w_mem w)"

lemma keeps_memoryD:
  "keeps_memory H \<Longrightarrow> h_mprotect (mh_mm H) a n p w = (e, w') \<Longrightarrow> w_mem w' = w_mem w"
  "keeps_memory H \<Longrightarrow> h_msync (mh_mm H) a n w = (e, w') \<Longrightarrow> w_mem w' = w_mem w"
  unfolding keeps_memory_def by (metis snd_conv)+

lemma patch_words_result: "fst (patch_words as s) = Done () \<or> fst (patch_words as s) = Fail E2BIG"
  by (induction as s rule: patch_words.induct) (auto simp: Let_def)

lemma patch_range_result: "fst (arm_patch_range a n s) = Done () \<or> (\<exists>e. fst (arm_patch_range a n s) = Fail e)"
  using patch_words_result [of "word_addresses a (unat n div 4)" s] by (auto simp: arm_patch_range_def)

lemma rollback_after_patch:
  "arm_patch_range a n (ps, m) = (r, ps', m') \<Longrightarrow> arm_patch_rollback (arm_patch_count ps) (ps', m') = (ps, m)"
  using pl.undo_restores_one [of "(ps, m)" "(a, n)"] by simp

lemma mprotect_patch_effect:
  assumes keep: "keeps_memory H" and run: "mprotect_patch H a n p st = (r, st1)"
  shows "r \<noteq> None \<Longrightarrow> mm_patches st1 = mm_patches st \<and> w_mem (mm_world st1) = w_mem (mm_world st)"
    and "r = None \<Longrightarrow> arm_patch_range a n (mm_patches st, w_mem (mm_world st)) =
      (Done (), mm_patches st1, w_mem (mm_world st1))"
proof -
  obtain e1 w1 where e1: "h_mprotect (mh_mm H) a n (p \<union> {PROT_READ, PROT_WRITE}) (mm_world st) = (e1, w1)"
    by (cases "h_mprotect (mh_mm H) a n (p \<union> {PROT_READ, PROT_WRITE}) (mm_world st)")
  have w1: "w_mem w1 = w_mem (mm_world st)" by (rule keeps_memoryD(1) [OF keep e1])
  obtain r1 ps m where pr: "arm_patch_range a n (mm_patches st, w_mem (mm_world st)) = (r1, ps, m)"
    by (cases "arm_patch_range a n (mm_patches st, w_mem (mm_world st))")
  have r1: "r1 = Done () \<or> (\<exists>e. r1 = Fail e)"
    using patch_range_result [of a n "(mm_patches st, w_mem (mm_world st))"] pr by simp
  obtain e2 w2 where e2: "h_msync (mh_mm H) a n (w1\<lparr>w_mem := m\<rparr>) = (e2, w2)"
    by (cases "h_msync (mh_mm H) a n (w1\<lparr>w_mem := m\<rparr>)")
  have w2: "w_mem w2 = m" using keeps_memoryD(2) [OF keep e2] by simp
  note u = rollback_after_patch [OF pr]
  have last: "w_mem (snd (h_mprotect (mh_mm H) a n p w)) = w_mem w" for w using keep by (simp add: keeps_memory_def)
  note run' = run [unfolded mprotect_patch_def Let_def e1 w1 prod.case pr]
  show "mm_patches st1 = mm_patches st \<and> w_mem (mm_world st1) = w_mem (mm_world st)" if "r \<noteq> None"
    using run' that r1 w1 w2 u last e2 by (cases e1; cases e2) (auto simp: mprotect_undo_def)
  show "arm_patch_range a n (mm_patches st, w_mem (mm_world st)) = (Done (), mm_patches st1, w_mem (mm_world st1))"
    if "r = None"
    using run' that r1 w2 pr e2 by (cases e1; cases e2) auto
qed

text \<open>
  C4 (safety). Making runtime memory executable is safe and all or nothing. On a host whose
  \<open>mprotect\<close> and \<open>msync\<close> do not change memory, a call of \<open>mprotect\<close> with \<open>PROT_EXEC\<close> on owned
  memory that returns 0 leaves no system call instruction and no thread-register read in the
  range, has replaced exactly those words by the trap instruction, and has made the range executable
  for the guest. If it fails, the patch table, memory and the registry are as before, except
  that a full registry (\<open>ENOMEM\<close>) leaves the range patched.
\<close>

theorem mprotect_exec_transaction:
  assumes ok: "mm_ok st" and keep: "keeps_memory H" and exec: "p AND 4 \<noteq> 0"
    and run: "linux_mprotect_runtime H a n p st = (res, st')" and L: "L = align_up n (mh_page H)"
    and owned: "guest_memory_runtime_owned a L (mm_memory st)"
  shows "(res = Done (Value 0) \<longrightarrow>
      (\<forall>x. word_aligned x \<longrightarrow> load32 (w_mem (mm_world st')) x =
        (if a \<le> x \<and> x < a + L \<and> sensitive (load32 (w_mem (mm_world st)) x) then ARM_UDF_TRAP
         else load32 (w_mem (mm_world st)) x)) \<and>
      (\<forall>x. word_aligned x \<and> a \<le> x \<and> x < a + L \<longrightarrow> \<not> sensitive (load32 (w_mem (mm_world st')) x)) \<and>
      guest_memory_is_executable a L (mm_memory st')) \<and>
    (res \<noteq> Done (Value 0) \<longrightarrow> mm_memory st' = mm_memory st \<and>
      (mm_patches st' = mm_patches st \<and> w_mem (mm_world st') = w_mem (mm_world st) \<or>
       res = Done (Translated ENOMEM)))"
proof (cases "\<exists>prot. translate_protection p = Some prot \<and>
    \<not> (n = 0 \<or> a AND (mh_page H - 1) \<noteq> 0 \<or> n > UINTPTR_MAX - (mh_page H - 1))")
  case False
  then have "res = Done (RawHost EINVAL) \<and> st' = st"
    using run unfolding linux_mprotect_runtime_def Let_def
    by (cases "translate_protection p") (auto split: if_splits)
  then show ?thesis by simp
next
  case True
  then obtain prot where prot: "translate_protection p = Some prot"
    and args: "\<not> (n = 0 \<or> a AND (mh_page H - 1) \<noteq> 0 \<or> n > UINTPTR_MAX - (mh_page H - 1))" by blast
  have ex: "PROT_EXEC \<in> prot" using exec translated_exec [OF prot] by simp
  have run1: "mprotect_owned H a L prot st = (res, st')"
    using run owned args unfolding linux_mprotect_runtime_def Let_def prot option.case L by simp
  obtain r1 st1 where p1: "mprotect_patch H a L prot st = (r1, st1)" by (cases "mprotect_patch H a L prot st")
  note pe = mprotect_patch_effect [OF keep p1]
  have len: "length (mm_patches st) \<le> MAX_PATCHES" and reg: "registry_ok (runtime_mappings (mm_memory st))"
    using ok by (auto simp: mm_ok_def)
  note mem1 = mprotect_patch_fields(1) [OF len p1]
  obtain e2 w2 where e2: "h_mprotect (mh_mm H) a L prot (mm_world st1) = (e2, w2)"
    by (cases "h_mprotect (mh_mm H) a L prot (mm_world st1)")
  have w2: "w_mem w2 = w_mem (mm_world st1)" by (rule keeps_memoryD(1) [OF keep e2])
  obtain r2 g where pr: "guest_memory_runtime_protect a L True (mm_memory st) = (r2, g)"
    by (cases "guest_memory_runtime_protect a L True (mm_memory st)")
  note o = runtime_protect_outcome [OF reg pr]
  have nz: "L \<noteq> 0" "L \<le> UINTPTR_MAX - a" using owned by (auto simp: guest_memory_runtime_owned_def not_less)
  have r2: "r2 = Done True \<or> r2 = Fail ENOMEM \<and> g = mm_memory st"
    using o(2,5) owned pr nz by (auto simp: guest_memory_runtime_protect_def not_less split: if_splits outcome.splits)
  note run2 = run1 [unfolded mprotect_owned_def Let_def if_P [OF ex] p1 prod.case mem1 e2]
  show ?thesis
  proof (cases "r1 = None \<and> e2 = None \<and> r2 = Done True")
    case True
    then have res: "res = Done (Value 0)" "st' = st1\<lparr>mm_world := w2, mm_memory := g\<rparr>" using run2 ex pr by simp_all
    note ps = patch_range_success_facts [OF len pe(2)]
    have "guest_memory_is_executable a L g"
      using executable_run [OF o(1) add_guarded_less [OF nz(2,1)]] o(3) True nz
      by (auto simp: guest_memory_is_executable_def not_less)
    then show ?thesis using ps(2,3) True by (simp add: res w2)
  next
    case False
    then show ?thesis
      using run2 ex pr r2 pe w2 mem1 rollback_after_patch [OF pe(2)]
      by (cases r1; cases e2) (auto simp: mprotect_undo_def)
  qed
qed

text \<open>
  A fixed mapping that fails after the host has replaced the old one: the range is unmapped on
  the host but stays owned by the guest.
\<close>

lemma failed_fixed_mmap_still_owned:
  assumes q: "mmap_request_of H (mm_memory st) r = Inr q" "rq_copy q" "r 3 AND LINUX_MAP_FIXED \<noteq> 0"
    and host: "h_mmap (mh_mm H) (r 0) (r 1) (rq_mapping_protection q) (rq_flags q) (-1) 0 (mm_world st) = (Inr (r 0), w)"
      "f_size (mh_file H) (rq_descriptor q) w = Inl e"
    and range: "GUEST_MIN_ADDRESS \<le> r 0" "r 0 < GUEST_MAX_ADDRESS" "rq_mapped_length q \<le> GUEST_MAX_ADDRESS - r 0"
  shows "linux_mmap2 H r st = (Done (Translated e),
      st\<lparr>mm_world := snd (h_munmap (mh_mm H) (r 0) (rq_mapped_length q) w)\<rparr>)"
    and "guest_memory_runtime_owned (r 0) (rq_mapped_length q) (mm_memory (snd (linux_mmap2 H r st)))"
proof -
  show run: "linux_mmap2 H r st = (Done (Translated e),
      st\<lparr>mm_world := snd (h_munmap (mh_mm H) (r 0) (rq_mapped_length q) w)\<rparr>)"
    using q host range mmap_request_fields(5,6) [OF q(1)]
    by (simp add: linux_mmap2_def Let_def mmap_copy_def not_less [symmetric])
  show "guest_memory_runtime_owned (r 0) (rq_mapped_length q) (mm_memory (snd (linux_mmap2 H r st)))"
    unfolding run using mmap_request_fields(8) [OF q(1,3)] by simp
qed

section \<open>Witnesses\<close>

text \<open>A host that grants every request at a fixed address and never fails.\<close>

definition easy_host :: "unit mm_host" where
  "easy_host = \<lparr>mh_mm = \<lparr>h_mmap = (\<lambda>a n p fl fd off w. (Inr (if MAP_FIXED \<in> fl then a else 0x40000000), w)),
       h_munmap = (\<lambda>a n w. (None, w)), h_mprotect = (\<lambda>a n p w. (None, w)), h_msync = (\<lambda>a n w. (None, w))\<rparr>,
     mh_file = \<lparr>f_open = (\<lambda>s w. (Inl ENOENT, w)), f_close = (\<lambda>fd w. w), f_size = (\<lambda>fd w. Inl EBADF),
       f_pread = (\<lambda>fd n off w. (Inl EBADF, w)), f_malloc_ok = (\<lambda>n w. True)\<rparr>,
     mh_page = 4096, mh_off_t = id\<rparr>"

definition svc_state :: "unit mm_state" where
  "svc_state = \<lparr>mm_patches = [],
     mm_memory = fresh_memory\<lparr>runtime_mappings := [\<lparr>rm_start = 0x10000, rm_end = 0x11000, rm_executable = False\<rparr>]\<rparr>,
     mm_world = \<lparr>w_host = (), w_mem = svc_page\<rparr>, mm_thread = None\<rparr>"

lemma svc_state_ok: "mm_ok svc_state"
  by (auto simp: mm_ok_def svc_state_def registry_ok_def ordered_def owned_in_range_def owner_def covers_def
      intro: less_le_trans split: if_splits)

definition anon_args :: "nat \<Rightarrow> u32" where
  "anon_args = (\<lambda>i. [0, 5000, 3, 0x22, 0xFFFFFFFF, 0] ! i)"

lemma anon_mapped: "fst (linux_mmap2 easy_host anon_args svc_state) = Done (Value 0x40000000)"
  by code_simp

theorem memory_calls_invariant_witness:
  "mm_ok (fold (\<lambda>c st. snd (run_call easy_host c st)) [Mmap2 anon_args, Munmap 0 0x10000 0x1000] svc_state)"
  using memory_calls_invariant [OF svc_state_ok] by blast

theorem mmap2_ownership_witness:
  "\<exists>a. fst (linux_mmap2 easy_host anon_args svc_state) = Done (Value (sint a)) \<and>
    owner (runtime_mappings (mm_memory (snd (linux_mmap2 easy_host anon_args svc_state)))) a = Some False"
proof -
  have args: "anon_args 1 = 5000" "anon_args 2 = 3" by (simp_all add: anon_args_def)
  have L: "align_up (anon_args 1) (mh_page easy_host) = 0x2000"
    by (simp add: anon_args_def align_up_def easy_host_def)
  from mmap2_ownership [OF svc_state_ok prod.collapse [symmetric, of "linux_mmap2 easy_host anon_args svc_state"] L [symmetric]] anon_mapped
  obtain a where a: "fst (linux_mmap2 easy_host anon_args svc_state) = Done (Value (sint a))"
    and r: "unat a + unat (0x2000 :: u32) \<le> unat GUEST_MAX_ADDRESS"
    and o: "\<forall>x. owner (runtime_mappings (mm_memory (snd (linux_mmap2 easy_host anon_args svc_state)))) x =
      (if a \<le> x \<and> x < a + 0x2000 then Some (anon_args 2 AND 4 \<noteq> 0) else owner (runtime_mappings (mm_memory svc_state)) x)"
    by auto
  have "a < a + 0x2000" using r unat_add_lem [of a "0x2000"] by (simp add: word_less_nat_alt)
  then show ?thesis using a o [rule_format, of a] by (auto simp: args)
qed

definition word_page_host :: "unit mm_host" where
  "word_page_host = easy_host\<lparr>mh_page := 8\<rparr>"

lemma word_page_run: "fst (linux_mprotect_runtime word_page_host 0x10000 8 5 svc_state) = Done (Value 0)"
proof -
  have own: "guest_memory_runtime_owned 0x10000 8 (mm_memory svc_state)" by code_simp
  have prot: "guest_memory_runtime_protect 0x10000 8 True (mm_memory svc_state) =
      (Done True, snd (guest_memory_runtime_protect 0x10000 8 True (mm_memory svc_state)))" by code_simp
  have L: "align_up 8 8 = 8" by (simp add: align_up_def)
  have host: "h_mprotect (mh_mm word_page_host) a n p w = (None, w)" "h_msync (mh_mm word_page_host) a n w = (None, w)"
    "mh_page word_page_host = 8" for a n p w by (simp_all add: word_page_host_def easy_host_def)
  have tp: "translate_protection 5 = Some {PROT_READ, PROT_EXEC}" by (auto simp: translate_protection_def)
  have st: "mm_patches svc_state = []" "w_mem (mm_world svc_state) = svc_page" by (simp_all add: svc_state_def)
  have patch: "mprotect_patch word_page_host 0x10000 8 {PROT_READ, PROT_EXEC} svc_state =
      (None, snd (mprotect_patch word_page_host 0x10000 8 {PROT_READ, PROT_EXEC} svc_state))"
    "mm_memory (snd (mprotect_patch word_page_host 0x10000 8 {PROT_READ, PROT_EXEC} svc_state)) = mm_memory svc_state"
    by (simp_all add: mprotect_patch_def Let_def host st svc_page_patched)
  have "fst (mprotect_owned word_page_host 0x10000 8 {PROT_READ, PROT_EXEC} svc_state) = Done (Value 0)"
    unfolding mprotect_owned_def Let_def by (subst patch(1)) (simp add: patch(2) host, subst prot, simp)
  then show ?thesis by (simp add: linux_mprotect_runtime_def Let_def tp L own host)
qed

theorem mprotect_exec_transaction_witness:
  "\<not> sensitive (load32 (w_mem (mm_world (snd (linux_mprotect_runtime word_page_host 0x10000 8 5 svc_state)))) 0x10004) \<and>
   guest_memory_is_executable 0x10000 8 (mm_memory (snd (linux_mprotect_runtime word_page_host 0x10000 8 5 svc_state)))"
proof -
  have L: "8 = align_up 8 (mh_page word_page_host)" by (simp add: align_up_def word_page_host_def)
  have k: "keeps_memory word_page_host" by (simp add: keeps_memory_def word_page_host_def easy_host_def)
  have own: "guest_memory_runtime_owned 0x10000 8 (mm_memory svc_state)" by code_simp
  show ?thesis
    using mprotect_exec_transaction [OF svc_state_ok k _ prod.collapse [symmetric, of "linux_mprotect_runtime word_page_host 0x10000 8 5 svc_state"] L own] word_page_run
    by (simp add: word_aligned_def)
qed

end
