(* ===== verification/Linux_Time.thy ===== *)
theory Linux_Time
  imports Linux_Abi Host
begin

text \<open>
  \<open>src/src/linux_time.c\<close>: reading clocks and sleeping. The guest's structures have 32-bit
  fields in the old calls and 64-bit fields in the \<open>time64\<close> calls; the host's clocks are
  parameters.
\<close>

unbundle bit_operations_syntax

section \<open>Host\<close>

datatype host_clock = CLOCK_REALTIME | CLOCK_MONOTONIC | CLOCK_PROCESS_CPUTIME_ID | CLOCK_THREAD_CPUTIME_ID

text \<open>
  A sleep delivers \<open>None\<close> for the result 0 and otherwise its error: the positive result of
  \<open>clock_nanosleep\<close>, or \<open>errno\<close>; and what the structure \<open>left\<close> holds afterwards. The
  failure of \<open>th_time\<close> is the value \<open>(time_t)-1\<close>. \<open>clock_getres\<close> with a null pointer only
  reports whether the clock exists.
\<close>

record 'h time_host =
  th_gettime :: "host_clock \<Rightarrow> 'h world \<Rightarrow> (host_errno + timespec) \<times> 'h world"
  th_getres :: "host_clock \<Rightarrow> 'h world \<Rightarrow> (host_errno + timespec) \<times> 'h world"
  th_clock_nanosleep :: "host_clock \<Rightarrow> bool \<Rightarrow> timespec \<Rightarrow> 'h world \<Rightarrow> (host_errno option \<times> timespec) \<times> 'h world"
  th_nanosleep :: "timespec \<Rightarrow> 'h world \<Rightarrow> (host_errno option \<times> timespec) \<times> 'h world"
  th_time :: "'h world \<Rightarrow> (host_errno + int) \<times> 'h world"
  th_timeofday :: "'h world \<Rightarrow> (host_errno + int \<times> int) \<times> 'h world"

abbreviation (input) LINUX_NR_TIME :: u32 where "LINUX_NR_TIME \<equiv> 13"
abbreviation (input) LINUX_NR_GETTIMEOFDAY :: u32 where "LINUX_NR_GETTIMEOFDAY \<equiv> 78"
abbreviation (input) LINUX_NR_NANOSLEEP :: u32 where "LINUX_NR_NANOSLEEP \<equiv> 162"
abbreviation (input) LINUX_NR_CLOCK_GETTIME :: u32 where "LINUX_NR_CLOCK_GETTIME \<equiv> 263"
abbreviation (input) LINUX_NR_CLOCK_GETRES :: u32 where "LINUX_NR_CLOCK_GETRES \<equiv> 264"
abbreviation (input) LINUX_NR_CLOCK_NANOSLEEP :: u32 where "LINUX_NR_CLOCK_NANOSLEEP \<equiv> 265"
abbreviation (input) LINUX_NR_CLOCK_GETTIME64 :: u32 where "LINUX_NR_CLOCK_GETTIME64 \<equiv> 403"
abbreviation (input) LINUX_NR_CLOCK_GETRES_TIME64 :: u32 where "LINUX_NR_CLOCK_GETRES_TIME64 \<equiv> 406"
abbreviation (input) LINUX_NR_CLOCK_NANOSLEEP_TIME64 :: u32 where "LINUX_NR_CLOCK_NANOSLEEP_TIME64 \<equiv> 407"
abbreviation (input) LINUX_TIMER_ABSTIME :: u32 where "LINUX_TIMER_ABSTIME \<equiv> 1"
abbreviation (input) LONG_MAX :: int where "LONG_MAX \<equiv> 0x7FFFFFFF"
abbreviation (input) INT32_MAX :: int where "INT32_MAX \<equiv> 0x7FFFFFFF"

section \<open>Times in guest memory\<close>

definition map_clock :: "int \<Rightarrow> host_clock option" where
  "map_clock linux_clock =
     (if linux_clock = 0 then Some CLOCK_REALTIME
      else if linux_clock = 1 then Some CLOCK_MONOTONIC
      else if linux_clock = 2 then Some CLOCK_PROCESS_CPUTIME_ID
      else if linux_clock = 3 then Some CLOCK_THREAD_CPUTIME_ID
      else None)"

definition load_time32 :: "mem \<Rightarrow> u32 \<Rightarrow> sysret + timespec" where
  "load_time32 m address =
     (if address = 0 then Inl (RawHost EFAULT)
      else
        let f0 = sint (load32 m address); f1 = sint (load32 m (address + 4)) in
        if f0 < 0 \<or> f1 < 0 \<or> f1 \<ge> 1000000000 then Inl (RawHost EINVAL)
        else Inr \<lparr>tv_sec = f0, tv_nsec = f1\<rparr>)"

definition load_time64 :: "mem \<Rightarrow> u32 \<Rightarrow> sysret + timespec" where
  "load_time64 m address =
     (if address = 0 then Inl (RawHost EFAULT)
      else
        let f0 = sint (load64 m address); f1 = sint (load64 m (address + 8)) in
        if f0 < 0 \<or> f0 > LONG_MAX \<or> f1 < 0 \<or> f1 \<ge> 1000000000 then Inl (RawHost EINVAL)
        else Inr \<lparr>tv_sec = f0, tv_nsec = f1\<rparr>)"

definition store_time32 :: "mem \<Rightarrow> u32 \<Rightarrow> timespec \<Rightarrow> mem" where
  "store_time32 m address t = store_words m address [of_int (tv_sec t), of_int (tv_nsec t)]"

definition store_time64 :: "mem \<Rightarrow> u32 \<Rightarrow> timespec \<Rightarrow> mem" where
  "store_time64 m address t =
     store64 (store64 m address (of_int (tv_sec t))) (address + 8) (of_int (tv_nsec t))"

text \<open>The choice between the two layouts, as the calls make it.\<close>

definition load_time :: "bool \<Rightarrow> mem \<Rightarrow> u32 \<Rightarrow> sysret + timespec" where
  "load_time time64 = (if time64 then load_time64 else load_time32)"

definition store_time :: "bool \<Rightarrow> mem \<Rightarrow> u32 \<Rightarrow> timespec \<Rightarrow> mem" where
  "store_time time64 = (if time64 then store_time64 else store_time32)"

section \<open>The calls\<close>

definition get_clock :: "'h time_host \<Rightarrow> arguments \<Rightarrow> bool \<Rightarrow> bool \<Rightarrow> 'h world \<Rightarrow> sysret \<times> 'h world" where
  "get_clock H args time64 resolution w =
     (case map_clock (sint (args 0)) of None \<Rightarrow> (RawHost EINVAL, w)
      | Some host_clock \<Rightarrow>
          if args 1 = 0 then
            if \<not> resolution then (RawHost EFAULT, w)
            else (case th_getres H host_clock w of
                (Inl e, w) \<Rightarrow> (Translated e, w)
              | (Inr _, w) \<Rightarrow> (Value 0, w))
          else
            (case (if resolution then th_getres H host_clock w else th_gettime H host_clock w) of
               (Inl e, w) \<Rightarrow> (Translated e, w)
             | (Inr v, w) \<Rightarrow>
                 if \<not> time64 \<and> tv_sec v > INT32_MAX then (RawHost EOVERFLOW, w)
                 else (Value 0, w\<lparr>w_mem := store_time time64 (w_mem w) (args 1) v\<rparr>)))"

text \<open>The end of \<open>sleep_clock\<close>, from the load of the request on.\<close>

definition sleep_for ::
  "(timespec \<Rightarrow> 'h world \<Rightarrow> (host_errno option \<times> timespec) \<times> 'h world) \<Rightarrow> bool \<Rightarrow> bool \<Rightarrow> u32 \<Rightarrow> u32 \<Rightarrow>
    'h world \<Rightarrow> sysret \<times> 'h world" where
  "sleep_for sleep time64 absolute request remainder w =
     (case load_time time64 (w_mem w) request of
        Inl r \<Rightarrow> (r, w)
      | Inr wanted \<Rightarrow>
          (case sleep wanted w of
             ((None, _), w) \<Rightarrow> (Value 0, w)
           | ((Some e, left), w) \<Rightarrow>
               (Translated e,
                if remainder \<noteq> 0 \<and> \<not> absolute
                then w\<lparr>w_mem := store_time time64 (w_mem w) remainder left\<rparr> else w)))"

definition sleep_clock :: "'h time_host \<Rightarrow> arguments \<Rightarrow> bool \<Rightarrow> bool \<Rightarrow> 'h world \<Rightarrow> sysret \<times> 'h world" where
  "sleep_clock H args time64 clock_call w =
     (if clock_call then
        (case map_clock (sint (args 0)) of None \<Rightarrow> (RawHost EINVAL, w)
         | Some host_clock \<Rightarrow>
             if args 1 AND NOT LINUX_TIMER_ABSTIME \<noteq> 0 then (RawHost EINVAL, w)
             else
               let absolute = (args 1 AND LINUX_TIMER_ABSTIME \<noteq> 0) in
               sleep_for (th_clock_nanosleep H host_clock absolute) time64 absolute (args 2) (args 3) w)
      else sleep_for (th_nanosleep H) time64 False (args 0) (args 1) w)"

definition linux_time :: "'h time_host \<Rightarrow> arguments \<Rightarrow> 'h world \<Rightarrow> sysret \<times> 'h world" where
  "linux_time H args w =
     (case th_time H w of
        (Inl e, w) \<Rightarrow> (Translated e, w)
      | (Inr now, w) \<Rightarrow>
          if now > INT32_MAX then (RawHost EOVERFLOW, w)
          else (Value (sint (of_int now :: u32)),
            if args 0 \<noteq> 0 then w\<lparr>w_mem := store32 (w_mem w) (args 0) (of_int now)\<rparr> else w))"

definition linux_gettimeofday :: "'h time_host \<Rightarrow> arguments \<Rightarrow> 'h world \<Rightarrow> sysret \<times> 'h world" where
  "linux_gettimeofday H args w =
     (if args 0 = 0 \<and> args 1 = 0 then (Value 0, w)
      else case th_timeofday H w of
        (Inl e, w) \<Rightarrow> (Translated e, w)
      | (Inr (sec, usec), w) \<Rightarrow>
          if sec > INT32_MAX then (RawHost EOVERFLOW, w)
          else
            let m = (if args 0 \<noteq> 0 then store_words (w_mem w) (args 0) [of_int sec, of_int usec] else w_mem w);
                m = (if args 1 \<noteq> 0 then memset m (args 1) 0 8 else m)
            in (Value 0, w\<lparr>w_mem := m\<rparr>))"

definition linux_time_syscall :: "'h time_host \<Rightarrow> u32 \<Rightarrow> arguments \<Rightarrow> 'h world \<Rightarrow> sysret \<times> 'h world" where
  "linux_time_syscall H number args w =
     (if number = LINUX_NR_TIME then linux_time H args w
      else if number = LINUX_NR_GETTIMEOFDAY then linux_gettimeofday H args w
      else if number = LINUX_NR_NANOSLEEP then sleep_clock H args False False w
      else if number = LINUX_NR_CLOCK_GETTIME then get_clock H args False False w
      else if number = LINUX_NR_CLOCK_GETRES then get_clock H args False True w
      else if number = LINUX_NR_CLOCK_NANOSLEEP then sleep_clock H args False True w
      else if number = LINUX_NR_CLOCK_GETTIME64 then get_clock H args True False w
      else if number = LINUX_NR_CLOCK_GETRES_TIME64 then get_clock H args True True w
      else if number = LINUX_NR_CLOCK_NANOSLEEP_TIME64 then sleep_clock H args True True w
      else (RawHost ENOSYS, w))"

section \<open>Round trips through guest memory\<close>

definition valid_time :: "timespec \<Rightarrow> bool" where
  "valid_time t \<longleftrightarrow> 0 \<le> tv_sec t \<and> tv_sec t \<le> INT32_MAX \<and> 0 \<le> tv_nsec t \<and> tv_nsec t < 1000000000"

lemma sint_of_small: "0 \<le> n \<Longrightarrow> n \<le> INT32_MAX \<Longrightarrow> sint (of_int n :: u32) = n \<and> sint (of_int n :: u64) = n"
  by (simp add: signed_of_int signed_take_bit_int_eq_self)

lemma time32_fields:
  "load32 (store_time32 m a t) a = of_int (tv_sec t)" "load32 (store_time32 m a t) (a + 4) = of_int (tv_nsec t)"
  using load32_store_words [of 0 "[of_int (tv_sec t), of_int (tv_nsec t)]" m a]
    load32_store_words [of 1 "[of_int (tv_sec t), of_int (tv_nsec t)]" m a]
  by (simp_all add: store_time32_def)

lemma time64_fields:
  "load64 (store_time64 m a t) a = of_int (tv_sec t)" "load64 (store_time64 m a t) (a + 8) = of_int (tv_nsec t)"
proof -
  have "apart (a + 8) 8 a 8" by (simp add: apart_def)
  then show "load64 (store_time64 m a t) a = of_int (tv_sec t)"
    "load64 (store_time64 m a t) (a + 8) = of_int (tv_nsec t)"
    by (simp_all add: store_time64_def load64_store64_apart)
qed

lemma load_store_time:
  assumes "valid_time t" "a \<noteq> 0"
  shows "load_time time64 (store_time time64 m a t) a = Inr t"
proof -
  have s: "0 \<le> tv_sec t" "tv_sec t \<le> INT32_MAX" "0 \<le> tv_nsec t" "tv_nsec t < 1000000000" "tv_nsec t \<le> INT32_MAX"
    using assms(1) by (auto simp: valid_time_def)
  note n = sint_of_small [OF s(1,2)] sint_of_small [OF s(3,5)]
  show ?thesis
    using n s assms(2)
    by (cases time64)
      (simp_all add: load_time_def store_time_def load_time32_def load_time64_def time32_fields time64_fields Let_def)
qed

lemma store_time_outside: "16 \<le> unat (x - a) \<Longrightarrow> store_time time64 m a t x = m x"
  using outside_field [of 8 8 x a]
  by (simp add: store_time_def store_time32_def store_time64_def store_words_outside store64_outside)

lemma load_time_valid: "load_time time64 m a = Inr t \<Longrightarrow> valid_time t"
proof -
  have "sint (load32 m a) \<le> INT32_MAX" using sint_lt [of "load32 m a"] by simp
  then show "load_time time64 m a = Inr t \<Longrightarrow> valid_time t"
    by (auto simp: load_time_def load_time32_def load_time64_def valid_time_def Let_def split: if_splits)
qed

section \<open>Properties\<close>


text \<open>
  A clock is never read wrongly. A call that reports success with a buffer has stored the host's
  seconds and nanoseconds exactly, also in the 32-bit layout; a time that needs more than 31 bits is
  refused there and nothing is written; an unknown clock or a missing buffer is refused
  before the host is asked.
\<close>

theorem clock_read_exact:
  assumes call: "get_clock H args time64 resolution w = (r, w')"
    and host: "host = (\<lambda>c. if resolution then th_getres H c w else th_gettime H c w)"
    and sane: "\<And>c v w1. host c = (Inr v, w1) \<Longrightarrow> 0 \<le> tv_sec v \<and> tv_sec v < 2 ^ 63 \<and> 0 \<le> tv_nsec v \<and> tv_nsec v < 1000000000"
  shows "case map_clock (sint (args 0)) of
      None \<Rightarrow> r = RawHost EINVAL \<and> w' = w
    | Some c \<Rightarrow>
        if args 1 = 0 then \<not> resolution \<longrightarrow> r = RawHost EFAULT \<and> w' = w
        else (case host c of
            (Inl e, w1) \<Rightarrow> r = Translated e \<and> w' = w1
          | (Inr v, w1) \<Rightarrow>
              if \<not> time64 \<and> tv_sec v > INT32_MAX then r = RawHost EOVERFLOW \<and> w' = w1
              else r = Value 0 \<and>
                (if time64
                 then sint (load64 (w_mem w') (args 1)) = tv_sec v \<and> sint (load64 (w_mem w') (args 1 + 8)) = tv_nsec v
                 else sint (load32 (w_mem w') (args 1)) = tv_sec v \<and> sint (load32 (w_mem w') (args 1 + 4)) = tv_nsec v) \<and>
                (\<forall>x. 16 \<le> unat (x - args 1) \<longrightarrow> w_mem w' x = w_mem w1 x))"
proof (cases "map_clock (sint (args 0))")
  case None
  then show ?thesis using call by (simp add: get_clock_def)
next
  case (Some c)
  obtain answer w1 where a: "host c = (answer, w1)" by (cases "host c")
  have run: "(r, w') = (case answer of Inl e \<Rightarrow> (Translated e, w1)
      | Inr v \<Rightarrow> if \<not> time64 \<and> tv_sec v > INT32_MAX then (RawHost EOVERFLOW, w1)
          else (Value 0, w1\<lparr>w_mem := store_time time64 (w_mem w1) (args 1) v\<rparr>))" if "args 1 \<noteq> 0"
    using call that a Some unfolding host by (cases resolution) (auto simp: get_clock_def split: sum.splits)
  have wide: "sint (of_int n :: u64) = n" if "0 \<le> n" "n < 2 ^ 63" for n
    using that by (simp add: signed_of_int signed_take_bit_int_eq_self)
  show ?thesis
  proof (cases "args 1 = 0")
    case True
    then show ?thesis using call Some by (auto simp: get_clock_def)
  next
    case False
    note stored = store_time_outside [of _ _ True, unfolded store_time_def, simplified]
      store_time_outside [of _ _ False, unfolded store_time_def, simplified]
    show ?thesis
    proof (cases answer)
      case (Inl e)
      then show ?thesis using run [OF False] a Some False by simp
    next
      case (Inr v)
      then have v: "0 \<le> tv_sec v" "tv_sec v < 2 ^ 63" "0 \<le> tv_nsec v" "tv_nsec v < 1000000000" using sane a by auto
      then have "tv_nsec v \<le> INT32_MAX" by simp
      then have "sint (of_int (tv_nsec v) :: u32) = tv_nsec v" "sint (of_int (tv_nsec v) :: u64) = tv_nsec v"
        using sint_of_small v(3) by auto
      then show ?thesis
        using run [OF False] Inr a Some False wide [OF v(1,2)] sint_of_small [OF v(1)]
        by (cases time64) (auto simp: store_time_def time32_fields time64_fields stored)
    qed
  qed
qed

section \<open>Witnesses\<close>

definition demo_clock :: "unit time_host" where
  "demo_clock = \<lparr>th_gettime = (\<lambda>c w. (Inr \<lparr>tv_sec = 0x7FFFFFFF, tv_nsec = 5\<rparr>, w)),
     th_getres = (\<lambda>c w. (Inr \<lparr>tv_sec = 0, tv_nsec = 1000000\<rparr>, w)),
     th_clock_nanosleep = (\<lambda>c ab t w. ((Some EINTR, t\<lparr>tv_nsec := 7\<rparr>), w)),
     th_nanosleep = (\<lambda>t w. ((Some EINTR, t\<lparr>tv_nsec := 7\<rparr>), w)),
     th_time = (\<lambda>w. (Inr 0x7FFFFFFF, w)), th_timeofday = (\<lambda>w. (Inr (0x80000000, 0), w))\<rparr>"


theorem clock_read_exact_witness:
  "\<exists>w'. get_clock demo_clock (\<lambda>i. if i = 1 then 64 else 0) False False \<lparr>w_host = (), w_mem = (\<lambda>_. 0)\<rparr> = (Value 0, w') \<and>
     sint (load32 (w_mem w') 64) = 0x7FFFFFFF \<and> sint (load32 (w_mem w') 68) = 5"
proof -
  let ?w = "\<lparr>w_host = (), w_mem = (\<lambda>_. 0)\<rparr> :: unit world"
  let ?args = "(\<lambda>i. if i = 1 then 64 else 0) :: arguments"
  obtain r w' where run: "get_clock demo_clock ?args False False ?w = (r, w')" by (cases "get_clock demo_clock ?args False False ?w")
  have "map_clock (sint (?args 0)) = Some CLOCK_REALTIME" by (simp add: map_clock_def)
  with clock_read_exact [OF run refl] have "r = Value 0 \<and> sint (load32 (w_mem w') 64) = 0x7FFFFFFF \<and> sint (load32 (w_mem w') 68) = 5"
    by (simp add: demo_clock_def)
  then show ?thesis using run by simp
qed

end
