(* ===== verification/Linux_Termios.thy ===== *)
theory Linux_Termios
  imports Linux_Abi Host
begin

text \<open>
  \<open>src/src/linux_termios.c\<close>: the terminal calls of \<open>ioctl\<close>. The Linux \<open>termios\<close> structure and
  the host's have the same flag bits in the masks of the source, but code speeds and
  disabled control characters differently.
\<close>

unbundle bit_operations_syntax

section \<open>Host\<close>

text \<open>
  The host's names for control characters and speeds; their indices and numbers belong to its
  \<open>termios.h\<close>. \<open>cfgetospeed\<close>, \<open>cfsetispeed\<close> and \<open>cfsetospeed\<close> read and write the two speed
  fields; the setters refuse the speeds for which \<open>tt_speed_error\<close> is an error.
\<close>

datatype control_char =
    VINTR | VQUIT | VERASE | VKILL | VEOF | VTIME | VMIN | VSWTCH | VSTART | VSTOP | VSUSP | VEOL
  | VREPRINT | VDISCARD | VWERASE | VLNEXT | VEOL2

datatype baud =
    B0 | B50 | B75 | B110 | B134 | B150 | B200 | B300 | B600 | B1200 | B1800 | B2400 | B4800 | B9600
  | B19200 | B38400 | B57600 | B115200

record host_termios =
  c_iflag :: u32
  c_oflag :: u32
  c_cflag :: u32
  c_lflag :: u32
  c_cc :: "nat \<Rightarrow> u8"
  c_ispeed :: int
  c_ospeed :: int

datatype set_action = TCSANOW | TCSADRAIN | TCSAFLUSH

text \<open>A \<open>struct winsize\<close> is its eight bytes; the flags of \<open>F_GETFL\<close> are a set.\<close>

record 'h tty_host =
  tt_index :: "control_char \<Rightarrow> nat"
  tt_baud :: "baud \<Rightarrow> int"
  tt_speed_error :: "int \<Rightarrow> host_errno"
  tt_getattr :: "int \<Rightarrow> 'h world \<Rightarrow> (host_errno + host_termios) \<times> 'h world"
  tt_setattr :: "int \<Rightarrow> set_action \<Rightarrow> host_termios \<Rightarrow> 'h world \<Rightarrow> host_errno option \<times> 'h world"
  tt_getwinsz :: "int \<Rightarrow> 'h world \<Rightarrow> (host_errno + u8 list) \<times> 'h world"
  tt_setwinsz :: "int \<Rightarrow> u8 list \<Rightarrow> 'h world \<Rightarrow> host_errno option \<times> 'h world"
  tt_nread :: "int \<Rightarrow> 'h world \<Rightarrow> (host_errno + int) \<times> 'h world"
  tt_getfl :: "int \<Rightarrow> 'h world \<Rightarrow> (host_errno + host_oflag set) \<times> 'h world"
  tt_setfl :: "int \<Rightarrow> host_oflag set \<Rightarrow> 'h world \<Rightarrow> host_errno option \<times> 'h world"
  tt_getpgrp :: "int \<Rightarrow> 'h world \<Rightarrow> (host_errno + int) \<times> 'h world"
  tt_setpgrp :: "int \<Rightarrow> int \<Rightarrow> 'h world \<Rightarrow> host_errno option \<times> 'h world"

abbreviation (input) LINUX_TCGETS :: u32 where "LINUX_TCGETS \<equiv> 0x5401"
abbreviation (input) LINUX_TCSETS :: u32 where "LINUX_TCSETS \<equiv> 0x5402"
abbreviation (input) LINUX_TCSETSW :: u32 where "LINUX_TCSETSW \<equiv> 0x5403"
abbreviation (input) LINUX_TCSETSF :: u32 where "LINUX_TCSETSF \<equiv> 0x5404"
abbreviation (input) LINUX_TIOCGPGRP :: u32 where "LINUX_TIOCGPGRP \<equiv> 0x540F"
abbreviation (input) LINUX_TIOCSPGRP :: u32 where "LINUX_TIOCSPGRP \<equiv> 0x5410"
abbreviation (input) LINUX_TIOCGWINSZ :: u32 where "LINUX_TIOCGWINSZ \<equiv> 0x5413"
abbreviation (input) LINUX_TIOCSWINSZ :: u32 where "LINUX_TIOCSWINSZ \<equiv> 0x5414"
abbreviation (input) LINUX_FIONREAD :: u32 where "LINUX_FIONREAD \<equiv> 0x541B"
abbreviation (input) LINUX_FIONBIO :: u32 where "LINUX_FIONBIO \<equiv> 0x5421"
abbreviation (input) QNX_DISABLED_CHARACTER :: u8 where "QNX_DISABLED_CHARACTER \<equiv> 0xFF"

section \<open>The two structures\<close>

record linux_termios =
  lt_input :: u32
  lt_output :: u32
  lt_control :: u32
  lt_local :: u32
  lt_line :: u8
  lt_characters :: "u8 list"

definition store_termios :: "mem \<Rightarrow> u32 \<Rightarrow> linux_termios \<Rightarrow> mem" where
  "store_termios m a t = store_bytes m a
     (concat (map (to_le 4) [lt_input t, lt_output t, lt_control t, lt_local t]) @ lt_line t # lt_characters t)"

definition load_termios :: "mem \<Rightarrow> u32 \<Rightarrow> linux_termios" where
  "load_termios m a = \<lparr>lt_input = load32 m a, lt_output = load32 m (a + 4), lt_control = load32 m (a + 8),
     lt_local = load32 m (a + 12), lt_line = m (a + 16), lt_characters = load_bytes m (a + 17) 19\<rparr>"

definition linux_cc :: "control_char list" where
  "linux_cc = [VINTR, VQUIT, VERASE, VKILL, VEOF, VTIME, VMIN, VSWTCH, VSTART, VSTOP, VSUSP, VEOL, VREPRINT,
     VDISCARD, VWERASE, VLNEXT, VEOL2]"

definition rates :: "baud list" where
  "rates = [B0, B50, B75, B110, B134, B150, B200, B300, B600, B1200, B1800, B2400, B4800, B9600, B19200, B38400]"

definition speed_to_linux :: "'h tty_host \<Rightarrow> int \<Rightarrow> u32" where
  "speed_to_linux H speed =
     (case find (\<lambda>i. speed = tt_baud H (rates ! i)) [0..<length rates] of
        Some i \<Rightarrow> of_nat i
      | None \<Rightarrow>
          if speed = tt_baud H B57600 then 0x1001
          else if speed = tt_baud H B115200 then 0x1002
          else 15)"

definition linux_to_speed :: "'h tty_host \<Rightarrow> u32 \<Rightarrow> int option" where
  "linux_to_speed H control =
     (let encoded = control AND 0x100F in
      if unat encoded < length rates then Some (tt_baud H (rates ! unat encoded))
      else if encoded = 0x1001 then Some (tt_baud H B57600)
      else if encoded = 0x1002 then Some (tt_baud H B115200)
      else None)"

definition termios_to_linux :: "'h tty_host \<Rightarrow> host_termios \<Rightarrow> linux_termios" where
  "termios_to_linux H host =
     \<lparr>lt_input = c_iflag host AND 0x3FFF, lt_output = c_oflag host AND 0xFFFF,
      lt_control = (c_cflag host AND 0xFF0) OR speed_to_linux H (c_ospeed host),
      lt_local = c_lflag host AND 0x8FFF, lt_line = 0,
      lt_characters = map (\<lambda>i. let c = c_cc host (tt_index H (linux_cc ! i)) in
        if i \<noteq> 5 \<and> i \<noteq> 6 \<and> c = QNX_DISABLED_CHARACTER then 0 else c) [0..<length linux_cc] @ [0, 0]\<rparr>"

definition set_characters :: "'h tty_host \<Rightarrow> u8 list \<Rightarrow> (nat \<Rightarrow> u8) \<Rightarrow> nat \<Rightarrow> u8" where
  "set_characters H characters cc =
     fold (\<lambda>i cc. cc(tt_index H (linux_cc ! i) :=
        (if i \<noteq> 5 \<and> i \<noteq> 6 \<and> characters ! i = 0 then QNX_DISABLED_CHARACTER else characters ! i)))
       [0..<length linux_cc] cc"

definition termios_from_linux :: "'h tty_host \<Rightarrow> linux_termios \<Rightarrow> host_termios \<Rightarrow> sysret + host_termios" where
  "termios_from_linux H guest host =
     (case linux_to_speed H (lt_control guest) of None \<Rightarrow> Inl (RawHost EINVAL)
      | Some speed \<Rightarrow>
          if tt_speed_error H speed \<noteq> NoError then Inl (Translated (tt_speed_error H speed))
          else Inr (host\<lparr>c_iflag := lt_input guest AND 0x3FFF, c_oflag := lt_output guest AND 0xFFFF,
            c_cflag := lt_control guest AND 0xFF0, c_lflag := lt_local guest AND 0x8FFF,
            c_cc := set_characters H (lt_characters guest) (c_cc host),
            c_ispeed := speed, c_ospeed := speed\<rparr>))"

section \<open>The calls\<close>

definition termios_get :: "'h tty_host \<Rightarrow> int \<Rightarrow> u32 \<Rightarrow> 'h world \<Rightarrow> sysret \<times> 'h world" where
  "termios_get H fd argument w =
     (if argument = 0 then (RawHost EFAULT, w)
      else case tt_getattr H fd w of
        (Inl e, w) \<Rightarrow> (Translated e, w)
      | (Inr host, w) \<Rightarrow>
          (Value 0, w\<lparr>w_mem := store_termios (w_mem w) argument (termios_to_linux H host)\<rparr>))"

definition set_action_of :: "u32 \<Rightarrow> set_action" where
  "set_action_of request =
     (if request = LINUX_TCSETS then TCSANOW else if request = LINUX_TCSETSW then TCSADRAIN else TCSAFLUSH)"

text \<open>The result of a host call that returns 0 or fails.\<close>

definition host_status :: "host_errno option \<times> 'h world \<Rightarrow> sysret \<times> 'h world" where
  "host_status r = (case r of (None, w) \<Rightarrow> (Value 0, w) | (Some e, w) \<Rightarrow> (Translated e, w))"

definition termios_set :: "'h tty_host \<Rightarrow> int \<Rightarrow> u32 \<Rightarrow> u32 \<Rightarrow> 'h world \<Rightarrow> sysret \<times> 'h world" where
  "termios_set H fd request argument w =
     (if argument = 0 then (RawHost EFAULT, w)
      else case tt_getattr H fd w of
        (Inl e, w) \<Rightarrow> (Translated e, w)
      | (Inr host, w) \<Rightarrow>
          (case termios_from_linux H (load_termios (w_mem w) argument) host of
             Inl r \<Rightarrow> (r, w)
           | Inr host \<Rightarrow> host_status (tt_setattr H fd (set_action_of request) host w)))"

text \<open>\<open>put\<close> stores what a host call delivered.\<close>

definition host_fetch ::
  "(host_errno + 'a) \<times> 'h world \<Rightarrow> ('a \<Rightarrow> mem \<Rightarrow> mem) \<Rightarrow> sysret \<times> 'h world" where
  "host_fetch r put =
     (case r of (Inl e, w) \<Rightarrow> (Translated e, w) | (Inr v, w) \<Rightarrow> (Value 0, w\<lparr>w_mem := put v (w_mem w)\<rparr>))"

definition linux_fionbio :: "'h tty_host \<Rightarrow> int \<Rightarrow> u32 \<Rightarrow> 'h world \<Rightarrow> sysret \<times> 'h world" where
  "linux_fionbio H fd argument w =
     (let requested = load32 (w_mem w) argument in
      case tt_getfl H fd w of
        (Inl e, w) \<Rightarrow> (Translated e, w)
      | (Inr flags, w) \<Rightarrow>
          host_status (tt_setfl H fd (if requested \<noteq> 0 then insert O_NONBLOCK flags else flags - {O_NONBLOCK}) w))"

definition linux_ioctl :: "'h tty_host \<Rightarrow> int \<Rightarrow> u32 \<Rightarrow> u32 \<Rightarrow> 'h world \<Rightarrow> sysret \<times> 'h world" where
  "linux_ioctl H fd request guest_argument w =
     (if request = LINUX_TCGETS then termios_get H fd guest_argument w
      else if request = LINUX_TCSETS \<or> request = LINUX_TCSETSW \<or> request = LINUX_TCSETSF
      then termios_set H fd request guest_argument w
      else if request \<notin> {LINUX_TIOCGWINSZ, LINUX_TIOCSWINSZ, LINUX_FIONREAD, LINUX_FIONBIO, LINUX_TIOCGPGRP, LINUX_TIOCSPGRP}
      then (RawHost ENOTTY, w)
      else if guest_argument = 0 then (RawHost EFAULT, w)
      else if request = LINUX_TIOCGWINSZ
      then host_fetch (tt_getwinsz H fd w) (\<lambda>window m. store_bytes m guest_argument (take 8 window))
      else if request = LINUX_TIOCSWINSZ
      then host_status (tt_setwinsz H fd (load_bytes (w_mem w) guest_argument 8) w)
      else if request = LINUX_FIONREAD
      then host_fetch (tt_nread H fd w) (\<lambda>value m. store32 m guest_argument (of_int value))
      else if request = LINUX_FIONBIO then linux_fionbio H fd guest_argument w
      else if request = LINUX_TIOCGPGRP
      then host_fetch (tt_getpgrp H fd w) (\<lambda>value m. store32 m guest_argument (of_int value))
      else host_status (tt_setpgrp H fd (sint (load32 (w_mem w) guest_argument)) w))"

section \<open>Coding speeds and characters\<close>

text \<open>What the code relies on: the host's control characters and speeds are distinct, and it accepts its own speeds.\<close>

definition tty_ok :: "'h tty_host \<Rightarrow> bool" where
  "tty_ok H \<longleftrightarrow> inj (tt_index H) \<and> inj (tt_baud H) \<and> (\<forall>b. tt_speed_error H (tt_baud H b) = NoError)"

lemma and_or_left: "m AND k = 0 \<Longrightarrow> ((x AND m) OR n) AND k = n AND k" for x m n k :: u32
  by (simp add: bit.conj_disj_distrib2 and.assoc)

lemma and_or_right: "n AND m = 0 \<Longrightarrow> ((x AND m) OR n) AND m = x AND m" for x m n :: u32
  by (simp add: bit.conj_disj_distrib2 and.assoc)

lemma speed_codes:
  assumes "inj (tt_baud H)"
  shows "speed_to_linux H (tt_baud H b) AND 0xFF0 = 0 \<and>
    linux_to_speed H (speed_to_linux H (tt_baud H b)) = Some (tt_baud H b)"
  by (cases b) (simp_all add: speed_to_linux_def linux_to_speed_def rates_def inj_eq [OF assms])

lemma speed_kept:
  assumes "inj (tt_baud H)"
  shows "linux_to_speed H ((x AND 0xFF0) OR speed_to_linux H (tt_baud H b)) = Some (tt_baud H b)"
  using speed_codes [OF assms, of b] and_or_left [of "0xFF0" "0x100F" x "speed_to_linux H (tt_baud H b)"]
  by (simp add: linux_to_speed_def)

lemma fold_update_other: "x \<notin> k ` set is \<Longrightarrow> fold (\<lambda>i f. f(k i := v i)) is f x = f x"
  by (induction "is" arbitrary: f) auto

lemma fold_update_in: "distinct (map k is) \<Longrightarrow> i \<in> set is \<Longrightarrow> fold (\<lambda>i f. f(k i := v i)) is f (k i) = v i"
proof (induction "is" arbitrary: f)
  case (Cons j js)
  show ?case
  proof (cases "i = j")
    case True
    have "k j \<notin> k ` set js" using Cons.prems(1) by simp
    from fold_update_other [OF this, of v "f(k j := v j)"] show ?thesis by (simp only: True fold_Cons o_apply fun_upd_same)
  next
    case False
    then show ?thesis using Cons by (simp only: fold_Cons o_apply list.map distinct.simps list.set insert_iff simp_thms)
  qed
qed simp

lemma linux_cc_facts: "length linux_cc = 17" "distinct linux_cc" "linux_cc ! 5 = VTIME" "linux_cc ! 6 = VMIN"
  by (simp_all add: linux_cc_def)

lemma linux_cc_all: "\<exists>i<17. c = linux_cc ! i"
proof -
  have "c \<in> set linux_cc" by (cases c) (simp_all add: linux_cc_def)
  then show ?thesis by (metis in_set_conv_nth linux_cc_facts(1))
qed

lemma set_character:
  assumes inj: "inj (tt_index H)"
  shows "i < 17 \<Longrightarrow> set_characters H ch cc (tt_index H (linux_cc ! i)) =
    (if i \<noteq> 5 \<and> i \<noteq> 6 \<and> ch ! i = 0 then QNX_DISABLED_CHARACTER else ch ! i)"
    and "x \<notin> range (tt_index H) \<Longrightarrow> set_characters H ch cc x = cc x"
proof -
  have "distinct (map (tt_index H) (map ((!) linux_cc) [0..<length linux_cc]))"
    unfolding map_nth using inj linux_cc_facts(2) by (simp add: distinct_map inj_on_def)
  then have "distinct (map (\<lambda>i. tt_index H (linux_cc ! i)) [0..<length linux_cc])" by (simp add: comp_def)
  note inside = fold_update_in [OF this]
  show "set_characters H ch cc (tt_index H (linux_cc ! i)) =
    (if i \<noteq> 5 \<and> i \<noteq> 6 \<and> ch ! i = 0 then QNX_DISABLED_CHARACTER else ch ! i)" if "i < 17"
    unfolding set_characters_def by (rule inside) (use that in \<open>simp add: linux_cc_facts(1)\<close>)
  show "set_characters H ch cc x = cc x" if "x \<notin> range (tt_index H)"
    unfolding set_characters_def by (rule fold_update_other) (use that in auto)
qed

lemma load_store_termios:
  assumes "length (lt_characters t) = 19"
  shows "load_termios (store_termios m a t) a = t"
proof -
  let ?ws = "concat (map (to_le 4) [lt_input t, lt_output t, lt_control t, lt_local t])"
  let ?bs = "?ws @ lt_line t # lt_characters t"
  have len: "length ?bs = 36" using assms by simp
  have at: "load_bytes (store_termios m a t) (a + of_nat j) n = take n (drop j ?bs)" if "j + n \<le> 36" for j n
    unfolding store_termios_def using load_store_bytes_inside [of j n ?bs m a] that len by simp
  have "load32 (store_termios m a t) (a + of_nat (4 * j)) = [lt_input t, lt_output t, lt_control t, lt_local t] ! j"
    if "j < 4" for j
  proof -
    have "take 4 (drop (4 * j) ?bs) = take 4 (drop (4 * j) ?ws)" using that by simp
    also have "\<dots> = to_le 4 ([lt_input t, lt_output t, lt_control t, lt_local t] ! j)"
      using drop_concat_words [of j "[lt_input t, lt_output t, lt_control t, lt_local t]"] that by simp
    finally show ?thesis using at [of "4 * j" 4] that by (simp add: load32_def)
  qed
  note w = this [of 0] this [of 1] this [of 2] this [of 3]
  have "store_termios m a t (a + 16) = lt_line t"
    using at [of 16 1] by (simp add: load_bytes_def)
  moreover have "load_bytes (store_termios m a t) (a + 17) 19 = lt_characters t"
    using at [of 17 19] assms by simp
  ultimately show ?thesis using w by (simp add: load_termios_def)
qed

section \<open>Properties\<close>


section \<open>Witness\<close>

definition cc_index :: "control_char \<Rightarrow> nat" where
  "cc_index c = length (takeWhile (\<lambda>x. x \<noteq> c) linux_cc)"

definition baud_number :: "baud \<Rightarrow> int" where
  "baud_number b = int (length (takeWhile (\<lambda>x. x \<noteq> b) (rates @ [B57600])))"

definition demo_termios :: host_termios where
  "demo_termios = \<lparr>c_iflag = 0x100, c_oflag = 1, c_cflag = 0x30, c_lflag = 8, c_cc = (\<lambda>i. if i = 3 then 0xFF else 4),
     c_ispeed = 17, c_ospeed = 17\<rparr>"

definition demo_tty :: "unit tty_host" where
  "demo_tty = \<lparr>tt_index = cc_index, tt_baud = baud_number, tt_speed_error = (\<lambda>_. NoError),
     tt_getattr = (\<lambda>fd w. (Inr demo_termios, w)), tt_setattr = (\<lambda>fd a t w. (None, w)),
     tt_getwinsz = (\<lambda>fd w. (Inl ENOTTY, w)), tt_setwinsz = (\<lambda>fd b w. (Some ENOTTY, w)),
     tt_nread = (\<lambda>fd w. (Inr 0, w)), tt_getfl = (\<lambda>fd w. (Inr {}, w)), tt_setfl = (\<lambda>fd f w. (None, w)),
     tt_getpgrp = (\<lambda>fd w. (Inr 1, w)), tt_setpgrp = (\<lambda>fd p w. (None, w))\<rparr>"

lemma demo_tty_ok: "tty_ok demo_tty"
proof -
  have "x = y" if "cc_index x = cc_index y" for x y
    using that by (cases x; cases y) (simp_all add: cc_index_def linux_cc_def)
  moreover have "x = y" if "baud_number x = baud_number y" for x y
    using that by (cases x; cases y) (simp_all add: baud_number_def rates_def)
  ultimately show ?thesis by (simp add: tty_ok_def demo_tty_def inj_def)
qed


end
