(* ===== verification/Linux_Futex.thy ===== *)
theory Linux_Futex
  imports Guest_Thread Host
begin

text \<open>
  \<open>src/src/linux_futex.c\<close>: the list of waiters, deadlines, and the futex operations. The lock
  makes each critical section one step; \<open>futex_wait\<close> has one before and one after the
  thread sleeps on its semaphore, and other threads act in between. The waiter structure
  lives on the waiting thread's stack and is named by the thread's number, as is its
  semaphore.
\<close>

unbundle bit_operations_syntax

section \<open>Deadlines\<close>

definition load_linux_timespec :: "mem \<Rightarrow> u32 \<Rightarrow> timespec option" where
  "load_linux_timespec m guest_timeout =
     (let v0 = sint (load32 m guest_timeout); v1 = sint (load32 m (guest_timeout + 4)) in
      if v0 < 0 \<or> v1 < 0 \<or> v1 \<ge> 1000000000 then None
      else Some \<lparr>tv_sec = v0, tv_nsec = v1\<rparr>)"

definition carry_nsec :: "timespec \<Rightarrow> timespec" where
  "carry_nsec t = (if tv_nsec t \<ge> 1000000000
     then \<lparr>tv_sec = tv_sec t + 1, tv_nsec = tv_nsec t - 1000000000\<rparr> else t)"

text \<open>The clock readings are arguments; \<open>None\<close> is a failing \<open>clock_gettime\<close>.\<close>

definition relative_deadline :: "mem \<Rightarrow> u32 \<Rightarrow> timespec option \<Rightarrow> timespec option" where
  "relative_deadline m guest_timeout now =
     (case load_linux_timespec m guest_timeout of None \<Rightarrow> None
      | Some relative \<Rightarrow>
          (case now of None \<Rightarrow> None
           | Some n \<Rightarrow> Some (carry_nsec
               \<lparr>tv_sec = tv_sec n + tv_sec relative, tv_nsec = tv_nsec n + tv_nsec relative\<rparr>)))"

definition absolute_deadline ::
  "mem \<Rightarrow> u32 \<Rightarrow> bool \<Rightarrow> timespec option \<Rightarrow> timespec option \<Rightarrow> timespec option" where
  "absolute_deadline m guest_timeout realtime monotonic_now realtime_now =
     (case load_linux_timespec m guest_timeout of None \<Rightarrow> None
      | Some guest \<Rightarrow>
          if realtime then Some guest
          else (case (monotonic_now, realtime_now) of
              (Some mon, Some rt) \<Rightarrow>
                if tv_sec guest < tv_sec mon \<or> (tv_sec guest = tv_sec mon \<and> tv_nsec guest \<le> tv_nsec mon)
                then Some rt
                else
                  let seconds = tv_sec guest - tv_sec mon;
                      nanoseconds = tv_nsec guest - tv_nsec mon;
                      (seconds, nanoseconds) = (if nanoseconds < 0 then (seconds - 1, nanoseconds + 1000000000)
                        else (seconds, nanoseconds))
                  in Some (carry_nsec \<lparr>tv_sec = tv_sec rt + seconds, tv_nsec = tv_nsec rt + nanoseconds\<rparr>)
            | _ \<Rightarrow> None))"

section \<open>Waiters\<close>

record futex_waiter =
  fw_id :: nat
  fw_address :: u32
  fw_bitset :: u32
  fw_woken :: bool
  fw_posts :: nat

text \<open>
  The futex list, the states of the threads by number, and guest memory. \<open>fw_posts\<close> is the
  value of the waiter's semaphore.
\<close>

record futex_world =
  futex_waiters :: "futex_waiter list"
  fx_thread :: "nat \<Rightarrow> guest_thread_state option"
  fx_mem :: mem

definition post :: "futex_waiter \<Rightarrow> futex_waiter" where
  "post w = w\<lparr>fw_posts := fw_posts w + 1\<rparr>"

definition linux_futex_after_fork :: "futex_world \<Rightarrow> futex_world" where
  "linux_futex_after_fork x = x\<lparr>futex_waiters := []\<rparr>"

primrec remove_waiter :: "nat \<Rightarrow> futex_waiter list \<Rightarrow> futex_waiter list" where
  "remove_waiter t [] = []"
| "remove_waiter t (w # ws) = (if fw_id w = t then ws else w # remove_waiter t ws)"

text \<open>The loop of \<open>linux_futex_wake\<close>.\<close>

primrec wake_loop :: "u32 \<Rightarrow> u32 \<Rightarrow> int \<Rightarrow> int \<Rightarrow> futex_waiter list \<Rightarrow> int \<times> futex_waiter list" where
  "wake_loop address bitset count woken [] = (woken, [])"
| "wake_loop address bitset count woken (w # ws) =
     (if \<not> woken < count then (woken, w # ws)
      else if fw_address w \<noteq> address \<or> fw_bitset w AND bitset = 0 \<or> fw_woken w
      then (case wake_loop address bitset count woken ws of (r, ws') \<Rightarrow> (r, w # ws'))
      else (case wake_loop address bitset count (woken + 1) ws of
              (r, ws') \<Rightarrow> (r, post (w\<lparr>fw_woken := True\<rparr>) # ws')))"

text \<open>\<open>lock\<close> is the result of \<open>pthread_mutex_lock\<close>.\<close>

definition linux_futex_wake ::
  "host_errno \<Rightarrow> u32 \<Rightarrow> int \<Rightarrow> u32 \<Rightarrow> futex_waiter list \<Rightarrow> sysret \<times> futex_waiter list" where
  "linux_futex_wake lock address count bitset ws =
     (if count < 0 \<or> bitset = 0 then (RawHost EINVAL, ws)
      else if lock \<noteq> NoError then (Translated lock, ws)
      else case wake_loop address bitset count 0 ws of (woken, ws') \<Rightarrow> (Value woken, ws'))"

text \<open>The loop of \<open>futex_requeue\<close>, which delivers how many it woke and how many it moved.\<close>

primrec requeue_loop ::
  "u32 \<Rightarrow> int \<Rightarrow> int \<Rightarrow> u32 \<Rightarrow> int \<Rightarrow> int \<Rightarrow> futex_waiter list \<Rightarrow> int \<times> int \<times> futex_waiter list" where
  "requeue_loop address wake_count requeue_count second woken requeued [] = (woken, requeued, [])"
| "requeue_loop address wake_count requeue_count second woken requeued (w # ws) =
     (if fw_address w \<noteq> address \<or> fw_woken w then
        (case requeue_loop address wake_count requeue_count second woken requeued ws of
           (a, b, ws') \<Rightarrow> (a, b, w # ws'))
      else
        let (w', woken', requeued') =
              (if woken < wake_count then (post (w\<lparr>fw_woken := True\<rparr>), woken + 1, requeued)
               else if requeued < requeue_count then (w\<lparr>fw_address := second\<rparr>, woken, requeued + 1)
               else (w, woken, requeued))
        in if woken' = wake_count \<and> requeued' = requeue_count then (woken', requeued', w' # ws)
           else (case requeue_loop address wake_count requeue_count second woken' requeued' ws of
                   (a, b, ws') \<Rightarrow> (a, b, w' # ws')))"

definition futex_requeue ::
  "host_errno \<Rightarrow> u32 \<Rightarrow> int \<Rightarrow> int \<Rightarrow> u32 \<Rightarrow> bool \<Rightarrow> u32 \<Rightarrow> mem \<Rightarrow> futex_waiter list \<Rightarrow>
    sysret \<times> futex_waiter list" where
  "futex_requeue lock address wake_count requeue_count second_address compare expected m ws =
     (if wake_count < 0 \<or> requeue_count < 0 \<or> second_address = 0 then (RawHost EINVAL, ws)
      else if lock \<noteq> NoError then (Translated lock, ws)
      else if compare \<and> load32 m address \<noteq> expected then (RawHost EAGAIN, ws)
      else case requeue_loop address wake_count requeue_count second_address 0 0 ws of
        (woken, requeued, ws') \<Rightarrow> (Value (woken + requeued), ws'))"

section \<open>Waiting\<close>

text \<open>
  What the host answers to the calls of one \<open>futex_wait\<close>: the two clocks, the initialisation of
  the semaphore, the lock, and what happens while the thread sleeps: the other threads' steps
  and the \<open>errno\<close> with which \<open>sem_wait\<close> or \<open>sem_timedwait\<close> ends (\<open>NoError\<close> for success).
\<close>

record futex_host =
  fh_monotonic :: "timespec option"
  fh_realtime :: "timespec option"
  fh_sem_init :: host_errno
  fh_lock :: host_errno
  fh_sleep :: "timespec option \<Rightarrow> futex_world \<Rightarrow> host_errno \<times> futex_world"

definition futex_deadline :: "futex_host \<Rightarrow> mem \<Rightarrow> u32 \<Rightarrow> nat \<Rightarrow> timespec option option" where
  "futex_deadline H m guest_timeout absolute_clock =
     (if guest_timeout = 0 then Some None
      else map_option Some
        (if absolute_clock \<noteq> 0
         then absolute_deadline m guest_timeout (absolute_clock = 2) (fh_monotonic H) (fh_realtime H)
         else relative_deadline m guest_timeout (fh_realtime H)))"

text \<open>The first critical section: \<open>None\<close> when the thread goes to sleep.\<close>

definition futex_enqueue :: "nat \<Rightarrow> u32 \<Rightarrow> u32 \<Rightarrow> u32 \<Rightarrow> futex_world \<Rightarrow> sysret option \<times> futex_world" where
  "futex_enqueue t address expected bitset x =
     (if load32 (fx_mem x) address \<noteq> expected then (Some (RawHost EAGAIN), x)
      else (None, x\<lparr>futex_waiters :=
                \<lparr>fw_id = t, fw_address = address, fw_bitset = bitset, fw_woken = False, fw_posts = 0\<rparr> # futex_waiters x,
              fx_thread := (fx_thread x)(t := guest_thread_futex_wait_begin t (fx_thread x t))\<rparr>))"

definition waiter_woken :: "nat \<Rightarrow> futex_waiter list \<Rightarrow> bool" where
  "waiter_woken t ws = list_ex (\<lambda>w. fw_id w = t \<and> fw_woken w) ws"

text \<open>The end of \<open>futex_wait\<close>: \<open>error\<close> is what the semaphore call left.\<close>

definition futex_dequeue :: "nat \<Rightarrow> host_errno \<Rightarrow> futex_world \<Rightarrow> sysret \<times> futex_world" where
  "futex_dequeue t error x =
     (case guest_thread_futex_wait_end (fx_thread x t) of
        (interrupted, s) \<Rightarrow>
          let error' = (if interrupted \<and> error = NoError then EINTR else error);
              result = (if waiter_woken t (futex_waiters x) then Value 0
                        else if error' = ETIMEDOUT then LinuxErr 110
                        else if error' = NoError then Value 0 else Translated error')
          in (result, x\<lparr>futex_waiters := remove_waiter t (futex_waiters x),
                fx_thread := (fx_thread x)(t := s)\<rparr>))"

definition futex_wait ::
  "futex_host \<Rightarrow> nat \<Rightarrow> u32 \<Rightarrow> u32 \<Rightarrow> u32 \<Rightarrow> u32 \<Rightarrow> nat \<Rightarrow> futex_world \<Rightarrow> sysret \<times> futex_world" where
  "futex_wait H t address expected guest_timeout bitset absolute_clock x =
     (if bitset = 0 then (RawHost EINVAL, x)
      else case futex_deadline H (fx_mem x) guest_timeout absolute_clock of
        None \<Rightarrow> (RawHost EINVAL, x)
      | Some deadline \<Rightarrow>
          if fh_sem_init H \<noteq> NoError then (Translated (fh_sem_init H), x)
          else if fh_lock H \<noteq> NoError then (Translated (fh_lock H), x)
          else case futex_enqueue t address expected bitset x of
            (Some r, x1) \<Rightarrow> (r, x1)
          | (None, x1) \<Rightarrow> (case fh_sleep H deadline x1 of (error, x2) \<Rightarrow> futex_dequeue t error x2))"

abbreviation LINUX_FUTEX_CMD_MASK :: u32 where "LINUX_FUTEX_CMD_MASK \<equiv> 127"
abbreviation LINUX_FUTEX_BITSET_MATCH_ANY :: u32 where "LINUX_FUTEX_BITSET_MATCH_ANY \<equiv> 0xFFFFFFFF"

definition on_waiters ::
  "(futex_waiter list \<Rightarrow> sysret \<times> futex_waiter list) \<Rightarrow> futex_world \<Rightarrow> sysret \<times> futex_world" where
  "on_waiters f x = (case f (futex_waiters x) of (r, ws) \<Rightarrow> (r, x\<lparr>futex_waiters := ws\<rparr>))"

definition linux_futex ::
  "futex_host \<Rightarrow> nat \<Rightarrow> u32 \<Rightarrow> u32 \<Rightarrow> u32 \<Rightarrow> u32 \<Rightarrow> u32 \<Rightarrow> u32 \<Rightarrow> futex_world \<Rightarrow> sysret \<times> futex_world" where
  "linux_futex H t address operation val guest_timeout second_address bitset x =
     (let command = operation AND LINUX_FUTEX_CMD_MASK;
          flags = operation AND NOT LINUX_FUTEX_CMD_MASK;
          big = (\<lambda>v :: u32. int (unat v) > INT_MAX);
          lock = fh_lock H
      in if flags AND NOT (128 OR 256) \<noteq> 0 then (RawHost EINVAL, x)
         else if operation AND 256 \<noteq> 0 \<and> command \<noteq> 9 then (LinuxErr 38, x)
         else if command = 0 then futex_wait H t address val guest_timeout LINUX_FUTEX_BITSET_MATCH_ANY 0 x
         else if command = 1 then
           if big val then (RawHost EINVAL, x)
           else on_waiters (linux_futex_wake lock address (int (unat val)) LINUX_FUTEX_BITSET_MATCH_ANY) x
         else if command = 3 then
           if big val \<or> big guest_timeout then (RawHost EINVAL, x)
           else on_waiters (futex_requeue lock address (int (unat val)) (int (unat guest_timeout))
                  second_address False 0 (fx_mem x)) x
         else if command = 4 then
           if big val \<or> big guest_timeout then (RawHost EINVAL, x)
           else on_waiters (futex_requeue lock address (int (unat val)) (int (unat guest_timeout))
                  second_address True bitset (fx_mem x)) x
         else if command = 9 then
           futex_wait H t address val guest_timeout bitset (if operation AND 256 \<noteq> 0 then 2 else 1) x
         else if command = 10 then
           if big val then (RawHost EINVAL, x)
           else on_waiters (linux_futex_wake lock address (int (unat val)) bitset) x
         else (LinuxErr 38, x))"

section \<open>What the loops do\<close>

definition matches :: "u32 \<Rightarrow> u32 \<Rightarrow> futex_waiter \<Rightarrow> bool" where
  "matches address bitset w \<longleftrightarrow> fw_address w = address \<and> fw_bitset w AND bitset \<noteq> 0 \<and> \<not> fw_woken w"

text \<open>One waiter before and after: untouched up to its address, or woken with one post.\<close>

definition advanced :: "futex_waiter \<Rightarrow> futex_waiter \<Rightarrow> bool" where
  "advanced w w' \<longleftrightarrow> fw_id w' = fw_id w \<and>
     (fw_woken w' = fw_woken w \<and> fw_posts w' = fw_posts w \<or>
      \<not> fw_woken w \<and> fw_woken w' \<and> fw_posts w' = fw_posts w + 1)"

definition woken_count :: "futex_waiter list \<Rightarrow> int" where
  "woken_count ws = int (length (filter fw_woken ws))"

lemma woken_count_simps [simp]:
  "woken_count [] = 0" "woken_count (w # ws) = (if fw_woken w then 1 else 0) + woken_count ws"
  by (simp_all add: woken_count_def)

lemma advanced_refl: "list_all2 advanced ws ws"
  by (simp add: list_all2_refl advanced_def)

lemma wake_loop_result:
  "k \<le> c \<Longrightarrow> fst (wake_loop a b c k ws) = min c (k + int (length (filter (matches a b) ws)))"
  by (induction ws arbitrary: k) (auto simp: matches_def case_prod_beta)

lemma wake_loop_advances:
  "list_all2 advanced ws (snd (wake_loop a b c k ws)) \<and>
    woken_count (snd (wake_loop a b c k ws)) = woken_count ws + (fst (wake_loop a b c k ws) - k)"
  by (induction ws arbitrary: k)
    (auto simp: advanced_def post_def list_all2_refl case_prod_beta)

lemma wake_loop_chosen:
  "k \<le> c \<Longrightarrow> map (\<lambda>(w, w'). fw_id w) (filter (\<lambda>(w, w'). w' \<noteq> w) (zip ws (snd (wake_loop a b c k ws)))) =
    take (nat (c - k)) (map fw_id (filter (matches a b) ws))"
proof (induction ws arbitrary: k)
  case (Cons w ws)
  have same: "filter (\<lambda>(w, w'). w' \<noteq> w) (zip us us) = []" for us :: "futex_waiter list"
    by (induction us) auto
  have diff: "post (w\<lparr>fw_woken := True\<rparr>) \<noteq> w"
    by (cases w) (simp add: post_def)
  show ?case
  proof (cases "k < c")
    case True
    then have n: "nat (c - k) = Suc (nat (c - (k + 1)))" by simp
    show ?thesis
    proof (cases "matches a b w")
      case m: True
      then have "wake_loop a b c k (w # ws) =
          (fst (wake_loop a b c (k + 1) ws), post (w\<lparr>fw_woken := True\<rparr>) # snd (wake_loop a b c (k + 1) ws))"
        using True by (auto simp: matches_def split: prod.split)
      then show ?thesis using Cons.IH [of "k + 1"] True m diff n by simp
    next
      case m: False
      then have "wake_loop a b c k (w # ws) = (fst (wake_loop a b c k ws), w # snd (wake_loop a b c k ws))"
        using True by (auto simp: matches_def split: prod.split)
      then show ?thesis using Cons.IH [OF Cons.prems] m by simp
    qed
  next
    case False
    then show ?thesis using Cons.prems same by simp
  qed
qed simp

lemma requeue_loop_advances:
  "requeue_loop a wc rc second p q ws = (p', q', ws') \<Longrightarrow>
    list_all2 advanced ws ws' \<and> woken_count ws' = woken_count ws + (p' - p)"
proof (induction ws arbitrary: p q p' q' ws')
  case (Cons w ws)
  show ?case
  proof (cases "fw_address w \<noteq> a \<or> fw_woken w")
    case True
    then show ?thesis using Cons by (auto simp: advanced_def split: prod.splits)
  next
    case False
    define triple where "triple = (if p < wc then (post (w\<lparr>fw_woken := True\<rparr>), p + 1, q)
               else if q < rc then (w\<lparr>fw_address := second\<rparr>, p, q + 1) else (w, p, q))"
    obtain v p1 q1 where triple: "triple = (v, p1, q1)" by (cases triple)
    have v: "advanced w v" "(if fw_woken v then 1 else 0) = p1 - p"
      using triple False by (auto simp: triple_def advanced_def post_def split: if_splits)
    have run: "(if p1 = wc \<and> q1 = rc then (p1, q1, v # ws)
        else (case requeue_loop a wc rc second p1 q1 ws of (x, y, us) \<Rightarrow> (x, y, v # us))) = (p', q', ws')"
      using Cons.prems False triple unfolding triple_def by (simp add: Let_def split: if_splits)
    show ?thesis
    proof (cases "p1 = wc \<and> q1 = rc")
      case True
      then show ?thesis using run v False advanced_refl by auto
    next
      case again: False
      obtain us where us: "requeue_loop a wc rc second p1 q1 ws = (p', q', us)" "ws' = v # us"
        using run again by (auto split: prod.splits)
      then show ?thesis using Cons.IH [OF us(1)] v False by auto
    qed
  qed
qed simp

text \<open>
  \<open>linux_futex_wake\<close> wakes as many of the waiters on the address with a common
  bit as there are, up to the count; it takes them in list order, which is the most recent
  waiter first; it reports their number and changes no other waiter.
\<close>

theorem futex_wake_exact:
  assumes "0 \<le> count" and "bitset \<noteq> 0"
  shows "\<exists>ws'. linux_futex_wake NoError address count bitset ws =
      (Value (min count (int (length (filter (matches address bitset) ws)))), ws') \<and>
    length ws' = length ws \<and>
    map (\<lambda>(w, w'). fw_id w) (filter (\<lambda>(w, w'). w' \<noteq> w) (zip ws ws')) =
      take (nat count) (map fw_id (filter (matches address bitset) ws))"
proof -
  obtain r ws' where run: "wake_loop address bitset count 0 ws = (r, ws')" by fastforce
  have "r = min count (int (length (filter (matches address bitset) ws)))"
    using wake_loop_result [OF assms(1), of address bitset ws] run by simp
  moreover have "length ws' = length ws"
    using wake_loop_advances [of ws address bitset count 0] run by (auto dest: list_all2_lengthD)
  moreover have "map (\<lambda>(w, w'). fw_id w) (filter (\<lambda>(w, w'). w' \<noteq> w) (zip ws ws')) =
      take (nat count) (map fw_id (filter (matches address bitset) ws))"
    using wake_loop_chosen [OF assms(1), of ws address bitset] run by simp
  ultimately show ?thesis using assms run by (auto simp: linux_futex_wake_def)
qed

section \<open>Interleavings of futex operations\<close>

datatype futex_event =
    Slept nat
  | Woke int
  | Requeued int int
  | Signalled nat
  | Returned nat sysret
  | Stored

text \<open>
  The steps of a system of threads: a thread goes to sleep, another wakes or requeues
  waiters, a signal arrives at a thread, a sleeping thread's semaphore call ends (with success
  only when the semaphore has been posted, with an error at any time) and \<open>futex_wait\<close> returns,
  or a thread writes to memory.
\<close>

inductive futex_step :: "futex_world \<Rightarrow> futex_event \<Rightarrow> futex_world \<Rightarrow> bool" where
  sleeps: "fx_thread x t = Some s \<Longrightarrow> t \<notin> fw_id ` set (futex_waiters x) \<Longrightarrow>
    futex_enqueue t address expected bitset x = (None, y) \<Longrightarrow> futex_step x (Slept t) y"
| wakes: "linux_futex_wake NoError address count bitset (futex_waiters x) = (Value r, ws) \<Longrightarrow>
    futex_step x (Woke r) (x\<lparr>futex_waiters := ws\<rparr>)"
| requeues: "futex_requeue NoError address wc rc second compare expected (fx_mem x) (futex_waiters x) = (Value (p + q), ws) \<Longrightarrow>
    requeue_loop address wc rc second 0 0 (futex_waiters x) = (p, q, ws) \<Longrightarrow>
    futex_step x (Requeued p q) (x\<lparr>futex_waiters := ws\<rparr>)"
| signalled: "fx_thread x t = Some s \<Longrightarrow> guest_thread_signal_pending n info (Some s) = (effects, s') \<Longrightarrow>
    futex_step x (Signalled t) (x\<lparr>fx_thread := (fx_thread x)(t := s'),
      futex_waiters := map (\<lambda>w. if SemPost (fw_id w) \<in> set effects then post w else w) (futex_waiters x)\<rparr>)"
| returns: "w \<in> set (futex_waiters x) \<Longrightarrow> fw_id w = t \<Longrightarrow> (error = NoError \<longrightarrow> 0 < fw_posts w) \<Longrightarrow>
    futex_dequeue t error x = (r, y) \<Longrightarrow> futex_step x (Returned t r) y"
| stores: "futex_step x Stored (x\<lparr>fx_mem := m\<rparr>)"

inductive futex_run :: "futex_world \<Rightarrow> futex_event list \<Rightarrow> futex_world \<Rightarrow> bool" where
  start: "futex_run x [] x"
| then_step: "futex_run x es y \<Longrightarrow> futex_step y e z \<Longrightarrow> futex_run x (es @ [e]) z"

inductive_cases futex_stepE: "futex_step x e y"

text \<open>
  Every waiter belongs to a thread whose structure names its semaphore; a posted semaphore
  means that the waiter was woken or its thread interrupted, and a woken waiter's semaphore is
  posted.
\<close>

definition waiter_ok :: "(nat \<Rightarrow> guest_thread_state option) \<Rightarrow> futex_waiter \<Rightarrow> bool" where
  "waiter_ok T w \<longleftrightarrow> (\<exists>s. T (fw_id w) = Some s \<and> futex_semaphore s = Some (fw_id w) \<and>
     (0 < fw_posts w \<longrightarrow> fw_woken w \<or> futex_interrupted s)) \<and> (fw_woken w \<longrightarrow> 0 < fw_posts w)"

definition futex_ok :: "futex_world \<Rightarrow> bool" where
  "futex_ok x \<longleftrightarrow> distinct (map fw_id (futex_waiters x)) \<and>
     (\<forall>w\<in>set (futex_waiters x). waiter_ok (fx_thread x) w) \<and>
     (\<forall>t s. fx_thread x t = Some s \<longrightarrow> futex_semaphore s = None \<or> futex_semaphore s = Some t)"

lemma advanced_ids: "list_all2 advanced ws ws' \<Longrightarrow> map fw_id ws' = map fw_id ws"
  by (induction rule: list_all2_induct) (auto simp: advanced_def)

lemma advanced_ok:
  assumes "futex_ok x" "list_all2 advanced (futex_waiters x) ws"
  shows "futex_ok (x\<lparr>futex_waiters := ws\<rparr>)"
proof -
  have "waiter_ok (fx_thread x) w'" if w': "w' \<in> set ws" for w'
  proof -
    obtain w where "w \<in> set (futex_waiters x)" "advanced w w'"
      using assms(2) w' by (metis in_set_conv_nth list_all2_conv_all_nth)
    then show ?thesis using assms(1) by (auto simp: futex_ok_def waiter_ok_def advanced_def)
  qed
  then show ?thesis using assms advanced_ids [OF assms(2)] by (simp add: futex_ok_def)
qed

lemma signal_pending_semaphore:
  assumes "guest_thread_signal_pending n info (Some s) = (effects, s')"
  shows "\<exists>u. s' = Some u \<and> futex_semaphore u = futex_semaphore s \<and>
    (futex_interrupted s \<longrightarrow> futex_interrupted u) \<and>
    (\<forall>sem. SemPost sem \<in> set effects \<longrightarrow> futex_semaphore s = Some sem \<and> futex_interrupted u)"
proof -
  have push: "futex_semaphore (realtime_push i info s) = futex_semaphore s"
    "futex_semaphore (standard_push n info s) = futex_semaphore s"
    "futex_interrupted (realtime_push i info s) = futex_interrupted s"
    "futex_interrupted (standard_push n info s) = futex_interrupted s" for i
    by (simp_all add: realtime_push_def standard_push_def Let_def)
  show ?thesis
    using assms by (auto simp: guest_thread_signal_pending_def Let_def push split: if_splits option.splits)
qed

lemma remove_waiter_eq:
  "distinct (map fw_id ws) \<Longrightarrow> remove_waiter t ws = filter (\<lambda>w. fw_id w \<noteq> t) ws"
proof (induction ws)
  case (Cons w ws)
  then have "filter (\<lambda>v. fw_id v \<noteq> fw_id w) ws = ws" by (auto simp: filter_id_conv image_iff)
  then show ?case using Cons by auto
qed simp

lemma waiter_woken_eq:
  "distinct (map fw_id ws) \<Longrightarrow> w \<in> set ws \<Longrightarrow> waiter_woken (fw_id w) ws = fw_woken w"
  by (auto simp: waiter_woken_def list_ex_iff distinct_map inj_on_def)

lemma woken_count_remove:
  "distinct (map fw_id ws) \<Longrightarrow> w \<in> set ws \<Longrightarrow>
    woken_count (remove_waiter (fw_id w) ws) = woken_count ws - (if fw_woken w then 1 else 0)"
  by (induction ws) (auto simp: image_iff)

text \<open>Successful returns are exactly the returns of woken waiters.\<close>

lemma dequeue_result:
  assumes ok: "futex_ok x" and w: "w \<in> set (futex_waiters x)"
    and posted: "error = NoError \<longrightarrow> 0 < fw_posts w"
    and run: "futex_dequeue (fw_id w) error x = (r, y)"
  shows "r = Value 0 \<longleftrightarrow> fw_woken w"
    and "futex_waiters y = remove_waiter (fw_id w) (futex_waiters x)"
    and "fx_thread y = (fx_thread x)(fw_id w := snd (guest_thread_futex_wait_end (fx_thread x (fw_id w))))"
proof -
  obtain s where s: "fx_thread x (fw_id w) = Some s" "0 < fw_posts w \<longrightarrow> fw_woken w \<or> futex_interrupted s"
    using ok w by (auto simp: futex_ok_def waiter_ok_def)
  have woken: "waiter_woken (fw_id w) (futex_waiters x) = fw_woken w"
    using ok w by (simp add: futex_ok_def waiter_woken_eq)
  show "r = Value 0 \<longleftrightarrow> fw_woken w"
    using run posted s woken
    by (auto simp: futex_dequeue_def guest_thread_futex_wait_end_def Let_def split: if_splits)
  show "futex_waiters y = remove_waiter (fw_id w) (futex_waiters x)"
    and "fx_thread y = (fx_thread x)(fw_id w := snd (guest_thread_futex_wait_end (fx_thread x (fw_id w))))"
    using run by (auto simp: futex_dequeue_def Let_def split: prod.splits)
qed

lemma dequeue_ok:
  assumes ok: "futex_ok x" and w: "w \<in> set (futex_waiters x)"
    and posted: "error = NoError \<longrightarrow> 0 < fw_posts w"
    and run: "futex_dequeue (fw_id w) error x = (r, y)"
  shows "futex_ok y"
proof -
  note res = dequeue_result [OF assms]
  have ids: "distinct (map fw_id (futex_waiters x))" using ok by (simp add: futex_ok_def)
  have ws: "futex_waiters y = filter (\<lambda>v. fw_id v \<noteq> fw_id w) (futex_waiters x)"
    using res(2) remove_waiter_eq [OF ids] by simp
  have "distinct (map fw_id (futex_waiters y))" using ids ws by (simp add: distinct_map_filter)
  moreover have "waiter_ok (fx_thread y) v" if "v \<in> set (futex_waiters y)" for v
    using that ws ok res(3) by (auto simp: futex_ok_def waiter_ok_def)
  moreover have "futex_semaphore s = None \<or> futex_semaphore s = Some t" if "fx_thread y t = Some s" for t s
    using that ok res(3) by (auto simp: futex_ok_def guest_thread_futex_wait_end_def split: if_splits option.splits)
  ultimately show ?thesis by (simp add: futex_ok_def)
qed

lemma enqueue_ok:
  assumes ok: "futex_ok x" and t: "fx_thread x t = Some s" "t \<notin> fw_id ` set (futex_waiters x)"
    and run: "futex_enqueue t address expected bitset x = (None, y)"
  shows "futex_ok y" "woken_count (futex_waiters y) = woken_count (futex_waiters x)"
proof -
  have y: "futex_waiters y = \<lparr>fw_id = t, fw_address = address, fw_bitset = bitset, fw_woken = False, fw_posts = 0\<rparr>
      # futex_waiters x" "fx_thread y = (fx_thread x)(t := Some (s\<lparr>futex_interrupted := False, futex_semaphore := Some t\<rparr>))"
    using run t by (auto simp: futex_enqueue_def guest_thread_futex_wait_begin_def split: if_splits)
  show "futex_ok y"
    using ok t y by (auto simp: futex_ok_def waiter_ok_def image_iff)
  show "woken_count (futex_waiters y) = woken_count (futex_waiters x)" using y by simp
qed

definition newly_woken :: "futex_event \<Rightarrow> int" where
  "newly_woken e = (case e of Woke r \<Rightarrow> r | Requeued p q \<Rightarrow> p | _ \<Rightarrow> 0)"

definition woken_return :: "futex_event \<Rightarrow> bool" where
  "woken_return e \<longleftrightarrow> (case e of Returned t r \<Rightarrow> r = Value 0 | _ \<Rightarrow> False)"

lemma signal_ok:
  assumes ok: "futex_ok x" and t: "fx_thread x t = Some s"
    and run: "guest_thread_signal_pending n info (Some s) = (effects, s')"
  defines "f \<equiv> \<lambda>w. if SemPost (fw_id w) \<in> set effects then post w else w"
  shows "futex_ok (x\<lparr>fx_thread := (fx_thread x)(t := s'), futex_waiters := map f (futex_waiters x)\<rparr>)"
    and "woken_count (map f (futex_waiters x)) = woken_count (futex_waiters x)"
proof -
  obtain u where u: "s' = Some u" "futex_semaphore u = futex_semaphore s"
    "futex_interrupted s \<longrightarrow> futex_interrupted u"
    "\<And>sem. SemPost sem \<in> set effects \<Longrightarrow> futex_semaphore s = Some sem \<and> futex_interrupted u"
    using signal_pending_semaphore [OF run] by blast
  have keep: "fw_id (f w) = fw_id w" "fw_woken (f w) = fw_woken w" for w
    by (simp_all add: f_def post_def)
  have mine: "futex_semaphore s = None \<or> futex_semaphore s = Some t"
    using ok t unfolding futex_ok_def by blast
  have own: "SemPost k \<in> set effects \<Longrightarrow> k = t" for k
    using u(4) [of k] mine by auto
  have wok: "waiter_ok ((fx_thread x)(t := s')) (f w)" if w: "w \<in> set (futex_waiters x)" for w
  proof (cases "fw_id w = t")
    case True
    have "waiter_ok (fx_thread x) w" using ok w by (simp add: futex_ok_def)
    then show ?thesis using True u(1-3) u(4) [of t] t by (auto simp: waiter_ok_def f_def post_def)
  next
    case False
    then have "f w = w" using own by (auto simp: f_def)
    moreover have "waiter_ok (fx_thread x) w" using ok w by (simp add: futex_ok_def)
    ultimately show ?thesis using False by (simp add: waiter_ok_def)
  qed
  have ids: "distinct (map fw_id (map f (futex_waiters x)))"
    using ok keep(1) by (simp add: futex_ok_def comp_def)
  have sem: "futex_semaphore v = None \<or> futex_semaphore v = Some k"
    if "((fx_thread x)(t := s')) k = Some v" for k v
    using that ok u(1,2) mine unfolding futex_ok_def by (cases "k = t") auto
  show "futex_ok (x\<lparr>fx_thread := (fx_thread x)(t := s'), futex_waiters := map f (futex_waiters x)\<rparr>)"
    using ids wok sem unfolding futex_ok_def by (simp del: fun_upd_apply)
  show "woken_count (map f (futex_waiters x)) = woken_count (futex_waiters x)"
    by (simp add: woken_count_def filter_map comp_def keep(2))
qed

lemma futex_step_facts:
  assumes "futex_step x e y" and ok: "futex_ok x"
  shows "futex_ok y \<and> woken_count (futex_waiters y) =
    woken_count (futex_waiters x) + newly_woken e - (if woken_return e then 1 else 0)"
  using assms(1)
proof cases
  case (sleeps t s address expected bitset)
  then show ?thesis using enqueue_ok [OF ok] by (simp add: newly_woken_def woken_return_def)
next
  case (wakes address count bitset r ws)
  then obtain "wake_loop address bitset count 0 (futex_waiters x) = (r, ws)"
    by (auto simp: linux_futex_wake_def split: if_splits prod.splits)
  then have "list_all2 advanced (futex_waiters x) ws" "woken_count ws = woken_count (futex_waiters x) + r"
    using wake_loop_advances [of "futex_waiters x" address bitset count 0] by auto
  then show ?thesis using wakes advanced_ok [OF ok] by (simp add: newly_woken_def woken_return_def)
next
  case (requeues address wc rc second compare expected p q ws)
  then show ?thesis
    using requeue_loop_advances [OF requeues(4)] advanced_ok [OF ok]
    by (simp add: newly_woken_def woken_return_def)
next
  case (signalled t s n info effects s')
  then show ?thesis using signal_ok [OF ok signalled(3,4)] by (simp add: newly_woken_def woken_return_def)
next
  case (returns w t error r)
  note run = returns(5) [folded returns(3)]
  show ?thesis
    using dequeue_result [OF ok returns(2) returns(4) run] dequeue_ok [OF ok returns(2) returns(4) run]
      woken_count_remove [OF _ returns(2)] ok returns(1)
    by (simp add: newly_woken_def woken_return_def futex_ok_def)
next
  case (stores m)
  then show ?thesis using ok by (simp add: futex_ok_def newly_woken_def woken_return_def)
qed

text \<open>
  C11 (safety). In every interleaving of sleeps, wakes, requeues, signals, timeouts and returns
  that starts without waiters, no wake-up is lost and none is delivered twice: the number of
  waiters that the wakes and requeues reported as woken is the number of \<open>futex_wait\<close> calls that
  returned 0 plus the number of woken waiters that have not returned yet, and each of those
  has a posted semaphore, so it will return.
\<close>

theorem futex_wakeups_conserved:
  assumes "futex_run x es y" and "futex_waiters x = []"
    and "\<forall>t s. fx_thread x t = Some s \<longrightarrow> futex_semaphore s = None"
  shows "sum_list (map newly_woken es) =
      int (length (filter woken_return es)) + int (length (filter fw_woken (futex_waiters y))) \<and>
    (\<forall>w\<in>set (futex_waiters y). fw_woken w \<longrightarrow> 0 < fw_posts w)"
proof -
  have "futex_ok y \<and> sum_list (map newly_woken es) =
      int (length (filter woken_return es)) + woken_count (futex_waiters y)"
    using assms
  proof (induction rule: futex_run.induct)
    case (start x)
    then show ?case by (auto simp: futex_ok_def)
  next
    case (then_step x es y e z)
    then show ?case using futex_step_facts [OF then_step.hyps(2)] by auto
  qed
  then show ?thesis by (auto simp: futex_ok_def waiter_ok_def woken_count_def)
qed

section \<open>Deadlines\<close>

definition total_ns :: "timespec \<Rightarrow> int" where
  "total_ns t = tv_sec t * 1000000000 + tv_nsec t"

definition normal :: "timespec \<Rightarrow> bool" where
  "normal t \<longleftrightarrow> 0 \<le> tv_nsec t \<and> tv_nsec t < 1000000000"

lemma load_timespec_normal: "load_linux_timespec m a = Some t \<Longrightarrow> normal t \<and> 0 \<le> tv_sec t"
  by (auto simp: load_linux_timespec_def Let_def normal_def split: if_splits)

lemma carry_sum:
  assumes "normal now" "0 \<le> n" "n < 1000000000"
  shows "normal (carry_nsec \<lparr>tv_sec = tv_sec now + s, tv_nsec = tv_nsec now + n\<rparr>)"
    and "total_ns (carry_nsec \<lparr>tv_sec = tv_sec now + s, tv_nsec = tv_nsec now + n\<rparr>) =
      total_ns now + (s * 1000000000 + n)"
  using assms by (simp_all add: carry_nsec_def normal_def total_ns_def)

text \<open>
  The deadline handed to \<open>sem_timedwait\<close> is a normalised time on the realtime
  clock: now plus the timeout for a relative wait, the guest's time for an absolute realtime
  wait, and for an absolute monotonic wait now plus what is left on the monotonic clock, or
  now when that time has passed.
\<close>

theorem futex_deadlines:
  assumes "load_linux_timespec m a = Some guest" and "normal mon" and "normal now"
  shows "(\<exists>d. relative_deadline m a (Some now) = Some d \<and> normal d \<and> total_ns d = total_ns now + total_ns guest) \<and>
    absolute_deadline m a True (Some mon) (Some now) = Some guest \<and> normal guest \<and>
    (\<exists>d. absolute_deadline m a False (Some mon) (Some now) = Some d \<and> normal d \<and>
      total_ns d = total_ns now + max 0 (total_ns guest - total_ns mon))"
proof (intro conjI)
  have g: "normal guest" using load_timespec_normal [OF assms(1)] by simp
  show "normal guest" by (rule g)
  show "absolute_deadline m a True (Some mon) (Some now) = Some guest" using assms(1) by (simp add: absolute_deadline_def)
  show "\<exists>d. relative_deadline m a (Some now) = Some d \<and> normal d \<and> total_ns d = total_ns now + total_ns guest"
    using carry_sum [OF assms(3), of "tv_nsec guest" "tv_sec guest"] assms(1) g
    by (simp add: relative_deadline_def normal_def [of guest] total_ns_def [of guest])
  show "\<exists>d. absolute_deadline m a False (Some mon) (Some now) = Some d \<and> normal d \<and>
      total_ns d = total_ns now + max 0 (total_ns guest - total_ns mon)"
  proof (cases "tv_sec guest < tv_sec mon \<or> (tv_sec guest = tv_sec mon \<and> tv_nsec guest \<le> tv_nsec mon)")
    case True
    then have "total_ns guest \<le> total_ns mon" using g assms(2) by (auto simp: total_ns_def normal_def)
    then show ?thesis using True assms by (simp add: absolute_deadline_def)
  next
    case False
    define sn where "sn = (if tv_nsec guest - tv_nsec mon < 0
      then (tv_sec guest - tv_sec mon - 1, tv_nsec guest - tv_nsec mon + 1000000000)
      else (tv_sec guest - tv_sec mon, tv_nsec guest - tv_nsec mon))"
    have d: "absolute_deadline m a False (Some mon) (Some now) = Some (carry_nsec
        \<lparr>tv_sec = tv_sec now + fst sn, tv_nsec = tv_nsec now + snd sn\<rparr>)"
      using False assms(1) by (auto simp: absolute_deadline_def Let_def sn_def)
    have sn: "0 \<le> snd sn" "snd sn < 1000000000" "fst sn * 1000000000 + snd sn = total_ns guest - total_ns mon"
      using g assms(2) by (auto simp: sn_def normal_def total_ns_def)
    have "total_ns mon \<le> total_ns guest" using False g assms(2) by (auto simp: total_ns_def normal_def)
    then have "max 0 (total_ns guest - total_ns mon) = fst sn * 1000000000 + snd sn" using sn(3) by simp
    then show ?thesis using d carry_sum [OF assms(3) sn(1,2), of "fst sn"] by simp
  qed
qed

section \<open>Examples\<close>

definition three_waiters :: "futex_waiter list" where
  "three_waiters =
     [\<lparr>fw_id = 3, fw_address = 64, fw_bitset = 1, fw_woken = False, fw_posts = 0\<rparr>,
      \<lparr>fw_id = 2, fw_address = 80, fw_bitset = 1, fw_woken = False, fw_posts = 0\<rparr>,
      \<lparr>fw_id = 1, fw_address = 64, fw_bitset = 1, fw_woken = False, fw_posts = 0\<rparr>]"

theorem futex_wake_exact_witness:
  "\<exists>ws'. linux_futex_wake NoError 64 1 1 three_waiters = (Value 1, ws') \<and> length ws' = 3"
  using futex_wake_exact [of 1 1 64 three_waiters]
  by (auto simp: three_waiters_def matches_def)

definition quiet_world :: futex_world where
  "quiet_world = \<lparr>futex_waiters = [], fx_thread = (\<lambda>t. if t = 1 then Some blank_thread else None), fx_mem = (\<lambda>_. 0)\<rparr>"

lemma load32_zero: "load32 (\<lambda>_. 0) a = 0"
  by (simp add: load32_def load_bytes_def numeral_eq_Suc)

lemma quiet_run: "\<exists>y. futex_run quiet_world [Slept 1, Woke 1] y"
proof -
  define y where "y = snd (futex_enqueue 1 64 0 1 quiet_world)"
  have y: "futex_enqueue 1 64 0 1 quiet_world = (None, y)" "futex_waiters y =
      [\<lparr>fw_id = 1, fw_address = 64, fw_bitset = 1, fw_woken = False, fw_posts = 0\<rparr>]"
    by (simp_all add: y_def futex_enqueue_def quiet_world_def load32_zero)
  have "futex_step quiet_world (Slept 1) y"
    by (rule sleeps [OF _ _ y(1)]) (simp_all add: quiet_world_def)
  then have "futex_run quiet_world ([] @ [Slept 1]) y" by (rule then_step [OF start])
  moreover have "\<exists>ws. linux_futex_wake NoError 64 5 1 (futex_waiters y) = (Value 1, ws)"
    using y(2) by (simp add: linux_futex_wake_def)
  then obtain ws where "futex_step y (Woke 1) (y\<lparr>futex_waiters := ws\<rparr>)" using wakes by blast
  ultimately show ?thesis using then_step [of quiet_world "[Slept 1]" y] by auto
qed

theorem futex_wakeups_conserved_witness:
  "\<exists>y. futex_run quiet_world [Slept 1, Woke 1] y \<and> length (filter fw_woken (futex_waiters y)) = 1"
proof -
  obtain y where run: "futex_run quiet_world [Slept 1, Woke 1] y" using quiet_run by blast
  have "futex_waiters quiet_world = []" "\<forall>t s. fx_thread quiet_world t = Some s \<longrightarrow> futex_semaphore s = None"
    by (auto simp: quiet_world_def blank_thread_def)
  from futex_wakeups_conserved [OF run this] show ?thesis
    using run by (auto simp: newly_woken_def woken_return_def)
qed

definition timeout_mem :: mem where
  "timeout_mem = store32 (store32 (\<lambda>_. 0) 64 100) 68 900000000"

lemma timeout_mem_load: "load_linux_timespec timeout_mem 64 = Some \<lparr>tv_sec = 100, tv_nsec = 900000000\<rparr>"
  by (simp add: load_linux_timespec_def timeout_mem_def load32_store32_apart apart_def)

theorem futex_deadlines_witness:
  "\<exists>d. absolute_deadline timeout_mem 64 False (Some \<lparr>tv_sec = 98, tv_nsec = 950000000\<rparr>)
      (Some \<lparr>tv_sec = 1000, tv_nsec = 200000000\<rparr>) = Some d \<and> total_ns d = 1002150000000"
proof -
  have "normal \<lparr>tv_sec = 98, tv_nsec = 950000000\<rparr>" "normal \<lparr>tv_sec = 1000, tv_nsec = 200000000\<rparr>"
    by (simp_all add: normal_def)
  from futex_deadlines [OF timeout_mem_load this] show ?thesis by (auto simp: total_ns_def)
qed

end
