(* ===== verification/Thread_Registry.thy ===== *)
theory Thread_Registry
  imports Linux_Futex Arm_Patch Guest_Memory
begin

text \<open>
  \<open>src/src/guest_thread.c\<close>, the part that works on all threads: thread numbers, the registry,
  \<open>clone\<close>, \<open>fork\<close>, signals to a thread, and the end of a thread, which releases its stack,
  clears its \<open>clear_child_tid\<close> word and wakes the futex waiters on it. Thread structures are
  named by numbers that stand for their addresses; 0 is the static \<open>main_thread\<close>.
\<close>

unbundle bit_operations_syntax

section \<open>State\<close>

record thread_table =
  thread_states :: "nat \<Rightarrow> guest_thread_state option"
  thread_registry :: "nat list"
  next_tid :: u32

abbreviation (input) MAIN_THREAD :: nat where "MAIN_THREAD \<equiv> 0"

definition current_thread :: "nat option \<Rightarrow> thread_table \<Rightarrow> guest_thread_state option" where
  "current_thread self T = (case self of None \<Rightarrow> None | Some p \<Rightarrow> thread_states T p)"

definition put_thread :: "nat \<Rightarrow> guest_thread_state option \<Rightarrow> thread_table \<Rightarrow> thread_table" where
  "put_thread p s T = T\<lparr>thread_states := (thread_states T)(p := s)\<rparr>"

section \<open>Thread numbers\<close>

definition initial_guest_tid :: "u32 \<Rightarrow> u32" where
  "initial_guest_tid getpid =
     (let tid = getpid AND 0x3FFFFFFF in if tid = 0 then 1 else tid)"

text \<open>The loop delivers the number and the advanced counter.\<close>

function allocate_guest_tid :: "u32 \<Rightarrow> u32 \<times> u32" where
  "allocate_guest_tid counter =
     (let tid = counter AND 0x3FFFFFFF in
      if tid = 0 then allocate_guest_tid (counter + 1) else (tid, counter + 1))"
  by pat_completeness auto

lemma tid_mask: "v AND 0x3FFFFFFF = take_bit 30 (v :: u32)"
proof -
  have "(0x3FFFFFFF :: u32) = mask 30" by (simp add: mask_eq_exp_minus_1)
  then show ?thesis by (simp only: take_bit_eq_mask)
qed

lemma unat_tid: "unat (v AND 0x3FFFFFFF :: u32) = unat v mod 2 ^ 30"
  by (simp only: tid_mask unsigned_take_bit_eq) (simp only: take_bit_eq_mod)

lemma unat_tid_Suc: "unat (v + 1 :: u32) mod 2 ^ 30 = Suc (unat v) mod 2 ^ 30"
proof -
  have "unat (v + 1) = Suc (unat v) mod 2 ^ 32" by (simp add: unat_word_ariths)
  then show ?thesis by (simp add: mod_mod_cancel)
qed

lemma tid_mask_Suc:
  assumes "v AND 0x3FFFFFFF = (0 :: u32)"
  shows "(v + 1) AND 0x3FFFFFFF = (1 :: u32)"
proof -
  have "unat v mod 2 ^ 30 = 0" using assms unat_tid [of v] by simp
  then have "Suc (unat v) mod 2 ^ 30 = 1" using mod_Suc [of "unat v" "2 ^ 30"] by simp
  then have "unat ((v + 1) AND 0x3FFFFFFF) = unat (1 :: u32)" by (simp only: unat_tid unat_tid_Suc unat_1)
  then show ?thesis by (simp only: word_unat_eq_iff)
qed

termination allocate_guest_tid
  by (relation "measure (\<lambda>v. if v AND 0x3FFFFFFF = 0 then 1 else 0)") (auto simp: tid_mask_Suc)

declare allocate_guest_tid.simps [simp del]

section \<open>Creating threads\<close>

definition guest_thread_initialize :: "u32 \<Rightarrow> nat \<Rightarrow> host_errno \<Rightarrow> host_errno \<Rightarrow> thread_table \<Rightarrow> unit outcome \<times> thread_table" where
  "guest_thread_initialize getpid pthread_self key_create setspecific T =
     (if key_create \<noteq> NoError then (Fail key_create, T)
      else
        let t = initial_guest_tid getpid;
            T1 = \<lparr>thread_states = (thread_states T)(MAIN_THREAD := Some (blank_thread\<lparr>tid := t, host_thread := pthread_self\<rparr>)),
                  thread_registry = [MAIN_THREAD], next_tid = t + 1\<rparr>
        in if setspecific \<noteq> NoError then (Fail setspecific, T1) else (Done (), T1))"

abbreviation LINUX_THREAD_REQUIRED :: u32 where "LINUX_THREAD_REQUIRED \<equiv> 0x00010F00"
abbreviation LINUX_THREAD_ALLOWED :: u32 where "LINUX_THREAD_ALLOWED \<equiv> 0x017D0F00"

text \<open>
  What the host answers to one \<open>clone\<close>: the address of the new structure or \<open>None\<close>, the two
  attribute calls, and \<open>pthread_create\<close>.
\<close>

record thread_host =
  th_calloc :: "nat option"
  th_attr_init :: host_errno
  th_attr_detach :: host_errno
  th_create :: "host_errno + nat"

definition create_error :: "thread_host \<Rightarrow> host_errno + nat" where
  "create_error H =
     (if th_attr_init H \<noteq> NoError then Inl (th_attr_init H)
      else if th_attr_detach H \<noteq> NoError then Inl (th_attr_detach H)
      else th_create H)"

definition clone_flags_ok :: "u32 \<Rightarrow> u32 \<Rightarrow> bool" where
  "clone_flags_ok flags child_stack \<longleftrightarrow>
     \<not> (flags AND LINUX_THREAD_REQUIRED \<noteq> LINUX_THREAD_REQUIRED \<or>
        flags AND NOT LINUX_THREAD_ALLOWED \<noteq> 0 \<or> flags AND 0xFF \<noteq> 0 \<or> child_stack = 0)"

text \<open>The structure of the new thread.\<close>

definition clone_state :: "(nat \<Rightarrow> u32) \<Rightarrow> u32 \<Rightarrow> guest_thread_state \<Rightarrow> guest_thread_state" where
  "clone_state gpr t parent =
     (let flags = gpr 0 in
      blank_thread\<lparr>
        registers := gpr(0 := 0, 13 := gpr 1, 15 := gpr 15 + 4),
        guest_tls := (if flags AND 0x80000 \<noteq> 0 then gpr 3 else guest_tls parent),
        signal_mask := signal_mask parent, tid := t,
        clear_child_tid := (if flags AND 0x200000 \<noteq> 0 then gpr 4 else 0),
        child_tid := (if flags AND 0x1000000 \<noteq> 0 then gpr 4 else 0)\<rparr>)"

text \<open>The registers of the calling thread's context are \<open>gpr\<close>; \<open>self\<close> is its structure.\<close>

definition guest_thread_clone ::
  "thread_host \<Rightarrow> nat \<Rightarrow> (nat \<Rightarrow> u32) \<Rightarrow> thread_table \<Rightarrow> mem \<Rightarrow> sysret \<times> thread_table \<times> mem" where
  "guest_thread_clone H self gpr T m =
     (if \<not> clone_flags_ok (gpr 0) (gpr 1) then (RawHost EINVAL, T, m)
      else case (th_calloc H, thread_states T self) of
        (Some p, Some parent) \<Rightarrow>
          (case allocate_guest_tid (next_tid T) of
             (t, counter) \<Rightarrow>
               (case create_error H of
                  Inl e \<Rightarrow> (Translated e, T\<lparr>next_tid := counter\<rparr>, m)
                | Inr thread \<Rightarrow>
                    (Value (uint t),
                     \<lparr>thread_states = (thread_states T)(p := Some ((clone_state gpr t parent)\<lparr>host_thread := thread, start := True\<rparr>)),
                       thread_registry = p # thread_registry T, next_tid = counter\<rparr>,
                     if gpr 0 AND 0x100000 \<noteq> 0 then store32 m (gpr 2) t else m)))
      | _ \<Rightarrow> (RawHost ENOMEM, T, m))"

text \<open>\<open>guest_thread_start\<close> up to the jump into the guest: the registers it resumes with.\<close>

definition guest_thread_start :: "guest_thread_state \<Rightarrow> mem \<Rightarrow> (nat \<Rightarrow> u32) \<times> mem" where
  "guest_thread_start s m =
     (registers s, if child_tid s \<noteq> 0 then store32 m (child_tid s) (tid s) else m)"

definition guest_thread_tid :: "u32 \<Rightarrow> nat option \<Rightarrow> thread_table \<Rightarrow> u32" where
  "guest_thread_tid getpid self T =
     (case current_thread self T of None \<Rightarrow> initial_guest_tid getpid | Some s \<Rightarrow> tid s)"

definition guest_thread_set_tid_address :: "u32 \<Rightarrow> nat option \<Rightarrow> u32 \<Rightarrow> thread_table \<Rightarrow> u32 \<times> thread_table" where
  "guest_thread_set_tid_address getpid self address T =
     (let T1 = (case (self, current_thread self T) of
          (Some p, Some s) \<Rightarrow> put_thread p (Some (s\<lparr>clear_child_tid := address\<rparr>)) T
        | _ \<Rightarrow> T)
      in (guest_thread_tid getpid self T1, T1))"

section \<open>Fork\<close>

definition wait_fds :: "guest_thread_state \<Rightarrow> thread_effect list" where
  "wait_fds s =
     (if signal_wait_read_fd s \<ge> 0 then [CloseFd (signal_wait_read_fd s)] else []) @
     (if signal_wait_write_fd s \<ge> 0 then [CloseFd (signal_wait_write_fd s)] else [])"

definition close_wait_fds :: "thread_table \<Rightarrow> thread_effect list" where
  "close_wait_fds T =
     concat (map (\<lambda>p. case thread_states T p of None \<Rightarrow> [] | Some s \<Rightarrow> wait_fds s) (thread_registry T))"

text \<open>
  In the child: \<open>self\<close> is the structure of the thread that called \<open>fork\<close>. The structures of the
  threads that do not exist in the child stay allocated and unreachable.
\<close>

definition guest_thread_after_fork ::
  "u32 \<Rightarrow> nat \<Rightarrow> nat option \<Rightarrow> thread_table \<Rightarrow> futex_waiter list \<Rightarrow>
    thread_effect list \<times> nat \<times> thread_table \<times> futex_waiter list" where
  "guest_thread_after_fork getpid pthread_self self T ws =
     (let state = current_thread self T;
          tls = (case state of None \<Rightarrow> 0 | Some s \<Rightarrow> guest_tls s);
          mask = (case state of None \<Rightarrow> (0, 0) | Some s \<Rightarrow> signal_mask s);
          alt = guest_thread_altstack_get state;
          t = initial_guest_tid getpid;
          freed = (case self of Some p \<Rightarrow> if p \<noteq> MAIN_THREAD then (thread_states T)(p := None) else thread_states T
                   | None \<Rightarrow> thread_states T);
          m = blank_thread\<lparr>guest_tls := tls, signal_mask := mask, altstack_pointer := fst alt,
                altstack_size := snd alt, tid := t, host_thread := pthread_self\<rparr>
      in (close_wait_fds T, MAIN_THREAD,
          \<lparr>thread_states = freed(MAIN_THREAD := Some m), thread_registry = [MAIN_THREAD], next_tid = t + 1\<rparr>, []))"

section \<open>Signals to a thread, and its end\<close>

text \<open>\<open>pthread_kill\<close> is the host's answer for a host thread and signal.\<close>

definition guest_thread_kill :: "(nat \<Rightarrow> int \<Rightarrow> host_errno) \<Rightarrow> u32 \<Rightarrow> int \<Rightarrow> thread_table \<Rightarrow> sysret" where
  "guest_thread_kill pthread_kill t host_signal T =
     (let error = (case find (\<lambda>p. case thread_states T p of None \<Rightarrow> False | Some s \<Rightarrow> tid s = t) (thread_registry T) of
          None \<Rightarrow> ESRCH
        | Some p \<Rightarrow> if host_signal = 0 then NoError
            else pthread_kill (host_thread (the (thread_states T p))) host_signal)
      in if error = NoError then Value 0 else Translated error)"

text \<open>The state that the end of a thread touches.\<close>

record 'h process =
  pr_threads :: thread_table
  pr_memory :: guest_memory
  pr_patches :: patch_table
  pr_waiters :: "futex_waiter list"
  pr_world :: "'h world"

definition release_stack :: "'h host_mm \<Rightarrow> guest_thread_state \<Rightarrow> 'h process \<Rightarrow> 'h process" where
  "release_stack M s P =
     (if deferred_unmap_length s \<noteq> 0 then
        P\<lparr>pr_world := snd (h_munmap M (deferred_unmap_start s) (deferred_unmap_length s) (pr_world P)),
          pr_patches := arm_patch_forget_range (deferred_unmap_start s) (deferred_unmap_length s) (pr_patches P),
          pr_memory := guest_memory_runtime_unmap (deferred_unmap_start s) (deferred_unmap_length s) (pr_memory P)\<rparr>
      else P)"

definition publish_exit :: "host_errno \<Rightarrow> u32 \<Rightarrow> 'h process \<Rightarrow> 'h process" where
  "publish_exit lock address P =
     (if address \<noteq> 0 then
        P\<lparr>pr_world := (pr_world P)\<lparr>w_mem := store32 (w_mem (pr_world P)) address 0\<rparr>,
          pr_waiters := snd (linux_futex_wake lock address INT_MAX 0xFFFFFFFF (pr_waiters P))\<rparr>
      else P)"

definition finish_guest_thread ::
  "'h host_mm \<Rightarrow> host_errno \<Rightarrow> nat \<Rightarrow> 'h process \<Rightarrow> thread_effect list \<times> 'h process" where
  "finish_guest_thread M lock p P =
     (case thread_states (pr_threads P) p of
        None \<Rightarrow> ([], P)
      | Some s \<Rightarrow>
          let P1 = release_stack M s P;
              P2 = P1\<lparr>pr_threads := (pr_threads P1)\<lparr>thread_registry := remove1 p (thread_registry (pr_threads P1))\<rparr>\<rparr>;
              P3 = publish_exit lock (clear_child_tid s) P2
          in (wait_fds s, P3\<lparr>pr_threads := put_thread p None (pr_threads P3)\<rparr>))"

datatype thread_exit = ExitProcess int | FinishThread nat

definition guest_thread_exit :: "nat option \<Rightarrow> int \<Rightarrow> thread_table \<Rightarrow> thread_exit" where
  "guest_thread_exit self status T =
     (case self of
        Some p \<Rightarrow> if thread_states T p = None \<or> p = MAIN_THREAD then ExitProcess (status mod 256) else FinishThread p
      | None \<Rightarrow> ExitProcess (status mod 256))"

section \<open>Thread numbers are valid and distinct\<close>

definition valid_tid :: "u32 \<Rightarrow> bool" where
  "valid_tid t \<longleftrightarrow> t \<noteq> 0 \<and> t AND 0xC0000000 = 0"

lemma and_not_zero_iff: "a AND NOT b = 0 \<longleftrightarrow> a AND b = (a :: 'a::len word)"
  by (auto simp: bit_eq_iff bit_and_iff bit_not_iff dest: bit_imp_le_length)

lemma valid_tid_iff: "valid_tid t \<longleftrightarrow> 0 < unat t \<and> unat t < 2 ^ 30"
proof -
  have "(0xC0000000 :: u32) = NOT 0x3FFFFFFF" by code_simp
  then have "t AND 0xC0000000 = 0 \<longleftrightarrow> t AND NOT 0x3FFFFFFF = 0" by (simp only:)
  also have "\<dots> \<longleftrightarrow> t AND 0x3FFFFFFF = t"
    by (rule and_not_zero_iff)
  also have "\<dots> \<longleftrightarrow> unat t mod 2 ^ 30 = unat t" by (simp only: unat_tid [symmetric] word_unat_eq_iff)
  also have "\<dots> \<longleftrightarrow> unat t < 2 ^ 30" by (metis mod_less mod_less_divisor zero_less_numeral zero_less_power)
  finally show ?thesis by (auto simp: valid_tid_def unat_gt_0)
qed

lemma allocate_cases:
  "allocate_guest_tid v = (if unat v mod 2 ^ 30 = 0 then (1, v + 2) else (v AND 0x3FFFFFFF, v + 1))"
proof (cases "v AND 0x3FFFFFFF = 0")
  case True
  then show ?thesis
    using tid_mask_Suc [OF True] unat_tid [of v]
    by (subst allocate_guest_tid.simps) (subst allocate_guest_tid.simps, simp add: Let_def)
next
  case False
  then show ?thesis using unat_tid [of v]
    by (subst allocate_guest_tid.simps) (auto simp: Let_def word_unat_eq_iff)
qed

lemma unat_allocate:
  "unat (fst (allocate_guest_tid v)) = (if unat v mod 2 ^ 30 = 0 then 1 else unat v mod 2 ^ 30)"
  by (simp add: allocate_cases unat_tid del: power_numeral)

lemma unat_allocate_next:
  "unat (snd (allocate_guest_tid v)) mod 2 ^ 30 = Suc (unat (fst (allocate_guest_tid v))) mod 2 ^ 30"
proof (cases "unat v mod 2 ^ 30 = 0")
  case True
  have "unat (v + 1 + 1) mod 2 ^ 30 = Suc (unat (v + 1)) mod 2 ^ 30" by (rule unat_tid_Suc)
  also have "\<dots> = Suc (unat (v + 1) mod 2 ^ 30) mod 2 ^ 30" by (simp add: mod_Suc_eq)
  also have "unat (v + 1) mod 2 ^ 30 = Suc (unat v mod 2 ^ 30) mod 2 ^ 30"
    by (simp only: unat_tid_Suc mod_Suc_eq)
  finally show ?thesis using True by (simp add: allocate_cases add.assoc)
next
  case False
  then show ?thesis using unat_tid [of v] unat_tid_Suc [of v] by (simp add: allocate_cases mod_Suc_eq del: power_numeral)
qed

text \<open>The number of the \<open>n\<close>-th thread created with the counter at \<open>v\<close>.\<close>

definition nth_tid :: "nat \<Rightarrow> u32 \<Rightarrow> u32" where
  "nth_tid n v = fst (allocate_guest_tid (((\<lambda>v. snd (allocate_guest_tid v)) ^^ n) v))"

lemma nth_tid_Suc: "unat (nth_tid (Suc n) v) = unat (nth_tid n v) mod (2 ^ 30 - 1) + 1"
proof -
  let ?w = "((\<lambda>v. snd (allocate_guest_tid v)) ^^ n) v"
  have t: "0 < unat (fst (allocate_guest_tid ?w))" "unat (fst (allocate_guest_tid ?w)) \<le> 2 ^ 30 - 1"
    using unat_allocate [of ?w] mod_less_divisor [of "2 ^ 30" "unat ?w"] by (auto split: if_splits)
  have "unat (nth_tid (Suc n) v) =
      (if Suc (unat (nth_tid n v)) mod 2 ^ 30 = 0 then 1 else Suc (unat (nth_tid n v)) mod 2 ^ 30)"
    unfolding nth_tid_def funpow.simps comp_def unat_allocate [of "snd (allocate_guest_tid ?w)"]
      unat_allocate_next by (rule refl)
  also have "\<dots> = unat (nth_tid n v) mod (2 ^ 30 - 1) + 1"
  proof (cases "unat (nth_tid n v) = 2 ^ 30 - 1")
    case False
    then have "unat (nth_tid n v) < 2 ^ 30 - 1" using t(2) by (simp add: nth_tid_def)
    then show ?thesis by simp
  qed simp
  finally show ?thesis .
qed

lemma nth_tid_closed: "unat (nth_tid n v) = (unat (nth_tid 0 v) - 1 + n) mod (2 ^ 30 - 1) + 1"
proof (induction n)
  case 0
  have "0 < unat (nth_tid 0 v)" "unat (nth_tid 0 v) \<le> 2 ^ 30 - 1"
    using unat_allocate [of v] mod_less_divisor [of "2 ^ 30" "unat v"]
    by (auto simp: nth_tid_def split: if_splits)
  then show ?case by simp
next
  case (Suc n)
  have "unat (nth_tid (Suc n) v) = ((unat (nth_tid 0 v) - 1 + n) mod (2 ^ 30 - 1) + 1) mod (2 ^ 30 - 1) + 1"
    by (simp only: nth_tid_Suc Suc)
  also have "\<dots> = (unat (nth_tid 0 v) - 1 + n + 1) mod (2 ^ 30 - 1) + 1" by (simp only: mod_add_left_eq)
  finally show ?case by simp
qed

lemma nth_tid_valid: "valid_tid (nth_tid n v)"
proof -
  have "(unat (nth_tid 0 v) - 1 + n) mod (2 ^ 30 - 1) < 2 ^ 30 - 1" by (rule mod_less_divisor) simp
  then show ?thesis unfolding valid_tid_iff nth_tid_closed [of n] by simp
qed

lemma allocated_valid: "valid_tid (fst (allocate_guest_tid v))"
  using nth_tid_valid [of 0 v] by (simp add: nth_tid_def)

lemma initial_valid: "valid_tid (initial_guest_tid pid)"
proof -
  have "unat pid mod 2 ^ 30 < 2 ^ 30" by (rule mod_less_divisor) simp
  then show ?thesis
    using unat_tid [of pid] by (auto simp: valid_tid_iff initial_guest_tid_def Let_def word_unat_eq_iff)
qed

text \<open>
  The allocation loop always ends, after at most one retry, with a thread
  number between 1 and \<open>2 ^ 30 - 1\<close>, the numbers a Linux robust futex word can hold; and the
  numbers of threads created in sequence are distinct until \<open>2 ^ 30 - 1\<close> of them have been
  handed out.
\<close>

theorem allocate_tid_distinct:
  "allocate_guest_tid v = (if unat v mod 2 ^ 30 = 0 then (1, v + 2) else (v AND 0x3FFFFFFF, v + 1)) \<and>
    valid_tid (nth_tid n v) \<and>
    (i < j \<and> j - i < 2 ^ 30 - 1 \<longrightarrow> nth_tid i v \<noteq> nth_tid j v)"
proof (intro conjI impI)
  assume ij: "i < j \<and> j - i < 2 ^ 30 - 1"
  show "nth_tid i v \<noteq> nth_tid j v"
  proof
    assume "nth_tid i v = nth_tid j v"
    then have "(unat (nth_tid 0 v) - 1 + i) mod (2 ^ 30 - 1) = (unat (nth_tid 0 v) - 1 + j) mod (2 ^ 30 - 1)"
      using nth_tid_closed [of i v] nth_tid_closed [of j v] by simp
    then have "(2 ^ 30 - 1) dvd (unat (nth_tid 0 v) - 1 + j) - (unat (nth_tid 0 v) - 1 + i)"
      using ij by (metis add_le_cancel_left less_imp_le mod_eq_dvd_iff_nat)
    then have "(2 ^ 30 - 1 :: nat) dvd j - i" by simp
    then show False using ij by (auto dest: dvd_imp_le)
  qed
qed (simp_all only: allocate_cases nth_tid_valid)

theorem allocate_tid_distinct_witness: "nth_tid 0 0 \<noteq> nth_tid 1 0"
  using allocate_tid_distinct [of 0 0 0 1] by simp

section \<open>The registry stays well formed\<close>

definition table_ok :: "thread_table \<Rightarrow> bool" where
  "table_ok T \<longleftrightarrow> distinct (thread_registry T) \<and>
     (\<forall>p\<in>set (thread_registry T). \<exists>s. thread_states T p = Some s \<and> valid_tid (tid s))"

lemma table_ok_main:
  "valid_tid (tid s) \<Longrightarrow> table_ok \<lparr>thread_states = f(MAIN_THREAD := Some s), thread_registry = [MAIN_THREAD], next_tid = n\<rparr>"
  by (simp add: table_ok_def)

lemma clone_state_fields [simp]:
  "tid (clone_state gpr t parent) = t"
  "registers (clone_state gpr t parent) = gpr(0 := 0, 13 := gpr 1, 15 := gpr 15 + 4)"
  "signal_mask (clone_state gpr t parent) = signal_mask parent"
  "pending_signals (clone_state gpr t parent) = (0, 0)"
  by (simp_all add: clone_state_def Let_def blank_thread_def)

lemma clone_cases:
  assumes "guest_thread_clone H self gpr T m = (r, T', m')"
  obtains (refused) "T' = T" "m' = m" "r = RawHost EINVAL \<or> r = RawHost ENOMEM"
  | (failed) e c where "T' = T\<lparr>next_tid := c\<rparr>" "m' = m" "r = Translated e"
  | (created) p parent t c s where "clone_flags_ok (gpr 0) (gpr 1)" "th_calloc H = Some p"
      "thread_states T self = Some parent" "allocate_guest_tid (next_tid T) = (t, c)" "r = Value (uint t)"
      "thread_registry T' = p # thread_registry T" "thread_states T' = (thread_states T)(p := Some s)"
      "tid s = t" "registers s = gpr(0 := 0, 13 := gpr 1, 15 := gpr 15 + 4)"
      "signal_mask s = signal_mask parent" "pending_signals s = (0, 0)"
proof (cases "clone_flags_ok (gpr 0) (gpr 1) \<and> th_calloc H \<noteq> None \<and> thread_states T self \<noteq> None")
  case False
  then show ?thesis
    using assms refused unfolding guest_thread_clone_def by (auto split: if_splits option.splits)
next
  case True
  then obtain p parent where ok: "clone_flags_ok (gpr 0) (gpr 1)" "th_calloc H = Some p"
    "thread_states T self = Some parent" by auto
  obtain t c where alloc: "allocate_guest_tid (next_tid T) = (t, c)" by fastforce
  show ?thesis
  proof (cases "create_error H")
    case (Inl e)
    then show ?thesis using assms ok alloc by (intro failed [of c e]) (auto simp: guest_thread_clone_def)
  next
    case (Inr thread)
    then have "r = Value (uint t)" "thread_registry T' = p # thread_registry T"
      "thread_states T' = (thread_states T)(p := Some ((clone_state gpr t parent)\<lparr>host_thread := thread, start := True\<rparr>))"
      using assms ok alloc by (auto simp: guest_thread_clone_def)
    then show ?thesis using created [OF ok alloc] by simp
  qed
qed

lemma clone_ok:
  assumes ok: "table_ok T" and fresh: "\<And>p. th_calloc H = Some p \<Longrightarrow> thread_states T p = None"
    and run: "guest_thread_clone H self gpr T m = (r, T', m')"
  shows "table_ok T'"
  using run
proof (cases rule: clone_cases)
  case (created p parent t c s)
  have "p \<notin> set (thread_registry T)" using ok fresh [OF created(2)] by (auto simp: table_ok_def)
  moreover have "valid_tid (tid s)" using created(4,8) allocated_valid [of "next_tid T"] by simp
  ultimately show ?thesis using ok created(6,7) by (auto simp: table_ok_def)
qed (use ok in \<open>auto simp: table_ok_def\<close>)

lemma after_fork_ok: "guest_thread_after_fork getpid h self T ws = (es, p, T', ws') \<Longrightarrow> table_ok T'"
  by (auto simp: guest_thread_after_fork_def Let_def initial_valid intro!: table_ok_main)

lemma finish_threads:
  "thread_states (pr_threads P) p = Some s \<Longrightarrow>
    pr_threads (snd (finish_guest_thread M lock p P)) =
    put_thread p None ((pr_threads P)\<lparr>thread_registry := remove1 p (thread_registry (pr_threads P))\<rparr>)"
  by (simp add: finish_guest_thread_def release_stack_def publish_exit_def Let_def)

lemma finish_ok:
  assumes "table_ok (pr_threads P)"
  shows "table_ok (pr_threads (snd (finish_guest_thread M lock p P)))"
proof (cases "thread_states (pr_threads P) p")
  case None
  then show ?thesis using assms by (simp add: finish_guest_thread_def)
next
  case (Some s)
  then show ?thesis
    using assms unfolding finish_threads [OF Some] by (auto simp: table_ok_def put_thread_def)
qed

text \<open>
  C31 (type). The thread table is well formed in every state: \<open>guest_thread_initialize\<close> and
  \<open>guest_thread_after_fork\<close> establish, and \<open>guest_thread_clone\<close> and the end of a thread preserve,
  that the registry lists each structure once, that every listed structure exists, and that
  its thread number is nonzero and keeps the two top bits of a futex word free.
\<close>

theorem thread_table_type:
  assumes "table_ok (pr_threads P)" and "thread_states (pr_threads P) p = None" and "th_calloc H = Some p"
  shows "table_ok (snd (guest_thread_initialize pid h NoError NoError T)) \<and>
    table_ok (fst (snd (snd (guest_thread_after_fork pid h self T ws)))) \<and>
    table_ok (fst (snd (guest_thread_clone H q gpr (pr_threads P) m))) \<and>
    table_ok (pr_threads (snd (finish_guest_thread M lock q P)))"
proof (intro conjI)
  show "table_ok (snd (guest_thread_initialize pid h NoError NoError T))"
    by (auto simp: guest_thread_initialize_def Let_def initial_valid intro!: table_ok_main)
  obtain es r T' ws' where "guest_thread_after_fork pid h self T ws = (es, r, T', ws')" by (metis surj_pair)
  then show "table_ok (fst (snd (snd (guest_thread_after_fork pid h self T ws))))"
    using after_fork_ok by simp
  obtain r T' m' where run: "guest_thread_clone H q gpr (pr_threads P) m = (r, T', m')" by (metis surj_pair)
  show "table_ok (fst (snd (guest_thread_clone H q gpr (pr_threads P) m)))"
    using clone_ok [OF assms(1) _ run] assms(2,3) run by simp
  show "table_ok (pr_threads (snd (finish_guest_thread M lock q P)))" by (rule finish_ok [OF assms(1)])
qed

section \<open>The end of a thread\<close>

lemma wake_loop_all:
  "int (length ws) \<le> c - k \<Longrightarrow> list_all (\<lambda>w. \<not> matches a b w) (snd (wake_loop a b c k ws))"
proof (induction ws arbitrary: k)
  case (Cons w ws)
  then have lt: "k < c" "int (length ws) \<le> c - k" "int (length ws) \<le> c - (k + 1)" by auto
  show ?case
  proof (cases "matches a b w")
    case True
    then have "snd (wake_loop a b c k (w # ws)) = post (w\<lparr>fw_woken := True\<rparr>) # snd (wake_loop a b c (k + 1) ws)"
      using lt(1) by (simp add: matches_def case_prod_beta)
    then show ?thesis using Cons.IH [OF lt(3)] by (simp add: matches_def post_def)
  next
    case False
    then have "snd (wake_loop a b c k (w # ws)) = w # snd (wake_loop a b c k ws)"
      using lt(1) by (auto simp: matches_def case_prod_beta)
    then show ?thesis using Cons.IH [OF lt(2)] False by simp
  qed
qed simp

lemma wake_all:
  assumes "int (length ws) \<le> INT_MAX"
    and "w \<in> set (snd (linux_futex_wake NoError a INT_MAX 0xFFFFFFFF ws))" "fw_address w = a" "fw_bitset w \<noteq> 0"
  shows "fw_woken w"
proof -
  have "snd (linux_futex_wake NoError a INT_MAX 0xFFFFFFFF ws) = snd (wake_loop a 0xFFFFFFFF INT_MAX 0 ws)"
    by (simp add: linux_futex_wake_def case_prod_beta)
  then have "\<not> matches a 0xFFFFFFFF w"
    using wake_loop_all [of ws INT_MAX 0 a "0xFFFFFFFF"] assms(1,2) by (simp add: list_all_iff)
  moreover have ones: "(0xFFFFFFFF :: u32) = - 1" by simp
  have "fw_bitset w AND 0xFFFFFFFF = fw_bitset w"
    unfolding ones by (rule and.right_neutral)
  ultimately show ?thesis using assms(3,4) by (simp add: matches_def)
qed

text \<open>
  C22 (liveness). The end of a thread is observable by a joining thread: once
  \<open>finish_guest_thread\<close> is done, the word at \<open>clear_child_tid\<close> is 0 and every futex waiter on it
  is woken; the thread is gone from the registry, its number can no longer be signalled, and
  the patch records of its deferred stack range have been dropped.
\<close>

theorem thread_exit_wakes_joiners:
  assumes "table_ok (pr_threads P)" and "p \<in> set (thread_registry (pr_threads P))"
    and "thread_states (pr_threads P) p = Some s" and "clear_child_tid s = a" and "a \<noteq> 0"
    and "\<forall>q\<in>set (thread_registry (pr_threads P)). q \<noteq> p \<longrightarrow> tid (the (thread_states (pr_threads P) q)) \<noteq> tid s"
    and "int (length (pr_waiters P)) \<le> INT_MAX"
    and "finish_guest_thread M NoError p P = (es, P')"
  shows "load32 (w_mem (pr_world P')) a = 0 \<and>
    (\<forall>w\<in>set (pr_waiters P'). fw_address w = a \<and> fw_bitset w \<noteq> 0 \<longrightarrow> fw_woken w) \<and>
    p \<notin> set (thread_registry (pr_threads P')) \<and>
    guest_thread_kill k (tid s) n (pr_threads P') = Translated ESRCH \<and>
    (deferred_unmap_length s \<noteq> 0 \<longrightarrow>
      pr_patches P' = arm_patch_forget_range (deferred_unmap_start s) (deferred_unmap_length s) (pr_patches P))"
proof (intro conjI)
  let ?P1 = "release_stack M s P"
  have P': "P' = (publish_exit NoError a (?P1\<lparr>pr_threads := (pr_threads ?P1)\<lparr>thread_registry :=
        remove1 p (thread_registry (pr_threads ?P1))\<rparr>\<rparr>))\<lparr>pr_threads := pr_threads P'\<rparr>"
    using assms(3,4,8) by (auto simp: finish_guest_thread_def Let_def)
  have same: "pr_waiters ?P1 = pr_waiters P" by (simp add: release_stack_def)
  have mem: "pr_world P' = (pr_world ?P1)\<lparr>w_mem := store32 (w_mem (pr_world ?P1)) a 0\<rparr>"
    and ws: "pr_waiters P' = snd (linux_futex_wake NoError a INT_MAX 0xFFFFFFFF (pr_waiters P))"
    and pat: "pr_patches P' = pr_patches ?P1"
    using assms(5) same by (subst P', simp add: publish_exit_def)+
  show "load32 (w_mem (pr_world P')) a = 0" by (simp add: mem)
  show "\<forall>w\<in>set (pr_waiters P'). fw_address w = a \<and> fw_bitset w \<noteq> 0 \<longrightarrow> fw_woken w"
    unfolding ws using wake_all [OF assms(7), of _ a] by blast
  show "deferred_unmap_length s \<noteq> 0 \<longrightarrow>
      pr_patches P' = arm_patch_forget_range (deferred_unmap_start s) (deferred_unmap_length s) (pr_patches P)"
    by (simp add: pat release_stack_def)
  have T: "pr_threads P' = put_thread p None ((pr_threads P)\<lparr>thread_registry := remove1 p (thread_registry (pr_threads P))\<rparr>)"
    using finish_threads [OF assms(3), of M NoError] assms(8) by simp
  have reg: "set (thread_registry (pr_threads P')) = set (thread_registry (pr_threads P)) - {p}"
    using assms(1) T by (simp add: table_ok_def put_thread_def set_remove1_eq)
  then show "p \<notin> set (thread_registry (pr_threads P'))" by simp
  have "find (\<lambda>q. case thread_states (pr_threads P') q of None \<Rightarrow> False | Some u \<Rightarrow> tid u = tid s)
      (thread_registry (pr_threads P')) = None"
    using assms(6) reg T by (auto simp: find_None_iff put_thread_def split: option.splits)
  then show "guest_thread_kill k (tid s) n (pr_threads P') = Translated ESRCH"
    by (simp add: guest_thread_kill_def)
qed

section \<open>Examples\<close>

definition one_thread :: "nat \<Rightarrow> 'h \<Rightarrow> 'h process" where
  "one_thread p h = \<lparr>pr_threads = \<lparr>thread_states = (\<lambda>q. if q = p then Some (blank_thread\<lparr>tid := 7, clear_child_tid := 64\<rparr>) else None),
       thread_registry = [p], next_tid = 8\<rparr>,
     pr_memory = fresh_memory, pr_patches = [], pr_waiters = three_waiters, pr_world = \<lparr>w_host = h, w_mem = (\<lambda>_. 1)\<rparr>\<rparr>"

lemma one_thread_ok: "table_ok (pr_threads (one_thread p h))"
  by (simp add: one_thread_def table_ok_def valid_tid_def)

theorem thread_table_type_witness:
  "table_ok (fst (snd (guest_thread_clone \<lparr>th_calloc = Some 9, th_attr_init = NoError, th_attr_detach = NoError,
      th_create = Inr 4\<rparr> 3 ((\<lambda>_. 64)(0 := 0x10F00)) (pr_threads (one_thread 3 ())) (\<lambda>_. 0))))"
  using thread_table_type [OF one_thread_ok, of 3 "()" 9 "\<lparr>th_calloc = Some 9, th_attr_init = NoError,
      th_attr_detach = NoError, th_create = Inr 4\<rparr>"]
  by (simp add: one_thread_def)

theorem thread_exit_wakes_joiners_witness:
  "list_all (\<lambda>w. fw_address w = 64 \<longrightarrow> fw_woken w)
     (pr_waiters (snd (finish_guest_thread obliging_mm NoError 3 (one_thread 3 ()))))"
proof -
  let ?P = "one_thread 3 () :: unit process" and ?s = "blank_thread\<lparr>tid := 7, clear_child_tid := 64\<rparr>"
  obtain es P' where run: "finish_guest_thread obliging_mm NoError 3 ?P = (es, P')" by fastforce
  have "3 \<in> set (thread_registry (pr_threads ?P))" "thread_states (pr_threads ?P) 3 = Some ?s"
    "clear_child_tid ?s = 64" "(64 :: u32) \<noteq> 0"
    "\<forall>q\<in>set (thread_registry (pr_threads ?P)). q \<noteq> 3 \<longrightarrow> tid (the (thread_states (pr_threads ?P) q)) \<noteq> tid ?s"
    "int (length (pr_waiters ?P)) \<le> INT_MAX"
    by (simp_all add: one_thread_def three_waiters_def)
  note result = thread_exit_wakes_joiners [OF one_thread_ok this run]
  have "pr_waiters P' = snd (linux_futex_wake NoError 64 INT_MAX 0xFFFFFFFF three_waiters)"
    using run by (auto simp: finish_guest_thread_def one_thread_def publish_exit_def release_stack_def Let_def
        put_thread_def blank_thread_def)
  moreover have "list_all (\<lambda>w. fw_bitset w \<noteq> 0) (snd (linux_futex_wake NoError 64 INT_MAX 0xFFFFFFFF three_waiters))"
    by code_simp
  ultimately show ?thesis using result run by (auto simp: list_all_iff)
qed

end
