(* ===== verification/Guest_Signal.thy ===== *)
theory Guest_Signal
  imports Thread_Registry
begin

text \<open>
  \<open>src/src/guest_signal.c\<close>: the translation of signal numbers and sets, the table of guest
  actions, the frames a guest handler runs on, and the calls on actions, masks and the
  alternate stack. Frames are written to guest memory field by field at the offsets of the
  source's structures, whose sizes the source checks.
\<close>

unbundle bit_operations_syntax

section \<open>State\<close>

text \<open>The host's constants, and the addresses of the two return trampolines.\<close>

record sig_host =
  SIGRTMIN :: int
  SIGRTMAX :: int
  SIGILL :: int
  SIGSEGV :: int
  SIG_BLOCK :: int
  SIG_UNBLOCK :: int
  return_trampoline :: u32
  rt_return_trampoline :: u32

record linux_sigaction =
  sa_handler :: u32
  sa_flags :: u32
  sa_restorer :: u32
  sa_mask :: sigwords

text \<open>The parts of the host's \<open>ucontext_t\<close> that the source reads and writes.\<close>

record host_context =
  gpr :: "nat \<Rightarrow> u32"
  spsr :: u32
  vfp_x :: "u8 list"
  vfp_fpscr :: u32
  vfp_fpexc :: u32
  vfp_fpinst :: u32
  vfp_fpinst2 :: u32
  uc_sigmask :: "int set"

text \<open>What the signal code works on: the action table, the thread, the context and memory.\<close>

record signal_env =
  guest_actions :: "int \<Rightarrow> linux_sigaction"
  se_thread :: "guest_thread_state option"
  se_context :: host_context
  se_mem :: mem
  se_effects :: "thread_effect list"

abbreviation (input) LINUX_SIGNAL_COUNT :: int where "LINUX_SIGNAL_COUNT \<equiv> 64"
abbreviation (input) LINUX_SA_SIGINFO :: u32 where "LINUX_SA_SIGINFO \<equiv> 4"
abbreviation (input) LINUX_SA_RESTORER :: u32 where "LINUX_SA_RESTORER \<equiv> 0x04000000"
abbreviation (input) LINUX_SA_ONSTACK :: u32 where "LINUX_SA_ONSTACK \<equiv> 0x08000000"
abbreviation (input) LINUX_SA_RESTART :: u32 where "LINUX_SA_RESTART \<equiv> 0x10000000"
abbreviation (input) LINUX_SA_NODEFER :: u32 where "LINUX_SA_NODEFER \<equiv> 0x40000000"
abbreviation (input) LINUX_SA_RESETHAND :: u32 where "LINUX_SA_RESETHAND \<equiv> 0x80000000"
abbreviation (input) HOST_SIGNAL_STACK_RESERVE :: u32 where "HOST_SIGNAL_STACK_RESERVE \<equiv> 8192"
abbreviation (input) LINUX_VFP_MAGIC :: u32 where "LINUX_VFP_MAGIC \<equiv> 0x56465001"
abbreviation (input) LINUX_VFP_FRAME_SIZE :: u32 where "LINUX_VFP_FRAME_SIZE \<equiv> 288"

section \<open>Numbers and sets\<close>

text \<open>The \<open>switch\<close> of \<open>linux_signal_to_host\<close>.\<close>

definition standard_numbers :: "(int \<times> int) list" where
  "standard_numbers = [(1, 1), (2, 2), (3, 3), (4, 4), (5, 5), (6, 6), (8, 8), (9, 9), (11, 11), (13, 13),
     (14, 14), (15, 15), (7, 10), (10, 16), (12, 17), (17, 18), (18, 25), (19, 23), (20, 24), (21, 26),
     (22, 27), (23, 21), (24, 30), (25, 31), (26, 28), (27, 29), (28, 20), (29, 22), (30, 19), (31, 12)]"

definition linux_signal_to_host :: "sig_host \<Rightarrow> int \<Rightarrow> int" where
  "linux_signal_to_host H number =
     (if number \<ge> 32 \<and> number \<le> 47 then SIGRTMIN H + number - 32
      else case map_of standard_numbers number of Some n \<Rightarrow> n | None \<Rightarrow> 0)"

definition guest_signal_from_host :: "sig_host \<Rightarrow> int \<Rightarrow> int" where
  "guest_signal_from_host H number =
     (if number \<ge> SIGRTMIN H \<and> number \<le> SIGRTMAX H then number - SIGRTMIN H + 32
      else case find (\<lambda>n. linux_signal_to_host H n = number) [1..31] of Some n \<Rightarrow> n | None \<Rightarrow> 0)"

definition linux_set_to_host :: "sig_host \<Rightarrow> sigwords \<Rightarrow> int set" where
  "linux_set_to_host H words =
     set (filter (\<lambda>h. h \<noteq> 0) (map (linux_signal_to_host H) (filter (sig_member words) [1..64])))
     - {SIGILL H} - {SIGSEGV H}"

definition merge_host_sets :: "sig_host \<Rightarrow> int set \<Rightarrow> int set \<Rightarrow> int set" where
  "merge_host_sets H target source = target \<union> set (filter (\<lambda>n. n \<in> source) [1..SIGRTMAX H])"

section \<open>Frames\<close>

text \<open>
  Offsets in \<open>struct linux_ucontext\<close>: \<open>stack\<close> 8, \<open>machine\<close> 20 with \<open>oldmask\<close> 28, the registers 32,
  \<open>cpsr\<close> 96 and \<open>fault_address\<close> 100, \<open>signal_mask\<close> 104, \<open>register_space\<close> 232. The structure has 744
  bytes, a plain frame 760 and a real-time frame 888 with its context at 128.
\<close>

definition save_vfp :: "u32 \<Rightarrow> host_context \<Rightarrow> mem \<Rightarrow> mem" where
  "save_vfp guest host m =
     (let frame = guest + 232;
          m = memset m frame 0 512;
          m = store32 m frame LINUX_VFP_MAGIC;
          m = store32 m (frame + 4) LINUX_VFP_FRAME_SIZE;
          m = store_bytes m (frame + 8) (vfp_x host);
          m = store32 m (frame + 264) (vfp_fpscr host);
          m = store32 m (frame + 272) (vfp_fpexc host);
          m = store32 m (frame + 276) (vfp_fpinst host)
      in store32 m (frame + 280) (vfp_fpinst2 host))"

definition restore_vfp :: "u32 \<Rightarrow> mem \<Rightarrow> host_context \<Rightarrow> host_context option" where
  "restore_vfp guest m host =
     (let frame = guest + 232; magic = load32 m frame in
      if magic = 0 then Some host
      else if magic \<noteq> LINUX_VFP_MAGIC \<or> load32 m (frame + 4) \<noteq> LINUX_VFP_FRAME_SIZE then None
      else Some (host\<lparr>vfp_x := load_bytes m (frame + 8) 256, vfp_fpscr := load32 m (frame + 264),
        vfp_fpexc := load32 m (frame + 272), vfp_fpinst := load32 m (frame + 276),
        vfp_fpinst2 := load32 m (frame + 280)\<rparr>))"

definition fill_siginfo :: "u32 \<Rightarrow> int \<Rightarrow> siginfo option \<Rightarrow> mem \<Rightarrow> mem" where
  "fill_siginfo destination linux_signal source m =
     (let m = memset m destination 0 128;
          m = store32 m destination (of_int linux_signal)
      in case source of None \<Rightarrow> m
         | Some i \<Rightarrow>
             let m = store32 m (destination + 4) (of_int (linux_errno_number (si_errno i)));
                 m = store32 m (destination + 8) (of_int (si_code i))
             in if linux_signal = 4 \<or> linux_signal = 7 \<or> linux_signal = 8 \<or> linux_signal = 11
                then store32 m (destination + 12) (si_addr i)
                else store32 (store32 m (destination + 12) (of_int (si_pid i))) (destination + 16) (si_uid i))"

definition prepare_context :: "u32 \<Rightarrow> host_context \<Rightarrow> sigwords \<Rightarrow> u32 \<Rightarrow> mem \<Rightarrow> mem" where
  "prepare_context guest host old_mask fault_address m =
     (let m = memset m guest 0 744;
          m = store32 m (guest + 12) 2;
          m = store32 m (guest + 28) (fst old_mask);
          m = store_words m (guest + 32) (map (gpr host) [0..<16]);
          m = store32 m (guest + 96) (spsr host);
          m = store32 m (guest + 100) fault_address;
          m = store_words m (guest + 104) [fst old_mask, snd old_mask]
      in save_vfp guest host m)"

definition on_altstack :: "u32 \<Rightarrow> u32 \<times> u32 \<Rightarrow> bool" where
  "on_altstack sp alt \<longleftrightarrow> snd alt \<noteq> 0 \<and> sp \<ge> fst alt \<and> sp < fst alt + snd alt"

definition frame_address :: "linux_sigaction \<Rightarrow> u32 \<Rightarrow> u32 \<times> u32 \<Rightarrow> u32" where
  "frame_address action sp alt =
     (let stack_pointer = (if sa_flags action AND LINUX_SA_ONSTACK \<noteq> 0 \<and> snd alt \<noteq> 0 \<and> \<not> on_altstack sp alt
            then fst alt + snd alt else sp - HOST_SIGNAL_STACK_RESERVE)
      in if sa_flags action AND LINUX_SA_SIGINFO \<noteq> 0 then (stack_pointer - 888) AND NOT 7
         else (stack_pointer - 760) AND NOT 7)"

definition write_frame ::
  "linux_sigaction \<Rightarrow> u32 \<Rightarrow> int \<Rightarrow> siginfo option \<Rightarrow> host_context \<Rightarrow> sigwords \<Rightarrow> u32 \<times> u32 \<Rightarrow> mem \<Rightarrow> mem" where
  "write_frame action frame linux_signal info host old_mask alt m =
     (let siginfo_wanted = sa_flags action AND LINUX_SA_SIGINFO \<noteq> 0;
          guest = (if siginfo_wanted then frame + 128 else frame);
          m = (if siginfo_wanted then fill_siginfo frame linux_signal info (memset m frame 0 888)
               else memset m frame 0 760);
          m = prepare_context guest host old_mask (case info of None \<Rightarrow> 0 | Some i \<Rightarrow> si_addr i) m;
          m = store32 m (guest + 8) (fst alt);
          m = store32 m (guest + 16) (snd alt)
      in store32 m (guest + 12)
           (if on_altstack (gpr host 13) alt then 1 else if snd alt = 0 then 2 else 0))"

section \<open>Delivery and return\<close>

definition handler_mask :: "linux_sigaction \<Rightarrow> int \<Rightarrow> sigwords \<Rightarrow> sigwords" where
  "handler_mask action linux_signal old_mask =
     (let new_mask = (fst old_mask OR fst (sa_mask action), snd old_mask OR snd (sa_mask action))
      in if sa_flags action AND LINUX_SA_NODEFER = 0 then sig_add linux_signal new_mask else new_mask)"

definition handler_host_mask :: "sig_host \<Rightarrow> linux_sigaction \<Rightarrow> int \<Rightarrow> int set \<Rightarrow> int set" where
  "handler_host_mask H action linux_signal desired =
     (let merged = merge_host_sets H desired (linux_set_to_host H (sa_mask action));
          host_signal = linux_signal_to_host H linux_signal
      in if sa_flags action AND LINUX_SA_NODEFER = 0 \<and> host_signal \<noteq> 0 then insert host_signal merged else merged)"

definition restorer_address :: "sig_host \<Rightarrow> linux_sigaction \<Rightarrow> u32" where
  "restorer_address H action =
     (if sa_flags action AND LINUX_SA_RESTORER \<noteq> 0 \<and> sa_restorer action \<noteq> 0 then sa_restorer action
      else if sa_flags action AND LINUX_SA_SIGINFO \<noteq> 0 then rt_return_trampoline H else return_trampoline H)"

definition handler_registers :: "sig_host \<Rightarrow> linux_sigaction \<Rightarrow> u32 \<Rightarrow> int \<Rightarrow> (nat \<Rightarrow> u32) \<Rightarrow> nat \<Rightarrow> u32" where
  "handler_registers H action frame linux_signal r =
     (let r = r(0 := of_int linux_signal);
          r = (if sa_flags action AND LINUX_SA_SIGINFO \<noteq> 0 then r(1 := frame, 2 := frame + 128) else r)
      in r(13 := frame, 14 := restorer_address H action, 15 := sa_handler action))"

definition guest_signal_deliver ::
  "sig_host \<Rightarrow> int \<Rightarrow> siginfo option \<Rightarrow> signal_env \<Rightarrow> int \<times> signal_env" where
  "guest_signal_deliver H linux_signal info e =
     (if linux_signal \<le> 0 \<or> linux_signal > LINUX_SIGNAL_COUNT then (-1, e)
      else if linux_signal \<noteq> 4 \<and> linux_signal \<noteq> 11 \<and>
              sig_member (guest_thread_signal_mask_get (se_thread e)) linux_signal
      then (case guest_thread_signal_pending linux_signal info (se_thread e) of
              (effects, s) \<Rightarrow> (1, e\<lparr>se_thread := s, se_effects := se_effects e @ effects\<rparr>))
      else
        let action = guest_actions e linux_signal in
        if sa_handler action \<le> 1 then (-1, e)
        else case guest_thread_signal_delivery_mask (se_thread e) of
          (old_mask, s) \<Rightarrow>
            let ctx = se_context e;
                alt = guest_thread_altstack_get s;
                frame = frame_address action (gpr ctx 13) alt
            in (0, e\<lparr>se_mem := write_frame action frame linux_signal info ctx old_mask alt (se_mem e),
                  se_thread := guest_thread_signal_mask_set (handler_mask action linux_signal old_mask) s,
                  se_context := ctx\<lparr>uc_sigmask := handler_host_mask H action linux_signal (uc_sigmask ctx),
                    gpr := handler_registers H action frame linux_signal (gpr ctx)\<rparr>,
                  guest_actions := (if sa_flags action AND LINUX_SA_RESETHAND \<noteq> 0
                    then (guest_actions e)(linux_signal := action\<lparr>sa_handler := 0\<rparr>) else guest_actions e)\<rparr>))"

definition restartable_syscall :: "u32 \<Rightarrow> bool" where
  "restartable_syscall number \<longleftrightarrow>
     number \<in> {3, 4, 54, 114, 145, 146, 240, 283, 285, 291, 292, 297, 366}"

text \<open>\<open>eintr\<close> is the host's \<open>EINTR\<close>, which the source compares with the value in \<open>r0\<close>.\<close>

definition guest_signal_deliver_pending ::
  "sig_host \<Rightarrow> u32 \<Rightarrow> u32 \<Rightarrow> u32 \<Rightarrow> signal_env \<Rightarrow> int \<times> signal_env" where
  "guest_signal_deliver_pending H eintr syscall_number original_r0 e =
     (case guest_thread_take_pending (se_thread e) of
        (None, s) \<Rightarrow> (0, e\<lparr>se_thread := s\<rparr>)
      | (Some (linux_signal, info), s) \<Rightarrow>
          let ctx = se_context e;
              ctx1 = (if gpr ctx 0 = - eintr \<and>
                         sa_flags (guest_actions e linux_signal) AND LINUX_SA_RESTART \<noteq> 0 \<and>
                         restartable_syscall syscall_number
                      then ctx\<lparr>gpr := (gpr ctx)(0 := original_r0, 15 := gpr ctx 15 - 4)\<rparr> else ctx)
          in case guest_signal_deliver H linux_signal (Some info) (e\<lparr>se_thread := s, se_context := ctx1\<rparr>) of
            (r, e') \<Rightarrow> (if r = 0 then 1 else -1, e'))"

definition guest_signal_return :: "sig_host \<Rightarrow> bool \<Rightarrow> signal_env \<Rightarrow> int \<times> signal_env" where
  "guest_signal_return H siginfo_frame e =
     (let ctx = se_context e; stack_pointer = gpr ctx 13; m = se_mem e;
          guest = (if siginfo_frame then stack_pointer + 128 else stack_pointer)
      in if stack_pointer AND 7 \<noteq> 0 then (-1, e)
         else case restore_vfp guest m ctx of
           None \<Rightarrow> (-1, e)
         | Some ctx1 \<Rightarrow>
             let mask = (load32 m (guest + 104), load32 m (guest + 108));
                 s1 = guest_thread_signal_mask_set mask (se_thread e);
                 ctx2 = ctx1\<lparr>uc_sigmask := linux_set_to_host H mask,
                   gpr := (\<lambda>i. if i < 16 then load32 m (guest + 32 + 4 * of_nat i) else gpr ctx1 i),
                   spsr := load32 m (guest + 96)\<rparr>;
                 flags = load32 m (guest + 12);
                 s2 = (if siginfo_frame \<and> flags = 2 then guest_thread_altstack_set 0 0 s1
                       else if siginfo_frame \<and> flags = 0
                       then guest_thread_altstack_set (load32 m (guest + 8)) (load32 m (guest + 16)) s1
                       else s1)
             in (0, e\<lparr>se_context := ctx2, se_thread := s2\<rparr>))"

section \<open>The alternate stack\<close>

definition guest_signal_altstack :: "u32 \<Rightarrow> u32 \<Rightarrow> signal_env \<Rightarrow> sysret \<times> signal_env" where
  "guest_signal_altstack guest_stack guest_old_stack e =
     (let alt = guest_thread_altstack_get (se_thread e);
          on_stack = on_altstack (gpr (se_context e) 13) alt;
          m = (if guest_old_stack \<noteq> 0
               then store_words (se_mem e) guest_old_stack
                 [fst alt, if on_stack then 1 else if snd alt = 0 then 2 else 0, snd alt]
               else se_mem e);
          e1 = e\<lparr>se_mem := m\<rparr>
      in if guest_stack = 0 then (Value 0, e1)
         else
           let pointer = load32 m guest_stack; flags = load32 m (guest_stack + 4); sz = load32 m (guest_stack + 8) in
           if on_stack then (RawHost EPERM, e1)
           else if flags AND NOT 2 \<noteq> 0 then (RawHost EINVAL, e1)
           else if flags AND 2 \<noteq> 0 then (Value 0, e1\<lparr>se_thread := guest_thread_altstack_set 0 0 (se_thread e)\<rparr>)
           else if sz < 2048 then (RawHost ENOMEM, e1)
           else (Value 0, e1\<lparr>se_thread := guest_thread_altstack_set pointer sz (se_thread e)\<rparr>))"

section \<open>Host signals, sending\<close>

definition host_signal_handler ::
  "sig_host \<Rightarrow> guest_memory \<Rightarrow> int \<Rightarrow> siginfo \<Rightarrow> signal_env \<Rightarrow> signal_env" where
  "host_signal_handler H g host_signal information e =
     (let linux_signal = guest_signal_from_host H host_signal;
          queue = (\<lambda>e. case guest_thread_signal_pending linux_signal (Some information) (se_thread e) of
            (effects, s) \<Rightarrow> e\<lparr>se_thread := s, se_effects := se_effects e @ effects\<rparr>)
      in if linux_signal = 0 then e
         else if \<not> guest_thread_syscall_active (se_thread e) \<and>
                 guest_memory_is_executable (gpr (se_context e) 15) 4 g
         then (case guest_signal_deliver H linux_signal (Some information) e of
                 (r, e') \<Rightarrow> if r = 0 then e' else queue e')
         else queue e)"

text \<open>\<open>kill\<close> is the host's answer for a process and a host signal.\<close>

definition guest_signal_send :: "sig_host \<Rightarrow> (int \<Rightarrow> int \<Rightarrow> host_errno) \<Rightarrow> int \<Rightarrow> int \<Rightarrow> sysret" where
  "guest_signal_send H kill process linux_signal =
     (let host_signal = (if linux_signal = 0 then 0 else linux_signal_to_host H linux_signal) in
      if linux_signal \<noteq> 0 \<and> host_signal = 0 then RawHost EINVAL
      else if kill process host_signal = NoError then Value 0
      else Translated (kill process host_signal))"

definition guest_signal_send_thread ::
  "sig_host \<Rightarrow> (nat \<Rightarrow> int \<Rightarrow> host_errno) \<Rightarrow> int \<Rightarrow> int \<Rightarrow> u32 \<Rightarrow> int \<Rightarrow> thread_table \<Rightarrow> sysret" where
  "guest_signal_send_thread H pthread_kill getpid process thread linux_signal T =
     (if process \<noteq> 0 \<and> process \<noteq> getpid then RawHost ESRCH
      else
        let host_signal = (if linux_signal = 0 then 0 else linux_signal_to_host H linux_signal) in
        if linux_signal \<noteq> 0 \<and> host_signal = 0 then RawHost EINVAL
        else guest_thread_kill pthread_kill thread host_signal T)"

section \<open>Actions and masks\<close>

definition load_sigaction :: "mem \<Rightarrow> u32 \<Rightarrow> linux_sigaction" where
  "load_sigaction m a = \<lparr>sa_handler = load32 m a, sa_flags = load32 m (a + 4), sa_restorer = load32 m (a + 8),
     sa_mask = (load32 m (a + 12), load32 m (a + 16))\<rparr>"

definition store_sigaction :: "mem \<Rightarrow> u32 \<Rightarrow> linux_sigaction \<Rightarrow> mem" where
  "store_sigaction m a act = store_words m a
     [sa_handler act, sa_flags act, sa_restorer act, fst (sa_mask act), snd (sa_mask act)]"

text \<open>What is installed on the host for a signal.\<close>

datatype host_disposition = SIG_DFL | SIG_IGN | HostHandler

record host_sigaction =
  hs_handler :: host_disposition
  hs_siginfo :: bool
  hs_nocldstop :: bool
  hs_nocldwait :: bool
  hs_nodefer :: bool
  hs_resethand :: bool
  hs_mask :: "int set"

definition host_action_of :: "sig_host \<Rightarrow> linux_sigaction \<Rightarrow> host_sigaction" where
  "host_action_of H action =
     \<lparr>hs_handler = (if sa_handler action = 1 then SIG_IGN else if sa_handler action = 0 then SIG_DFL else HostHandler),
       hs_siginfo = (sa_handler action > 1),
       hs_nocldstop = (sa_flags action AND 1 \<noteq> 0), hs_nocldwait = (sa_flags action AND 2 \<noteq> 0),
       hs_nodefer = (sa_flags action AND LINUX_SA_NODEFER \<noteq> 0),
       hs_resethand = (sa_flags action AND LINUX_SA_RESETHAND \<noteq> 0),
       hs_mask = linux_set_to_host H (sa_mask action)\<rparr>"

definition guest_signal_action ::
  "sig_host \<Rightarrow> (int \<Rightarrow> host_sigaction \<Rightarrow> host_errno) \<Rightarrow> int \<Rightarrow> u32 \<Rightarrow> u32 \<Rightarrow> u32 \<Rightarrow> signal_env \<Rightarrow> sysret \<times> signal_env" where
  "guest_signal_action H sigaction linux_signal guest_action guest_old_action signal_set_size e =
     (let host_signal = linux_signal_to_host H linux_signal in
      if signal_set_size \<noteq> 8 \<or> linux_signal \<le> 0 \<or> linux_signal > LINUX_SIGNAL_COUNT \<or> host_signal = 0
      then (RawHost EINVAL, e)
      else
        let m = (if guest_old_action \<noteq> 0
                 then store_sigaction (se_mem e) guest_old_action (guest_actions e linux_signal) else se_mem e);
            e1 = e\<lparr>se_mem := m\<rparr>
        in if guest_action = 0 then (Value 0, e1)
           else if linux_signal = 9 \<or> linux_signal = 19 then (RawHost EINVAL, e1)
           else
             let action = load_sigaction m guest_action;
                 e2 = e1\<lparr>guest_actions := (guest_actions e)(linux_signal := action)\<rparr>
             in if linux_signal = 4 \<or> linux_signal = 11 then (Value 0, e2)
                else let err = sigaction host_signal (host_action_of H action)
                     in (if err = NoError then Value 0 else Translated err, e2))"

definition guest_signal_host_mask :: "sig_host \<Rightarrow> u32 \<Rightarrow> u32 \<Rightarrow> mem \<Rightarrow> sysret + int set" where
  "guest_signal_host_mask H guest_set signal_set_size m =
     (if guest_set = 0 \<or> signal_set_size \<noteq> 8 then Inl (RawHost EINVAL)
      else Inr (linux_set_to_host H (load32 m guest_set, load32 m (guest_set + 4))))"

text \<open>A mask from guest memory without the signals that cannot be blocked.\<close>

definition load_mask :: "mem \<Rightarrow> u32 \<Rightarrow> sigwords" where
  "load_mask m a = (load32 m a AND NOT (sig_bit 9 OR sig_bit 19), load32 m (a + 4))"

text \<open>\<open>sigmask\<close> is the host's answer to \<open>pthread_sigmask\<close>.\<close>

definition guest_signal_mask ::
  "sig_host \<Rightarrow> (int \<Rightarrow> int set option \<Rightarrow> host_errno) \<Rightarrow> int \<Rightarrow> u32 \<Rightarrow> u32 \<Rightarrow> u32 \<Rightarrow> signal_env \<Rightarrow> sysret \<times> signal_env" where
  "guest_signal_mask H sigmask how guest_set guest_old_set signal_set_size e =
     (if signal_set_size \<noteq> 8 \<or> how < 0 \<or> how > 2 then (RawHost EINVAL, e)
      else
        let old_words = guest_thread_signal_mask_get (se_thread e);
            m = (if guest_old_set \<noteq> 0 then store_words (se_mem e) guest_old_set [fst old_words, snd old_words]
                 else se_mem e);
            e1 = e\<lparr>se_mem := m\<rparr>;
            words = load_mask m guest_set;
            err = sigmask how (if guest_set \<noteq> 0 then Some (linux_set_to_host H words) else None)
        in if err \<noteq> NoError then (Translated err, e1)
           else if guest_set = 0 then (Value 0, e1)
           else
             let new_words =
                   (if how = SIG_BLOCK H then (fst old_words OR fst words, snd old_words OR snd words)
                    else if how = SIG_UNBLOCK H
                    then (fst old_words AND NOT (fst words), snd old_words AND NOT (snd words))
                    else words)
             in (Value 0, e1\<lparr>se_thread := guest_thread_signal_mask_set new_words (se_thread e)\<rparr>))"

text \<open>
  \<open>sigsuspend\<close> is the host's call: while the thread sleeps its handlers may run, so it maps the
  environment as well and delivers the \<open>errno\<close>, \<open>NoError\<close> for the return value 0.
\<close>

definition guest_signal_suspend ::
  "sig_host \<Rightarrow> (int set \<Rightarrow> signal_env \<Rightarrow> host_errno \<times> signal_env) \<Rightarrow> u32 \<Rightarrow> u32 \<Rightarrow> signal_env \<Rightarrow> sysret \<times> signal_env" where
  "guest_signal_suspend H sigsuspend guest_set signal_set_size e =
     (if guest_set = 0 \<or> signal_set_size \<noteq> 8 then (RawHost EINVAL, e)
      else
        let words = load_mask (se_mem e) guest_set;
            old_words = guest_thread_signal_mask_get (se_thread e);
            e1 = e\<lparr>se_thread := guest_thread_signal_mask_set words (se_thread e)\<rparr>
        in case sigsuspend (linux_set_to_host H words) e1 of
          (err, e2) \<Rightarrow>
            if err = NoError
            then (Value 0, e2\<lparr>se_thread := guest_thread_signal_mask_set old_words (se_thread e2)\<rparr>)
            else (Translated err, e2\<lparr>se_thread := (if err = EINTR
                then guest_thread_signal_suspend_restore old_words (se_thread e2)
                else guest_thread_signal_mask_set old_words (se_thread e2))\<rparr>))"

section \<open>Reading a frame back\<close>

named_theorems frame_simps
  \<open>loads from a frame written field by field\<close>

lemma apart_base [frame_simps]:
  "apart a n (a + d) k \<longleftrightarrow> apart 0 n d k" "apart (a + c) n a k \<longleftrightarrow> apart c n 0 k"
  using apart_offset [of a 0 n d k] apart_offset [of a c n 0 k] by simp_all

declare length_concat_words [frame_simps]

lemma load32_store_words_apart [frame_simps]:
  "apart a (4 * length ws) b 4 \<Longrightarrow> load32 (store_words m a ws) b = load32 m b"
  by (simp add: load32_def store_words_def load_store_bytes_apart length_concat_words)

lemma load32_memset_apart [frame_simps]:
  "apart a n b 4 \<Longrightarrow> load32 (memset m a v n) b = load32 m b"
  by (simp add: load32_def memset_def load_store_bytes_apart)

lemma load32_store_bytes_apart [frame_simps]:
  "apart a (length bs) b 4 \<Longrightarrow> load32 (store_bytes m a bs) b = load32 m b"
  by (simp add: load32_def load_store_bytes_apart)

lemma load_bytes_store32_apart [frame_simps]:
  "apart a 4 b n \<Longrightarrow> load_bytes (store32 m a v) b n = load_bytes m b n"
  by (simp add: store32_def load_store_bytes_apart)

lemma save_vfp_keeps:
  assumes "unat c + 4 \<le> 232" "length (vfp_x host) = 256"
  shows "load32 (save_vfp g host m) (g + c) = load32 m (g + c)"
proof -
  have c: "apart d n c 4" if "232 \<le> unat d" "unat d + n \<le> 744" for d n
    using that assms(1) by (intro apart_ordered) simp_all
  show ?thesis
    using assms(2) by (simp add: save_vfp_def Let_def frame_simps mem_simps add.assoc c)
qed

lemma save_vfp_fields:
  assumes "length (vfp_x host) = 256"
  shows "load32 (save_vfp g host m) (g + 232) = LINUX_VFP_MAGIC"
    "load32 (save_vfp g host m) (g + 236) = LINUX_VFP_FRAME_SIZE"
    "load_bytes (save_vfp g host m) (g + 240) 256 = vfp_x host"
    "load32 (save_vfp g host m) (g + 496) = vfp_fpscr host"
    "load32 (save_vfp g host m) (g + 504) = vfp_fpexc host"
    "load32 (save_vfp g host m) (g + 508) = vfp_fpinst host"
    "load32 (save_vfp g host m) (g + 512) = vfp_fpinst2 host"
  using assms by (simp_all add: save_vfp_def Let_def frame_simps mem_simps add.assoc apart_def)

lemma prepare_context_fields:
  fixes g fault :: u32 and old :: sigwords and m :: mem
  assumes v: "length (vfp_x host) = 256"
  defines "p \<equiv> prepare_context g host old fault m"
  shows "load32 p (g + 96) = spsr host" "load32 p (g + 104) = fst old" "load32 p (g + 108) = snd old"
    "i < 16 \<Longrightarrow> load32 p (g + 32 + 4 * of_nat i) = gpr host i"
    "load32 p (g + 232) = LINUX_VFP_MAGIC" "load32 p (g + 236) = LINUX_VFP_FRAME_SIZE"
    "load_bytes p (g + 240) 256 = vfp_x host" "load32 p (g + 496) = vfp_fpscr host"
    "load32 p (g + 504) = vfp_fpexc host" "load32 p (g + 508) = vfp_fpinst host"
    "load32 p (g + 512) = vfp_fpinst2 host"
proof -
  have two: "load32 (store_words m (g + 104) [a, b]) (g + 104) = a"
    "load32 (store_words m (g + 104) [a, b]) (g + 108) = b" for m and a b :: u32
    using load32_store_words [of 0 "[a, b]" m "g + 104"] load32_store_words [of 1 "[a, b]" m "g + 104"]
    by (simp_all add: add.assoc)
  show "load32 p (g + 104) = fst old" "load32 p (g + 108) = snd old"
    using v two by (simp_all add: p_def prepare_context_def Let_def save_vfp_keeps)
  show "load32 p (g + 96) = spsr host"
    using v by (simp add: p_def prepare_context_def Let_def save_vfp_keeps frame_simps mem_simps apart_def)
  show "load32 p (g + 32 + 4 * of_nat i) = gpr host i" if i: "i < 16"
  proof -
    have u: "unat (32 + 4 * of_nat i :: u32) = 32 + 4 * i"
      using i by (simp add: unat_word_ariths unat_of_nat)
    have ap: "apart d n (32 + 4 * of_nat i) 4" if "96 \<le> unat d" "unat d + n \<le> 744" for d n
      using that i u by (intro apart_ordered) simp_all
    have "load32 p (g + (32 + 4 * of_nat i)) =
        load32 (store_words (store32 (store32 (memset m g 0 744) (g + 12) 2) (g + 28) (fst old)) (g + 32)
          (map (gpr host) [0..<16])) (g + (32 + 4 * of_nat i))"
      using v u i ap by (simp add: p_def prepare_context_def Let_def save_vfp_keeps frame_simps mem_simps del: upt_rec_numeral)
    also have "\<dots> = gpr host i"
      using load32_store_words [of i "map (gpr host) [0..<16]" _ "g + 32"] i
      by (simp add: add.assoc del: upt_rec_numeral)
    finally show ?thesis by (simp add: add.assoc)
  qed
qed (use v in \<open>simp_all add: p_def prepare_context_def Let_def save_vfp_fields\<close>)

definition context_base :: "linux_sigaction \<Rightarrow> u32 \<Rightarrow> u32" where
  "context_base action frame = (if sa_flags action AND LINUX_SA_SIGINFO \<noteq> 0 then frame + 128 else frame)"

lemma write_frame_alt:
  "\<exists>m'. write_frame action frame n info host old alt m =
    store32 (store32 (store32 (prepare_context (context_base action frame) host old
        (case info of None \<Rightarrow> 0 | Some i \<Rightarrow> si_addr i) m')
      (context_base action frame + 8) (fst alt)) (context_base action frame + 16) (snd alt))
      (context_base action frame + 12) (if on_altstack (gpr host 13) alt then 1 else if snd alt = 0 then 2 else 0)"
  by (auto simp: write_frame_def context_base_def Let_def)

lemma head_keeps:
  assumes "20 \<le> unat c" "unat c + n \<le> 744"
  shows "load_bytes (store32 (store32 (store32 p (g + 8) x) (g + 16) y) (g + 12) z) (g + c) n = load_bytes p (g + c) n"
proof -
  have "apart d 4 c n" if "unat d \<le> 16" for d
    using that assms by (intro apart_ordered) simp_all
  then show ?thesis by (simp add: frame_simps mem_simps)
qed

lemma head_keeps32:
  "20 \<le> unat c \<Longrightarrow> unat c + 4 \<le> 744 \<Longrightarrow>
    load32 (store32 (store32 (store32 p (g + 8) x) (g + 16) y) (g + 12) z) (g + c) = load32 p (g + c)"
  using head_keeps [of c 4] by (simp add: load32_def)

lemma write_frame_fields:
  fixes frame :: u32 and n :: int and info :: "siginfo option" and old :: sigwords and alt :: "u32 \<times> u32" and m :: mem
    and action :: linux_sigaction
  assumes v: "length (vfp_x host) = 256"
  defines "p \<equiv> write_frame action frame n info host old alt m" and "g \<equiv> context_base action frame"
  shows "load32 p (g + 96) = spsr host" "load32 p (g + 104) = fst old" "load32 p (g + 108) = snd old"
    "i < 16 \<Longrightarrow> load32 p (g + 32 + 4 * of_nat i) = gpr host i"
    "load32 p (g + 232) = LINUX_VFP_MAGIC" "load32 p (g + 236) = LINUX_VFP_FRAME_SIZE"
    "load_bytes p (g + 240) 256 = vfp_x host" "load32 p (g + 496) = vfp_fpscr host"
    "load32 p (g + 504) = vfp_fpexc host" "load32 p (g + 508) = vfp_fpinst host"
    "load32 p (g + 512) = vfp_fpinst2 host"
    "load32 p (g + 8) = fst alt" "load32 p (g + 16) = snd alt"
    "load32 p (g + 12) = (if on_altstack (gpr host 13) alt then 1 else if snd alt = 0 then 2 else 0)"
proof -
  obtain m' where p: "p = store32 (store32 (store32 (prepare_context g host old
        (case info of None \<Rightarrow> 0 | Some i \<Rightarrow> si_addr i) m')
      (g + 8) (fst alt)) (g + 16) (snd alt))
      (g + 12) (if on_altstack (gpr host 13) alt then 1 else if snd alt = 0 then 2 else 0)"
    using write_frame_alt unfolding p_def g_def by blast
  note f = prepare_context_fields [OF v]
  show "load32 p (g + 96) = spsr host" "load32 p (g + 104) = fst old" "load32 p (g + 108) = snd old"
    "load32 p (g + 232) = LINUX_VFP_MAGIC" "load32 p (g + 236) = LINUX_VFP_FRAME_SIZE"
    "load32 p (g + 496) = vfp_fpscr host"
    "load32 p (g + 504) = vfp_fpexc host" "load32 p (g + 508) = vfp_fpinst host"
    "load32 p (g + 512) = vfp_fpinst2 host"
    using f unfolding p by (simp_all add: head_keeps32)
  show "load_bytes p (g + 240) 256 = vfp_x host" using f(7) unfolding p by (simp add: head_keeps)
  show "load32 p (g + 8) = fst alt" "load32 p (g + 16) = snd alt"
    "load32 p (g + 12) = (if on_altstack (gpr host 13) alt then 1 else if snd alt = 0 then 2 else 0)"
    unfolding p by (simp_all add: mem_simps frame_simps apart_def)
  show "load32 p (g + 32 + 4 * of_nat i) = gpr host i" if i: "i < 16"
  proof -
    have "unat (32 + 4 * of_nat i :: u32) = 32 + 4 * i"
      using i by (simp add: unat_word_ariths unat_of_nat)
    then have "load32 p (g + (32 + 4 * of_nat i)) = load32 (prepare_context g host old
        (case info of None \<Rightarrow> 0 | Some i \<Rightarrow> si_addr i) m') (g + (32 + 4 * of_nat i))"
      using i unfolding p by (intro head_keeps32) simp_all
    then show ?thesis using f(4) [OF i] by (simp add: add.assoc)
  qed
qed

section \<open>Properties\<close>

definition agree :: "mem \<Rightarrow> mem \<Rightarrow> u32 \<Rightarrow> nat \<Rightarrow> bool" where
  "agree m m' a n \<longleftrightarrow> (\<forall>x. unat (x - a) < n \<longrightarrow> m' x = m x)"

lemma load_bytes_agree:
  assumes "agree m m' a n" "unat c + k \<le> n" "n \<le> 4096"
  shows "load_bytes m' (a + c) k = load_bytes m (a + c) k"
proof -
  have "m' (a + c + of_nat i) = m (a + c + of_nat i)" if "i < k" for i
  proof -
    have "unat (of_nat i :: u32) = i" using that assms(2,3) by (simp add: unat_of_nat)
    then have "unat (c + of_nat i) = unat c + i" using unat_add_lem [of c "of_nat i"] that assms(2,3) by simp
    moreover have "a + c + of_nat i - a = c + of_nat i" by simp
    ultimately have "unat (a + c + of_nat i - a) < n" using that assms(2) by simp
    then show ?thesis using assms(1) unfolding agree_def by blast
  qed
  then show ?thesis by (simp add: load_bytes_def)
qed

lemma load32_agree:
  "agree m m' a n \<Longrightarrow> unat c + 4 \<le> n \<Longrightarrow> n \<le> 4096 \<Longrightarrow> load32 m' (a + c) = load32 m (a + c)"
  using load_bytes_agree [of m m' a n c 4] by (simp add: load32_def)

lemma agree_sub:
  assumes "agree m m' a n" "unat c + k \<le> n"
  shows "agree m m' (a + c) k"
  unfolding agree_def
proof (intro allI impI)
  fix x assume x: "unat (x - (a + c)) < k"
  have "x - a = (x - (a + c)) + c" by simp
  then have "unat (x - a) \<le> unat (x - (a + c)) + unat c" by (metis unat_plus_if' trans_le_add1 order_refl diff_le_self)
  then have "unat (x - a) < n" using x assms(2) by linarith
  then show "m' x = m x" using assms(1) unfolding agree_def by blast
qed

lemma frame_aligned: "frame_address action sp alt AND 7 = 0"
proof -
  have "(v AND NOT 7) AND 7 = 0" for v :: u32
    by (simp only: and.assoc) (simp add: and.commute [of "NOT 7"])
  then show ?thesis by (simp add: frame_address_def Let_def)
qed

lemma deliver_done:
  assumes "guest_signal_deliver H n info e = (0, e1)"
  defines "action \<equiv> guest_actions e n"
  defines "old \<equiv> fst (guest_thread_signal_delivery_mask (se_thread e))"
    and "s \<equiv> snd (guest_thread_signal_delivery_mask (se_thread e))"
  defines "frame \<equiv> frame_address action (gpr (se_context e) 13) (guest_thread_altstack_get s)"
  shows "se_mem e1 = write_frame action frame n info (se_context e) old (guest_thread_altstack_get s) (se_mem e)"
    and "gpr (se_context e1) = handler_registers H action frame n (gpr (se_context e))"
    and "se_thread e1 = guest_thread_signal_mask_set (handler_mask action n old) s"
    and "sa_handler action > 1"
  using assms(1) unfolding assms(2-5)
  by (auto simp: guest_signal_deliver_def Let_def case_prod_beta not_le split: if_splits)

lemma handler_sp: "handler_registers H action frame n r 13 = frame"
  by (simp add: handler_registers_def Let_def)

lemma signal_return_done:
  assumes sp: "gpr (se_context e) 13 AND 7 = 0"
    and g: "(if siginfo_frame then gpr (se_context e) 13 + 128 else gpr (se_context e) 13) = g"
    and vfp: "restore_vfp g (se_mem e) (se_context e) = Some c" and s: "se_thread e = Some s"
  shows "\<exists>e3. guest_signal_return H siginfo_frame e = (0, e3) \<and>
    se_context e3 = c\<lparr>uc_sigmask := linux_set_to_host H (load32 (se_mem e) (g + 104), load32 (se_mem e) (g + 108)),
      gpr := (\<lambda>i. if i < 16 then load32 (se_mem e) (g + 32 + 4 * of_nat i) else gpr c i),
      spsr := load32 (se_mem e) (g + 96)\<rparr> \<and>
    guest_thread_signal_mask_get (se_thread e3) = (load32 (se_mem e) (g + 104), load32 (se_mem e) (g + 108))"
  unfolding guest_signal_return_def Let_def g
  by (simp add: sp vfp s guest_thread_signal_mask_set_def guest_thread_signal_mask_get_def guest_thread_altstack_set_def)


definition standard_number :: "int \<Rightarrow> int" where
  "standard_number n = (case map_of standard_numbers n of Some h \<Rightarrow> h | None \<Rightarrow> 0)"

lemma standard_number_table:
  "list_all (\<lambda>n. if n = 16 then standard_number n = 0
     else 1 \<le> standard_number n \<and> standard_number n \<le> 31 \<and>
       find (\<lambda>k. standard_number k = standard_number n) [1..31] = Some n) [1..31]"
  by code_simp

lemma standard_number_outside: "n \<notin> set [1..31] \<Longrightarrow> standard_number n = 0"
  by (auto simp: standard_number_def standard_numbers_def split: if_splits)

lemma standard_number_inside:
  assumes "1 \<le> n" "n \<le> 31" "n \<noteq> 16"
  shows "1 \<le> standard_number n" "standard_number n \<le> 31"
    "find (\<lambda>k. standard_number k = standard_number n) [1..31] = Some n"
  using standard_number_table assms by (auto simp: list_all_iff)

lemma to_host_alt:
  "linux_signal_to_host H n = (if 32 \<le> n \<and> n \<le> 47 then SIGRTMIN H + n - 32 else standard_number n)"
  by (simp add: linux_signal_to_host_def standard_number_def)

lemma from_host_alt:
  "guest_signal_from_host H h =
     (if SIGRTMIN H \<le> h \<and> h \<le> SIGRTMAX H then h - SIGRTMIN H + 32
      else case find (\<lambda>k. standard_number k = h) [1..31] of Some n \<Rightarrow> n | None \<Rightarrow> 0)"
proof -
  have "find (\<lambda>k. linux_signal_to_host H k = h) [1..31] = find (\<lambda>k. standard_number k = h) [1..31]"
    by (rule find_cong) (auto simp: to_host_alt)
  then show ?thesis by (simp add: guest_signal_from_host_def)
qed

lemma to_host_nonzero:
  assumes "31 < SIGRTMIN H"
  shows "linux_signal_to_host H n \<noteq> 0 \<longleftrightarrow> 1 \<le> n \<and> n \<le> 47 \<and> n \<noteq> 16"
proof -
  have "standard_number n \<noteq> 0 \<longleftrightarrow> 1 \<le> n \<and> n \<le> 31 \<and> n \<noteq> 16"
    using standard_number_outside [of n] standard_number_inside(1) [of n]
    by (cases "n = 16") (auto simp: standard_number_def standard_numbers_def)
  then show ?thesis using assms by (auto simp: to_host_alt)
qed

text \<open>
  Signal numbers translate to the host and back. Where the host numbers its sixteen
  real-time signals after its ordinary ones, a guest signal has a host number exactly when it is one of
  1 to 47 other than 16, the stack fault that the host does not know, and \<open>guest_signal_from_host\<close>
  then recovers it; conversely a host number that stands for a guest signal is the one that signal is
  sent as.
\<close>

theorem signal_numbers_roundtrip:
  assumes "31 < SIGRTMIN H" and "SIGRTMAX H = SIGRTMIN H + 15"
  shows "(linux_signal_to_host H n \<noteq> 0 \<longleftrightarrow> 1 \<le> n \<and> n \<le> 47 \<and> n \<noteq> 16) \<and>
    (linux_signal_to_host H n \<noteq> 0 \<longrightarrow> guest_signal_from_host H (linux_signal_to_host H n) = n) \<and>
    (guest_signal_from_host H h \<noteq> 0 \<longrightarrow> linux_signal_to_host H (guest_signal_from_host H h) = h)"
proof (intro conjI impI)
  show nz: "linux_signal_to_host H n \<noteq> 0 \<longleftrightarrow> 1 \<le> n \<and> n \<le> 47 \<and> n \<noteq> 16"
    using to_host_nonzero [OF assms(1)] .
  show "guest_signal_from_host H (linux_signal_to_host H n) = n" if "linux_signal_to_host H n \<noteq> 0"
    using that nz assms standard_number_inside [of n]
    by (cases "32 \<le> n") (auto simp: to_host_alt from_host_alt)
  show "linux_signal_to_host H (guest_signal_from_host H h) = h" if known: "guest_signal_from_host H h \<noteq> 0"
  proof (cases "SIGRTMIN H \<le> h \<and> h \<le> SIGRTMAX H")
    case False
    then obtain k where k: "find (\<lambda>k. standard_number k = h) [1..31] = Some k"
      using known by (auto simp: from_host_alt split: option.splits)
    then have "standard_number k = h \<and> k \<in> {1..31}" by (auto simp: find_Some_iff)
    then show ?thesis using False k by (auto simp: from_host_alt to_host_alt)
  qed (use assms in \<open>auto simp: from_host_alt to_host_alt\<close>)
qed

definition qnx_signals :: sig_host where
  "qnx_signals = \<lparr>SIGRTMIN = 41, SIGRTMAX = 56, SIGILL = 4, SIGSEGV = 11, SIG_BLOCK = 0, SIG_UNBLOCK = 1,
     return_trampoline = 0x10000, rt_return_trampoline = 0x10004\<rparr>"

theorem signal_numbers_roundtrip_witness:
  "guest_signal_from_host qnx_signals (linux_signal_to_host qnx_signals 10) = 10 \<and>
   linux_signal_to_host qnx_signals 16 = 0 \<and>
   linux_signal_to_host qnx_signals (guest_signal_from_host qnx_signals 43) = 43"
  using signal_numbers_roundtrip [of qnx_signals 10 43] signal_numbers_roundtrip [of qnx_signals 16 43]
  by (simp add: qnx_signals_def guest_signal_from_host_def)

section \<open>Where frames go\<close>

definition frame_size :: "linux_sigaction \<Rightarrow> nat" where
  "frame_size action = (if sa_flags action AND LINUX_SA_SIGINFO \<noteq> 0 then 888 else 760)"

lemma unat_take_bit8: "unat (take_bit 3 v :: u32) = unat v mod 8"
  by (simp add: take_bit_eq_mod unat_mod)

lemma unat_align8: "unat (v AND NOT 7 :: u32) = unat v - unat v mod 8"
proof -
  have "v AND NOT 7 = v - take_bit 3 v" using and_not_mask_diff [of v 3] by (simp add: mask_eq_exp_minus_1)
  moreover have "take_bit 3 v \<le> v" by (simp add: word_le_nat_alt unat_take_bit8)
  then have "unat (v - take_bit 3 v) = unat v - unat (take_bit 3 v)" by (rule unat_sub)
  ultimately show ?thesis by (simp add: unat_take_bit8)
qed

lemma frame_below:
  assumes "768 + 128 \<le> unat t0" "k = 888 \<or> k = (760 :: u32)"
  shows "unat ((t0 - k) AND NOT 7) + unat k \<le> unat t0"
    "unat t0 \<le> unat ((t0 - k) AND NOT 7) + unat k + 7"
proof -
  have "k \<le> t0" using assms by (auto simp: word_le_nat_alt)
  then have "unat (t0 - k) = unat t0 - unat k" by (rule unat_sub)
  moreover have "unat k \<le> unat t0" using assms by auto
  moreover have "unat (t0 - k) mod 8 \<le> 7" by linarith
  ultimately show "unat ((t0 - k) AND NOT 7) + unat k \<le> unat t0"
    "unat t0 \<le> unat ((t0 - k) AND NOT 7) + unat k + 7" unfolding unat_align8 by linarith+
qed

lemma save_vfp_outside:
  assumes "744 \<le> unat (x - g)" "length (vfp_x host) = 256"
  shows "save_vfp g host m x = m x"
proof -
  have far: "n \<le> unat (x - (g + c))" if "unat c + n \<le> 744" for c n
    using outside_field [of c n x g] that assms(1) by linarith
  show ?thesis
    using assms(2) far
    by (simp add: save_vfp_def Let_def store32_outside memset_outside store_bytes_outside add.assoc)
qed

lemma prepare_context_outside:
  assumes "744 \<le> unat (x - g)" "length (vfp_x host) = 256"
  shows "prepare_context g host old fault m x = m x"
proof -
  have far: "n \<le> unat (x - (g + c))" if "unat c + n \<le> 744" for c n
    using outside_field [of c n x g] that assms(1) by linarith
  show ?thesis
    using assms far
    by (simp add: prepare_context_def Let_def save_vfp_outside store_words_outside store32_outside memset_outside)
qed

lemma write_frame_outside:
  assumes x: "frame_size action \<le> unat (x - frame)" and v: "length (vfp_x host) = 256"
  shows "write_frame action frame n info host old alt m x = m x"
proof (cases "sa_flags action AND LINUX_SA_SIGINFO \<noteq> 0")
  case True
  have far: "k \<le> unat (x - (frame + c))" if "unat c + k \<le> 888" for c k
    using outside_field [of c k x frame] that x True by (simp add: frame_size_def)
  have "888 \<le> unat (x - frame)" using x True by (simp add: frame_size_def)
  then show ?thesis
    using True far v
    by (simp add: write_frame_def fill_siginfo_def Let_def prepare_context_outside store32_outside memset_outside
        add.assoc split: option.split)
next
  case False
  have far: "k \<le> unat (x - (frame + c))" if "unat c + k \<le> 760" for c k
    using outside_field [of c k x frame] that x False by (simp add: frame_size_def)
  have "760 \<le> unat (x - frame)" using x False by (simp add: frame_size_def)
  then show ?thesis
    using False far v
    by (simp add: write_frame_def Let_def prepare_context_outside store32_outside memset_outside)
qed

lemma delivery_mask_altstack:
  "guest_thread_altstack_get (snd (guest_thread_signal_delivery_mask s)) = guest_thread_altstack_get s"
  by (auto simp: guest_thread_signal_delivery_mask_def guest_thread_altstack_get_def split: option.splits)

definition to_altstack :: "linux_sigaction \<Rightarrow> u32 \<Rightarrow> u32 \<times> u32 \<Rightarrow> bool" where
  "to_altstack action sp alt \<longleftrightarrow>
     sa_flags action AND LINUX_SA_ONSTACK \<noteq> 0 \<and> snd alt \<noteq> 0 \<and> \<not> on_altstack sp alt"

lemma frame_address_alt:
  "\<exists>k. (k = 888 \<or> k = (760 :: u32)) \<and> frame_size action = unat k \<and>
    frame_address action sp alt =
      ((if to_altstack action sp alt then fst alt + snd alt else sp - HOST_SIGNAL_STACK_RESERVE) - k) AND NOT 7"
  by (auto simp: frame_address_def frame_size_def to_altstack_def Let_def)

lemma frame_placed:
  assumes room: "if to_altstack action sp alt
      then 2048 \<le> unat (snd alt) \<and> unat (fst alt) + unat (snd alt) < 4294967296 else 9088 \<le> unat sp"
    and f: "f = unat (frame_address action sp alt)"
  shows "if to_altstack action sp alt
    then unat (fst alt) \<le> f \<and> f + frame_size action \<le> unat (fst alt) + unat (snd alt)
    else f + frame_size action + 8192 \<le> unat sp"
proof -
  define t0 where "t0 = (if to_altstack action sp alt then fst alt + snd alt else sp - HOST_SIGNAL_STACK_RESERVE)"
  obtain k where k: "k = 888 \<or> k = (760 :: u32)" "frame_size action = unat k" "f = unat ((t0 - k) AND NOT 7)"
    using frame_address_alt [of action sp alt, folded t0_def] unfolding f by metis
  have t0: "unat t0 = (if to_altstack action sp alt then unat (fst alt) + unat (snd alt) else unat sp - 8192)"
    using room unat_add_lem [of "fst alt" "snd alt"] unat_sub [of 8192 sp]
    by (auto simp: t0_def word_le_nat_alt split: if_splits)
  have "768 + 128 \<le> unat t0" using room by (auto simp: t0 split: if_splits)
  note b = frame_below [OF this k(1), folded k(3)]
  have "unat k \<le> 888" using k(1) by auto
  then show ?thesis using b room unfolding t0 k(2) by (auto split: if_splits)
qed

text \<open>
  C24 (safety). A handler's frame goes where it can do no harm. With room on the stack in question (an
  alternate stack of the size \<open>guest_signal_altstack\<close> insists on, or 9088 bytes below the stack
  pointer), the frame is eight-byte aligned, it lies inside the alternate stack if that is asked for and
  not already in use, and otherwise ends at least 8192 bytes below the interrupted stack pointer, clear
  of the live host frames; and no byte of memory outside the frame changes.
\<close>

theorem signal_frame_placement:
  assumes deliver: "guest_signal_deliver H n info e = (0, e1)"
    and vfp: "length (vfp_x (se_context e)) = 256"
    and room: "if to_altstack (guest_actions e n) (gpr (se_context e) 13) (guest_thread_altstack_get (se_thread e))
      then 2048 \<le> unat (snd (guest_thread_altstack_get (se_thread e))) \<and>
        unat (fst (guest_thread_altstack_get (se_thread e))) +
          unat (snd (guest_thread_altstack_get (se_thread e))) < 4294967296
      else 9088 \<le> unat (gpr (se_context e) 13)"
    and f: "f = unat (gpr (se_context e1) 13)"
  shows "f mod 8 = 0 \<and>
    (if to_altstack (guest_actions e n) (gpr (se_context e) 13) (guest_thread_altstack_get (se_thread e))
     then unat (fst (guest_thread_altstack_get (se_thread e))) \<le> f \<and>
       f + frame_size (guest_actions e n) \<le> unat (fst (guest_thread_altstack_get (se_thread e))) +
         unat (snd (guest_thread_altstack_get (se_thread e)))
     else f + frame_size (guest_actions e n) + 8192 \<le> unat (gpr (se_context e) 13)) \<and>
    (\<forall>x. unat x < f \<or> f + frame_size (guest_actions e n) \<le> unat x \<longrightarrow> se_mem e1 x = se_mem e x)"
proof -
  note d = deliver_done [OF deliver, unfolded delivery_mask_altstack]
  define sp where "sp = gpr (se_context e) 13"
  define alt where "alt = guest_thread_altstack_get (se_thread e)"
  define action where "action = guest_actions e n"
  have f1: "gpr (se_context e1) 13 = frame_address action sp alt"
    using d(2) by (simp add: handler_sp sp_def alt_def action_def)
  note pl = frame_placed [OF room [folded sp_def alt_def action_def] f [unfolded f1]]
  have "take_bit 3 (frame_address action sp alt) = 0"
    using frame_aligned [of action sp alt] by (simp add: take_bit_eq_mask mask_eq_exp_minus_1)
  then have mod8: "f mod 8 = 0" using unat_take_bit8 [of "frame_address action sp alt"] f f1 by simp
  have fit: "f + frame_size action \<le> 4294967296"
    using pl room unat_u32_less [of sp] by (auto simp: sp_def alt_def action_def split: if_splits)
  have "se_mem e1 x = se_mem e x" if "unat x < f \<or> f + frame_size action \<le> unat x" for x
  proof -
    have "frame_size action \<le> unat (x - frame_address action sp alt)"
    proof (cases "frame_address action sp alt \<le> x")
      case True
      then show ?thesis using that unat_sub [OF True] f f1 by (auto simp: word_le_nat_alt)
    next
      case False
      then have "x \<noteq> frame_address action sp alt" by auto
      from unat_diff_flip [OF this] show ?thesis
        using False fit f f1 unat_sub [of x "frame_address action sp alt"] by (auto simp: word_le_nat_alt)
    qed
    from write_frame_outside [OF this vfp] show ?thesis using d(1) by (simp add: sp_def alt_def action_def)
  qed
  then show ?thesis using pl mod8 unfolding sp_def alt_def action_def by blast
qed
lemma signal_return_frame:
  assumes deliver: "guest_signal_deliver H n info e = (0, e1)"
    and vfp: "length (vfp_x (se_context e)) = 256"
    and sp: "gpr (se_context e2) 13 = gpr (se_context e1) 13"
    and intact: "agree (se_mem e1) (se_mem e2) (gpr (se_context e1) 13) 888"
    and rt: "siginfo_frame \<longleftrightarrow> sa_flags (guest_actions e n) AND 4 \<noteq> 0"
    and alive: "se_thread e2 = Some s2"
    and old: "old = fst (guest_thread_signal_delivery_mask (se_thread e))"
  shows "\<exists>e3. guest_signal_return H siginfo_frame e2 = (0, e3) \<and>
    (\<forall>i<16. gpr (se_context e3) i = gpr (se_context e) i) \<and> spsr (se_context e3) = spsr (se_context e) \<and>
    vfp_x (se_context e3) = vfp_x (se_context e) \<and> vfp_fpscr (se_context e3) = vfp_fpscr (se_context e) \<and>
    vfp_fpexc (se_context e3) = vfp_fpexc (se_context e) \<and> vfp_fpinst (se_context e3) = vfp_fpinst (se_context e) \<and>
    vfp_fpinst2 (se_context e3) = vfp_fpinst2 (se_context e) \<and>
    guest_thread_signal_mask_get (se_thread e3) = old \<and>
    uc_sigmask (se_context e3) = linux_set_to_host H old"
proof -
  define action where "action = guest_actions e n"
  define s where "s = snd (guest_thread_signal_delivery_mask (se_thread e))"
  define frame where "frame = frame_address action (gpr (se_context e) 13) (guest_thread_altstack_get s)"
  define g where "g = context_base action frame"
  note d = deliver_done [OF deliver, folded action_def old s_def, folded frame_def]
  have sp2: "gpr (se_context e2) 13 = frame" using sp d(2) by (simp add: handler_sp)
  have frame1: "gpr (se_context e1) 13 = frame" using d(2) by (simp add: handler_sp)
  have g: "g = (if siginfo_frame then frame + 128 else frame)" by (simp add: g_def context_base_def rt action_def)
  have ag: "agree (se_mem e1) (se_mem e2) g 744"
    using intact agree_sub [OF intact, of 128 744] agree_sub [OF intact, of 0 744]
    unfolding frame1 g by (cases siginfo_frame) simp_all
  note f = write_frame_fields [OF vfp, where action = action and frame = frame and n = n and info = info and
      old = old and alt = "guest_thread_altstack_get s" and m = "se_mem e", folded g_def d(1)]
  have load: "load32 (se_mem e2) (g + c) = load32 (se_mem e1) (g + c)" if "unat c + 4 \<le> 744" for c
    using load32_agree [OF ag that] by simp
  have regs: "load32 (se_mem e2) (g + 32 + 4 * of_nat i) = gpr (se_context e) i" if i: "i < 16" for i
  proof -
    have "unat (32 + 4 * of_nat i :: u32) = 32 + 4 * i" using i by (simp add: unat_word_ariths unat_of_nat)
    then show ?thesis using load [of "32 + 4 * of_nat i"] f(4) [OF i] i by (simp add: add.assoc)
  qed
  have bytes: "load_bytes (se_mem e2) (g + 240) 256 = vfp_x (se_context e)"
    using load_bytes_agree [OF ag, of 240 256] f(7) by simp
  have vfp2: "restore_vfp g (se_mem e2) (se_context e2) = Some ((se_context e2)\<lparr>vfp_x := vfp_x (se_context e),
      vfp_fpscr := vfp_fpscr (se_context e), vfp_fpexc := vfp_fpexc (se_context e),
      vfp_fpinst := vfp_fpinst (se_context e), vfp_fpinst2 := vfp_fpinst2 (se_context e)\<rparr>)"
    using f(5,6,8-11) bytes load [of 232] load [of 236] load [of 496] load [of 504] load [of 508] load [of 512]
    by (simp add: restore_vfp_def Let_def add.assoc)
  have mask2: "load32 (se_mem e2) (g + 104) = fst old" "load32 (se_mem e2) (g + 108) = snd old"
    "load32 (se_mem e2) (g + 96) = spsr (se_context e)"
    using f(1-3) load [of 104] load [of 108] load [of 96] by simp_all
  have al: "gpr (se_context e2) 13 AND 7 = 0" by (simp add: sp2 frame_def frame_aligned)
  have base: "(if siginfo_frame then gpr (se_context e2) 13 + 128 else gpr (se_context e2) 13) = g"
    by (simp only: sp2 g)
  note ret = signal_return_done [OF al base vfp2 alive, of H, unfolded mask2 prod.collapse]
  then obtain e3 where run: "guest_signal_return H siginfo_frame e2 = (0, e3)"
    and fields: "se_context e3 = (se_context e2)\<lparr>vfp_x := vfp_x (se_context e),
      vfp_fpscr := vfp_fpscr (se_context e), vfp_fpexc := vfp_fpexc (se_context e),
      vfp_fpinst := vfp_fpinst (se_context e), vfp_fpinst2 := vfp_fpinst2 (se_context e)\<rparr>
      \<lparr>uc_sigmask := linux_set_to_host H old,
      gpr := (\<lambda>i. if i < 16 then load32 (se_mem e2) (g + 32 + 4 * of_nat i) else gpr ((se_context e2)\<lparr>vfp_x := vfp_x (se_context e),
      vfp_fpscr := vfp_fpscr (se_context e), vfp_fpexc := vfp_fpexc (se_context e),
      vfp_fpinst := vfp_fpinst (se_context e), vfp_fpinst2 := vfp_fpinst2 (se_context e)\<rparr>) i),
      spsr := spsr (se_context e)\<rparr>" "guest_thread_signal_mask_get (se_thread e3) = old"
    by blast
  have "\<forall>i<16. gpr (se_context e3) i = gpr (se_context e) i" using regs by (simp add: fields(1))
  then show ?thesis using run fields(2) by (intro exI [of _ e3]) (simp add: fields(1))
qed

text \<open>
  C3 (roundtrip). Returning from a signal handler restores what the signal interrupted. If
  \<open>guest_signal_deliver\<close> started a handler, and the handler comes back with the stack pointer it was
  given and its frame intact, then \<open>guest_signal_return\<close> succeeds and gives back the sixteen
  registers, the status word, all floating-point state and the signal mask of before.
\<close>

theorem signal_return_restores:
  assumes deliver: "guest_signal_deliver H n info e = (0, e1)"
    and vfp: "length (vfp_x (se_context e)) = 256"
    and sp: "gpr (se_context e2) 13 = gpr (se_context e1) 13"
    and intact: "agree (se_mem e1) (se_mem e2) (gpr (se_context e1) 13) 888"
    and rt: "siginfo_frame \<longleftrightarrow> sa_flags (guest_actions e n) AND 4 \<noteq> 0"
    and alive: "se_thread e2 = Some s2"
    and old: "old = fst (guest_thread_signal_delivery_mask (se_thread e))"
  shows "\<exists>e3. guest_signal_return H siginfo_frame e2 = (0, e3) \<and>
    (\<forall>i<16. gpr (se_context e3) i = gpr (se_context e) i) \<and> spsr (se_context e3) = spsr (se_context e) \<and>
    vfp_x (se_context e3) = vfp_x (se_context e) \<and> vfp_fpscr (se_context e3) = vfp_fpscr (se_context e) \<and>
    vfp_fpexc (se_context e3) = vfp_fpexc (se_context e) \<and> vfp_fpinst (se_context e3) = vfp_fpinst (se_context e) \<and>
    vfp_fpinst2 (se_context e3) = vfp_fpinst2 (se_context e) \<and>
    guest_thread_signal_mask_get (se_thread e3) = old \<and>
    uc_sigmask (se_context e3) = linux_set_to_host H old"
  by (rule signal_return_frame [OF assms])

section \<open>Signals from the host\<close>

lemma deliver_blocked:
  assumes "1 \<le> k" "k \<le> 64" "k \<noteq> 4" "k \<noteq> 11" "se_thread e = Some s" "sig_member (signal_mask s) k"
  shows "fst (guest_signal_deliver H k info e) = 1"
    "se_thread (snd (guest_signal_deliver H k info e)) = snd (guest_thread_signal_pending k info (Some s))"
  using assms by (simp_all add: guest_signal_deliver_def guest_thread_signal_mask_get_def case_prod_beta)

text \<open>
  C37 (functional). What the host's signal handler queues. A real-time signal that arrives in
  emulator code or during a system call joins the thread's queue once. One that arrives in guest
  code while the guest blocks it joins the queue twice: \<open>guest_signal_deliver\<close> queues it and
  returns 1, which \<open>host_signal_handler\<close> takes for a signal still to be queued.
\<close>

theorem host_signal_queued:
  assumes k: "guest_signal_from_host H h = k" "rt_signal k"
    and s: "se_thread e = Some s" "queues_ok s" "length (waiting s k) + 2 \<le> 64"
  shows "(syscall_active s \<or> \<not> guest_memory_is_executable (gpr (se_context e) 15) 4 g \<longrightarrow>
      (\<exists>t. se_thread (host_signal_handler H g h i e) = Some t \<and> waiting t k = waiting s k @ [i])) \<and>
    (\<not> syscall_active s \<and> guest_memory_is_executable (gpr (se_context e) 15) 4 g \<and> sig_member (signal_mask s) k \<longrightarrow>
      (\<exists>t. se_thread (host_signal_handler H g h i e) = Some t \<and> waiting t k = waiting s k @ [i, i]))"
proof -
  have r: "1 \<le> k" "k \<le> 64" "k \<noteq> 4" "k \<noteq> 11" "k \<noteq> 0" "deliverable k" "capacity k = 64"
    using k(2) by (auto simp: rt_signal_def deliverable_def capacity_def)
  obtain t where t: "snd (guest_thread_signal_pending k (Some i) (Some s)) = Some t" "queues_ok t"
    "waiting t k = waiting s k @ [i]"
    using signal_pending_spec [OF s(2) r(1,2), of i] r s(3) by auto
  obtain u where u: "snd (guest_thread_signal_pending k (Some i) (Some t)) = Some u"
    "waiting u k = waiting t k @ [i]"
    using signal_pending_spec [OF t(2) r(1,2), of i] r s(3) t(3) by auto
  have once: "se_thread (host_signal_handler H g h i e) = Some t"
    if "syscall_active s \<or> \<not> guest_memory_is_executable (gpr (se_context e) 15) 4 g"
    using that t(1) s(1) r(5) k(1)
    by (auto simp: host_signal_handler_def guest_thread_syscall_active_def case_prod_beta)
  have twice: "se_thread (host_signal_handler H g h i e) = Some u"
    if "\<not> syscall_active s" "guest_memory_is_executable (gpr (se_context e) 15) 4 g" "sig_member (signal_mask s) k"
    using that t(1) u(1) s(1) r(5) k(1) deliver_blocked [OF r(1-4) s(1) that(3), of H "Some i"]
    by (simp add: host_signal_handler_def guest_thread_syscall_active_def case_prod_beta)
  show ?thesis using once twice t(3) u(2) by auto
qed

section \<open>Witnesses\<close>

definition demo_action :: linux_sigaction where
  "demo_action = \<lparr>sa_handler = 0x20000, sa_flags = 4, sa_restorer = 0, sa_mask = (0, 0)\<rparr>"

definition demo_context :: host_context where
  "demo_context = \<lparr>gpr = (\<lambda>i. 0x30000 + of_nat i), spsr = 16, vfp_x = replicate 256 7, vfp_fpscr = 1, vfp_fpexc = 2,
     vfp_fpinst = 3, vfp_fpinst2 = 4, uc_sigmask = {}\<rparr>"

definition demo_env :: signal_env where
  "demo_env = \<lparr>guest_actions = (\<lambda>_. demo_action), se_thread = Some (blank_thread\<lparr>signal_mask := (0, 4)\<rparr>),
     se_context = demo_context, se_mem = (\<lambda>_. 0), se_effects = []\<rparr>"

definition demo_handler_env :: signal_env where
  "demo_handler_env = snd (guest_signal_deliver qnx_signals 10 None demo_env)"

lemma demo_deliver: "guest_signal_deliver qnx_signals 10 None demo_env = (0, demo_handler_env)"
proof -
  have "fst (guest_signal_deliver qnx_signals 10 None demo_env) = 0"
    by (simp add: guest_signal_deliver_def Let_def case_prod_beta demo_env_def demo_action_def blank_thread_def
        guest_thread_signal_mask_get_def sig_member_def sig_word_def sig_bit_def word_le_nat_alt)
  then show ?thesis unfolding demo_handler_env_def by (metis prod.collapse)
qed

lemma demo_alive: "\<exists>s. se_thread demo_handler_env = Some s"
  using deliver_done(3) [OF demo_deliver]
  by (simp add: demo_env_def guest_thread_signal_mask_set_def guest_thread_signal_delivery_mask_def)

theorem signal_return_restores_witness:
  "\<exists>e3. guest_signal_return qnx_signals True demo_handler_env = (0, e3) \<and>
    gpr (se_context e3) 5 = 0x30005 \<and> guest_thread_signal_mask_get (se_thread e3) = (0, 4)"
proof -
  obtain s where s: "se_thread demo_handler_env = Some s" using demo_alive by blast
  have r5: "gpr (se_context demo_env) 5 = 0x30005" by (simp add: demo_env_def demo_context_def)
  have old: "(0, 4) = fst (guest_thread_signal_delivery_mask (se_thread demo_env))"
    by (simp add: demo_env_def blank_thread_def guest_thread_signal_delivery_mask_def guest_thread_signal_mask_get_def)
  have "length (vfp_x (se_context demo_env)) = 256" by (simp add: demo_env_def demo_context_def)
  moreover have "True \<longleftrightarrow> sa_flags (guest_actions demo_env 10) AND 4 \<noteq> 0" by (simp add: demo_env_def demo_action_def)
  moreover have "agree (se_mem demo_handler_env) (se_mem demo_handler_env) (gpr (se_context demo_handler_env) 13) 888"
    by (simp add: agree_def)
  ultimately obtain e3 where "guest_signal_return qnx_signals True demo_handler_env = (0, e3)"
    "\<forall>i<16. gpr (se_context e3) i = gpr (se_context demo_env) i"
    "guest_thread_signal_mask_get (se_thread e3) = (0, 4)"
    using signal_return_restores [OF demo_deliver _ refl _ _ s old] by blast
  then show ?thesis using r5 by (intro exI [of _ e3]) simp
qed

theorem signal_frame_placement_witness:
  "unat (gpr (se_context demo_handler_env) 13) + 888 + 8192 \<le> 0x3000D \<and>
   se_mem demo_handler_env 0x3000D = 0"
proof -
  have "\<not> to_altstack (guest_actions demo_env 10) (gpr (se_context demo_env) 13) (guest_thread_altstack_get (se_thread demo_env))"
    by (simp add: to_altstack_def demo_env_def demo_action_def)
  moreover have "length (vfp_x (se_context demo_env)) = 256" "unat (gpr (se_context demo_env) 13) = 0x3000D"
    "frame_size (guest_actions demo_env 10) = 888" "se_mem demo_env = (\<lambda>_. 0)"
    by (simp_all add: demo_env_def demo_context_def demo_action_def frame_size_def)
  ultimately show ?thesis using signal_frame_placement [OF demo_deliver _ _ refl] by simp
qed

definition guest_code :: guest_memory where
  "guest_code = \<lparr>load_segments = [\<lparr>map_start = 0x30000, map_length = 0x1000, final_protection = {PROT_READ, PROT_EXEC}\<rparr>],
     page_size = 4096, current_break = 0, minimum_break = 0, break_mapping_end = 0, runtime_mappings = []\<rparr>"

theorem host_signal_queued_witness:
  "\<exists>t. se_thread (host_signal_handler qnx_signals guest_code 43 zero_siginfo
      (demo_env\<lparr>se_thread := Some (blank_thread\<lparr>signal_mask := (0, 2)\<rparr>)\<rparr>)) = Some t \<and>
    waiting t 34 = [zero_siginfo, zero_siginfo]"
proof -
  let ?s = "blank_thread\<lparr>signal_mask := (0, 2)\<rparr>"
  let ?e = "demo_env\<lparr>se_thread := Some ?s\<rparr>"
  have w: "waiting ?s = waiting blank_thread" "queues_ok ?s = queues_ok blank_thread" by (rule waiting_cong; simp)+
  have q: "queues_ok ?s" "waiting ?s 34 = []" unfolding w by (rule blank_queues)+
  have k: "guest_signal_from_host qnx_signals 43 = 34" "rt_signal 34"
    by (simp_all add: guest_signal_from_host_def qnx_signals_def rt_signal_def)
  have x: "guest_memory_is_executable (gpr (se_context ?e) 15) 4 guest_code"
    by (simp add: guest_memory_is_executable_def guest_code_def demo_env_def demo_context_def)
  have m: "\<not> syscall_active ?s" "sig_member (signal_mask ?s) 34"
    by (simp_all add: blank_thread_def sig_member_def sig_word_def sig_bit_def)
  show ?thesis
    using host_signal_queued [OF k(1,2), of ?e ?s guest_code zero_siginfo] q x m by simp
qed

end
