(* ===== verification/Linux_Poll.thy ===== *)
theory Linux_Poll
  imports Guest_Signal
begin

text \<open>
  \<open>src/src/linux_poll.c\<close>: \<open>poll\<close>, \<open>ppoll\<close>, \<open>select\<close> and \<open>pselect6\<close>. The calls that replace the
  signal mask wait on a pipe of the thread as well, so that a signal that becomes pending
  for the guest ends the wait.
\<close>

unbundle bit_operations_syntax

section \<open>State and host\<close>

record 'h poll_state =
  ps_thread :: "guest_thread_state option"
  ps_world :: "'h world"

text \<open>The host's event bits; \<open>POLLIN\<close> is a combination of them that the host chooses.\<close>

datatype poll_event = POLLRDNORM | POLLRDBAND | POLLPRI | POLLOUT | POLLWRBAND | POLLERR | POLLHUP | POLLNVAL

text \<open>
  While the thread waits or changes its mask, its signal handlers may run, so these calls act on
  the state as a whole. \<open>po_poll\<close> delivers the number of ready entries and the
  returned events of each entry; \<open>po_select\<close> the number, the three sets and the timeout
  as it left them.
\<close>

record 'h poll_host =
  po_sig :: sig_host
  po_pipe :: "'h host_pipe"
  po_effect :: "thread_effect \<Rightarrow> 'h \<Rightarrow> 'h"
  po_pollin :: "poll_event set"
  po_fd_setsize :: int
  po_calloc_ok :: "nat \<Rightarrow> bool"
  po_setmask :: "int set \<Rightarrow> 'h poll_state \<Rightarrow> (host_errno + int set) \<times> 'h poll_state"
  po_poll :: "(int \<times> poll_event set) list \<Rightarrow> int \<Rightarrow> 'h poll_state \<Rightarrow>
    (host_errno + int \<times> poll_event set list) \<times> 'h poll_state"
  po_select :: "int \<Rightarrow> int set option \<Rightarrow> int set option \<Rightarrow> int set option \<Rightarrow> (int \<times> int) option \<Rightarrow> 'h poll_state \<Rightarrow>
    (host_errno + int \<times> int set \<times> int set \<times> int set \<times> (int \<times> int)) \<times> 'h poll_state"

abbreviation (input) LINUX_NR_SELECT :: u32 where "LINUX_NR_SELECT \<equiv> 82"
abbreviation (input) LINUX_NR_POLL :: u32 where "LINUX_NR_POLL \<equiv> 168"
abbreviation (input) LINUX_NR_PSELECT6 :: u32 where "LINUX_NR_PSELECT6 \<equiv> 335"
abbreviation (input) LINUX_NR_PPOLL :: u32 where "LINUX_NR_PPOLL \<equiv> 336"
abbreviation (input) LINUX_NR_PSELECT6_TIME64 :: u32 where "LINUX_NR_PSELECT6_TIME64 \<equiv> 413"
abbreviation (input) LINUX_NR_PPOLL_TIME64 :: u32 where "LINUX_NR_PPOLL_TIME64 \<equiv> 414"

abbreviation ps_mem :: "'h poll_state \<Rightarrow> mem" where "ps_mem st \<equiv> w_mem (ps_world st)"

definition set_ps_mem :: "mem \<Rightarrow> 'h poll_state \<Rightarrow> 'h poll_state" where
  "set_ps_mem m st = st\<lparr>ps_world := (ps_world st)\<lparr>w_mem := m\<rparr>\<rparr>"

definition run_effects :: "'h poll_host \<Rightarrow> thread_effect list \<Rightarrow> 'h poll_state \<Rightarrow> 'h poll_state" where
  "run_effects H es st = st\<lparr>ps_world := (ps_world st)\<lparr>w_host := fold (po_effect H) es (w_host (ps_world st))\<rparr>\<rparr>"

section \<open>Events\<close>

definition poll_events_to_host :: "u16 \<Rightarrow> poll_event set" where
  "poll_events_to_host v =
     flag_if (v AND (0x001 OR 0x040) \<noteq> 0) POLLRDNORM \<union>
     flag_if (v AND 0x080 \<noteq> 0) POLLRDBAND \<union>
     flag_if (v AND 0x002 \<noteq> 0) POLLPRI \<union>
     flag_if (v AND (0x004 OR 0x100) \<noteq> 0) POLLOUT \<union>
     flag_if (v AND 0x200 \<noteq> 0) POLLWRBAND"

definition poll_events_to_linux :: "poll_event set \<Rightarrow> u16" where
  "poll_events_to_linux v =
     (if POLLRDNORM \<in> v then 0x001 OR 0x040 else 0) OR
     (if POLLRDBAND \<in> v then 0x001 OR 0x080 else 0) OR
     (if POLLPRI \<in> v then 0x002 else 0) OR
     (if POLLOUT \<in> v then 0x004 OR 0x100 else 0) OR
     (if POLLWRBAND \<in> v then 0x200 else 0) OR
     (if POLLERR \<in> v then 0x008 else 0) OR
     (if POLLHUP \<in> v then 0x010 else 0) OR
     (if POLLNVAL \<in> v then 0x020 else 0)"

text \<open>The two fields of a time in guest memory, of 32 or 64 bits.\<close>

definition time_fields :: "bool \<Rightarrow> mem \<Rightarrow> u32 \<Rightarrow> int \<times> int" where
  "time_fields time64 m a =
     (if time64 then (sint (load64 m a), sint (load64 m (a + 8)))
      else (sint (load32 m a), sint (load32 m (a + 4))))"

text \<open>The conversion to \<open>int\<close> keeps the low 32 bits.\<close>

definition timespec_timeout :: "mem \<Rightarrow> u32 \<Rightarrow> bool \<Rightarrow> sysret + int" where
  "timespec_timeout m address time64 =
     (if address = 0 then Inr (-1)
      else case time_fields time64 m address of (seconds, nanoseconds) \<Rightarrow>
        if seconds < 0 \<or> nanoseconds < 0 \<or> nanoseconds \<ge> 1000000000 then Inl (RawHost EINVAL)
        else if seconds > (INT_MAX - 1) div 1000 then Inr INT_MAX
        else Inr (sint (of_int (seconds * 1000 + (nanoseconds + 999999) div 1000000) :: u32)))"

section \<open>\<open>poll\<close>\<close>

text \<open>An entry of the guest's array: descriptor, requested events, returned events.\<close>

abbreviation (input) pollfd_at :: "u32 \<Rightarrow> nat \<Rightarrow> u32" where
  "pollfd_at guest i \<equiv> guest + 8 * of_nat i"

definition load_pollfd :: "mem \<Rightarrow> u32 \<Rightarrow> nat \<Rightarrow> int \<times> poll_event set" where
  "load_pollfd m guest i =
     (sint (load32 m (pollfd_at guest i)), poll_events_to_host (load16 m (pollfd_at guest i + 4)))"

primrec store_revents :: "mem \<Rightarrow> u32 \<Rightarrow> nat \<Rightarrow> poll_event set list \<Rightarrow> mem" where
  "store_revents m guest i [] = m"
| "store_revents m guest i (r # rs) =
     store_revents (store16 m (pollfd_at guest i + 6) (poll_events_to_linux r)) guest (Suc i) rs"

text \<open>The result, whether a signal ended the wait, and the new state. A negative \<open>signal_wait_fd\<close> is none.\<close>

definition do_poll ::
  "'h poll_host \<Rightarrow> u32 \<Rightarrow> u32 \<Rightarrow> int \<Rightarrow> int \<Rightarrow> 'h poll_state \<Rightarrow> sysret \<times> bool \<times> 'h poll_state" where
  "do_poll H guest count timeout signal_wait_fd st =
     (let n = unat count;
          extra = (if signal_wait_fd \<ge> 0 then [(signal_wait_fd, po_pollin H)] else [])
      in if count > 65536 then (RawHost EINVAL, False, st)
         else if n + length extra \<noteq> 0 \<and> \<not> po_calloc_ok H (n + length extra) then (RawHost ENOMEM, False, st)
         else case po_poll H (map (load_pollfd (ps_mem st) guest) [0..<n] @ extra) timeout st of
           (Inl e, st) \<Rightarrow> (Translated e, e = EINTR, st)
         | (Inr (result, revents), st) \<Rightarrow>
             if result > 0 \<and> signal_wait_fd \<ge> 0 \<and> revents ! n \<noteq> {} then (Translated EINTR, True, st)
             else (Value result, False, set_ps_mem (store_revents (ps_mem st) guest 0 (take n revents)) st))"

section \<open>Waiting with another mask\<close>

text \<open>
  The steps both families share: opening the pipe, installing the requested mask, and undoing
  both after the wait. \<open>open_wait\<close> delivers the descriptor, the requested mask for the host and as guest
  words, and the thread's mask before.
\<close>

definition open_wait ::
  "'h poll_host \<Rightarrow> u32 \<Rightarrow> u32 \<Rightarrow> 'h poll_state \<Rightarrow> (sysret + int \<times> int set \<times> sigwords \<times> sigwords) \<times> 'h poll_state" where
  "open_wait H guest_set set_size st =
     (case guest_signal_host_mask (po_sig H) guest_set set_size (ps_mem st) of
        Inl r \<Rightarrow> (Inl r, st)
      | Inr requested \<Rightarrow>
          let requested_words = load_mask (ps_mem st) guest_set;
              old_words = guest_thread_signal_mask_get (ps_thread st)
          in case guest_thread_signal_wait_begin (po_pipe H) (ps_thread st) (w_host (ps_world st)) of
            (r, t, h) \<Rightarrow>
              let st = st\<lparr>ps_thread := t, ps_world := (ps_world st)\<lparr>w_host := h\<rparr>\<rparr> in
              (case r of
                 Done fd \<Rightarrow> (Inr (fd, requested, requested_words, old_words), st)
               | Fail e \<Rightarrow> (Inl (Translated e), st)
               | _ \<Rightarrow> (Inl (Translated NoError), st)))"

definition close_wait :: "'h poll_host \<Rightarrow> 'h poll_state \<Rightarrow> 'h poll_state" where
  "close_wait H st =
     (case guest_thread_signal_wait_end (ps_thread st) of (es, t) \<Rightarrow> run_effects H es (st\<lparr>ps_thread := t\<rparr>))"

definition enter_mask ::
  "'h poll_host \<Rightarrow> int set \<Rightarrow> sigwords \<Rightarrow> 'h poll_state \<Rightarrow> (sysret + int set) \<times> 'h poll_state" where
  "enter_mask H requested requested_words st =
     (case po_setmask H requested st of
        (Inl e, st) \<Rightarrow> (Inl (Translated e), close_wait H st)
      | (Inr old, st) \<Rightarrow>
          let st = st\<lparr>ps_thread := guest_thread_signal_mask_set requested_words (ps_thread st)\<rparr>
          in (Inr old, run_effects H (guest_thread_signal_wait_arm (ps_thread st)) st))"

definition leave_mask :: "'h poll_host \<Rightarrow> bool \<Rightarrow> sigwords \<Rightarrow> int set \<Rightarrow> 'h poll_state \<Rightarrow> 'h poll_state" where
  "leave_mask H signal_interrupted old_words old st =
     (let t = (if signal_interrupted then guest_thread_signal_wait_interrupted old_words (ps_thread st)
               else guest_thread_signal_wait_complete old_words (ps_thread st))
      in close_wait H (snd (po_setmask H old (st\<lparr>ps_thread := t\<rparr>))))"

definition linux_ppoll :: "'h poll_host \<Rightarrow> arguments \<Rightarrow> bool \<Rightarrow> 'h poll_state \<Rightarrow> sysret \<times> 'h poll_state" where
  "linux_ppoll H args time64 st =
     (case timespec_timeout (ps_mem st) (args 2) time64 of
        Inl r \<Rightarrow> (r, st)
      | Inr timeout \<Rightarrow>
          if args 3 = 0 then
            (case do_poll H (args 0) (args 1) timeout (-1) st of (r, _, st) \<Rightarrow> (r, st))
          else
            (case open_wait H (args 3) (args 4) st of
               (Inl r, st) \<Rightarrow> (r, st)
             | (Inr (fd, requested, requested_words, old_words), st) \<Rightarrow>
                 (case enter_mask H requested requested_words st of
                    (Inl r, st) \<Rightarrow> (r, st)
                  | (Inr old, st) \<Rightarrow>
                      (case do_poll H (args 0) (args 1) timeout fd st of
                         (r, interrupted, st) \<Rightarrow> (r, leave_mask H interrupted old_words old st)))))"

section \<open>\<open>select\<close>\<close>

definition fdset_to_host :: "mem \<Rightarrow> u32 \<Rightarrow> nat \<Rightarrow> int set" where
  "fdset_to_host m guest count =
     (if guest = 0 then {}
      else int ` set (filter (\<lambda>fd. bit (load32 m (guest + 4 * of_nat (fd div 32))) (fd mod 32)) [0..<count]))"

definition fdset_to_guest :: "mem \<Rightarrow> u32 \<Rightarrow> nat \<Rightarrow> int set \<Rightarrow> mem" where
  "fdset_to_guest m guest count host =
     (if guest = 0 then m
      else fold (\<lambda>fd m. let a = guest + 4 * of_nat (fd div 32) in
             if int fd \<in> host then store32 m a (load32 m a OR push_bit (fd mod 32) 1) else m)
           [0..<count] (memset m guest 0 (4 * ((count + 31) div 32))))"

text \<open>The timeout in seconds and microseconds, \<open>None\<close> for a null pointer.\<close>

definition select_timeout :: "mem \<Rightarrow> u32 \<Rightarrow> bool \<Rightarrow> bool \<Rightarrow> sysret + (int \<times> int) option" where
  "select_timeout m address pselect_call time64 =
     (if address = 0 then Inr None
      else case time_fields time64 m address of (seconds, fraction) \<Rightarrow>
        if seconds < 0 \<or> fraction < 0 \<or> fraction \<ge> (if pselect_call then 1000000000 else 1000000)
        then Inl (RawHost EINVAL)
        else if seconds > 0x7FFFFFFF then Inl (RawHost EINVAL)
        else Inr (Some (seconds, if pselect_call then fraction div 1000 else fraction)))"

text \<open>The call of \<open>select\<close> itself and what follows for the result, \<open>wait_fd\<close> being the pipe if there is one.\<close>

definition call_select ::
  "'h poll_host \<Rightarrow> arguments \<Rightarrow> int \<Rightarrow> int set \<Rightarrow> int set \<Rightarrow> int set \<Rightarrow> (int \<times> int) option \<Rightarrow> 'h poll_state \<Rightarrow>
    ((host_errno + int \<times> int set \<times> int set \<times> int set \<times> (int \<times> int)) \<times> bool) \<times> 'h poll_state" where
  "call_select H args wait_fd read_set write_set except_set timeout st =
     (let count = sint (args 0);
          host_count = (if wait_fd \<ge> count then wait_fd + 1 else count)
      in case po_select H host_count
           (if args 1 \<noteq> 0 \<or> wait_fd \<ge> 0 then Some (if wait_fd \<ge> 0 then insert wait_fd read_set else read_set) else None)
           (if args 2 \<noteq> 0 then Some write_set else None) (if args 3 \<noteq> 0 then Some except_set else None) timeout st of
         (Inl e, st) \<Rightarrow> ((Inl e, e = EINTR), st)
       | (Inr (result, rs, ws, es, left), st) \<Rightarrow>
           if result > 0 \<and> wait_fd \<ge> 0 \<and> wait_fd \<in> rs then ((Inl EINTR, True), st)
           else ((Inr (result, rs, ws, es, left), False), st))"

text \<open>Storing the sets and, for the calls that report it, the timeout.\<close>

definition finish_select ::
  "arguments \<Rightarrow> bool \<Rightarrow> (host_errno + int \<times> int set \<times> int set \<times> int set \<times> (int \<times> int)) \<Rightarrow> 'h poll_state \<Rightarrow>
    sysret \<times> 'h poll_state" where
  "finish_select args pselect_call r st =
     (case r of
        Inl e \<Rightarrow> (Translated e, st)
      | Inr (result, rs, ws, es, (sec, usec)) \<Rightarrow>
          let count = nat (sint (args 0));
              m = fdset_to_guest (ps_mem st) (args 1) count rs;
              m = fdset_to_guest m (args 2) count ws;
              m = fdset_to_guest m (args 3) count es;
              m = (if \<not> pselect_call \<and> args 4 \<noteq> 0 then store_words m (args 4) [of_int sec, of_int usec] else m)
          in (Value result, set_ps_mem m st))"

definition do_select :: "'h poll_host \<Rightarrow> arguments \<Rightarrow> bool \<Rightarrow> bool \<Rightarrow> 'h poll_state \<Rightarrow> sysret \<times> 'h poll_state" where
  "do_select H args pselect_call time64 st =
     (let count = sint (args 0); m = ps_mem st;
          read_set = fdset_to_host m (args 1) (nat count);
          write_set = fdset_to_host m (args 2) (nat count);
          except_set = fdset_to_host m (args 3) (nat count)
      in if count < 0 \<or> count > po_fd_setsize H then (RawHost EINVAL, st)
         else case select_timeout m (args 4) pselect_call time64 of
           Inl r \<Rightarrow> (r, st)
         | Inr timeout \<Rightarrow>
             if \<not> (pselect_call \<and> args 5 \<noteq> 0) then
               (case call_select H args (-1) read_set write_set except_set timeout st of
                  ((r, _), st) \<Rightarrow> finish_select args pselect_call r st)
             else
               (case open_wait H (load32 m (args 5)) (load32 m (args 5 + 4)) st of
                  (Inl r, st) \<Rightarrow> (r, st)
                | (Inr (fd, requested, requested_words, old_words), st) \<Rightarrow>
                    if fd \<ge> po_fd_setsize H then (RawHost EMFILE, close_wait H st)
                    else
                      (case enter_mask H requested requested_words st of
                         (Inl r, st) \<Rightarrow> (r, st)
                       | (Inr old, st) \<Rightarrow>
                           (case call_select H args fd read_set write_set except_set timeout st of
                              ((r, interrupted), st) \<Rightarrow>
                                finish_select args pselect_call r (leave_mask H interrupted old_words old st)))))"

definition linux_poll_syscall :: "'h poll_host \<Rightarrow> u32 \<Rightarrow> arguments \<Rightarrow> 'h poll_state \<Rightarrow> sysret \<times> 'h poll_state" where
  "linux_poll_syscall H number args st =
     (if number = LINUX_NR_POLL
      then (case do_poll H (args 0) (args 1) (sint (args 2)) (-1) st of (r, _, st) \<Rightarrow> (r, st))
      else if number = LINUX_NR_PPOLL \<or> number = LINUX_NR_PPOLL_TIME64
      then linux_ppoll H args (number = LINUX_NR_PPOLL_TIME64) st
      else if number = LINUX_NR_SELECT then
        if args 0 = 0 then (RawHost EFAULT, st)
        else do_select H (\<lambda>i. if i < 5 then load32 (ps_mem st) (args 0 + 4 * of_nat i) else 0) False False st
      else do_select H args (number = LINUX_NR_PSELECT6 \<or> number = LINUX_NR_PSELECT6_TIME64)
        (number = LINUX_NR_PSELECT6_TIME64) st)"

section \<open>Timeouts\<close>

text \<open>
  C38 (bounds). The milliseconds \<open>ppoll\<close> hands to the host are the requested time rounded up,
  so the wait never ends early, for every time up to 2147483 seconds and 647 milliseconds; longer
  times from 2147484 seconds on are cut to the largest timeout there is. In the gap of
  353 milliseconds between the two the sum exceeds the range of \<open>int\<close> and the host
  gets a negative timeout, which waits for ever.
\<close>

theorem poll_timeout_bounds:
  assumes "address \<noteq> 0" and "time_fields time64 m address = (s, ns)" and "0 \<le> s" "0 \<le> ns" "ns < 1000000000"
  shows "(s * 1000000000 + ns \<le> 2147483647000000 \<longrightarrow>
      (\<exists>t. timespec_timeout m address time64 = Inr t \<and> 0 \<le> t \<and>
        s * 1000000000 + ns \<le> t * 1000000 \<and> (t - 1) * 1000000 < s * 1000000000 + ns)) \<and>
    (s \<ge> 2147484 \<longrightarrow> timespec_timeout m address time64 = Inr INT_MAX) \<and>
    (s = 2147483 \<and> ns > 647000000 \<longrightarrow> (\<exists>t<0. timespec_timeout m address time64 = Inr t))"
proof -
  define u where "u = s * 1000 + (ns + 999999) div 1000000"
  have run: "timespec_timeout m address time64 = Inr (sint (of_int u :: u32))" if "s \<le> 2147483"
    using assms that by (simp add: timespec_timeout_def u_def)
  have u: "0 \<le> u" "s * 1000000000 + ns \<le> u * 1000000" "(u - 1) * 1000000 < s * 1000000000 + ns"
    using assms(3,4) by (simp_all add: u_def)
  have "\<exists>t. timespec_timeout m address time64 = Inr t \<and> 0 \<le> t \<and>
        s * 1000000000 + ns \<le> t * 1000000 \<and> (t - 1) * 1000000 < s * 1000000000 + ns"
    if le: "s * 1000000000 + ns \<le> 2147483647000000"
  proof -
    have "u < 2 ^ 31" using le assms(3,4) u(3) by simp
    then have "sint (of_int u :: u32) = u" using u(1) by (simp add: signed_of_int signed_take_bit_int_eq_self)
    moreover have "s \<le> 2147483" using le assms(3,4) by simp
    ultimately show ?thesis using run u by (intro exI [of _ u]) simp
  qed
  moreover have "\<exists>t<0. timespec_timeout m address time64 = Inr t" if gap: "s = 2147483 \<and> ns > 647000000"
  proof -
    have r: "2 ^ 31 \<le> u" "u < 2 ^ 32" using gap assms(5) u(2,3) by simp_all
    have small: "sint (of_int v :: u32) = v" if "- (2 ^ 31) \<le> v" "v < 2 ^ 31" for v
      using that by (simp add: signed_of_int signed_take_bit_int_eq_self)
    have "(of_int u :: u32) = of_int (u - 2 ^ 32)" by simp
    also have "sint (of_int (u - 2 ^ 32) :: u32) = u - 2 ^ 32" by (rule small) (use r in simp_all)
    finally have "sint (of_int u :: u32) = u - 2 ^ 32" .
    then show ?thesis using run gap r by (intro exI [of _ "u - 2 ^ 32"]) simp
  qed
  moreover have "timespec_timeout m address time64 = Inr INT_MAX" if "s \<ge> 2147484"
    using that assms by (simp add: timespec_timeout_def)
  ultimately show ?thesis by blast
qed

section \<open>The mask after the call\<close>

text \<open>
  What the host does to the thread while it waits or changes the mask: handlers that run
  during a system call only queue signals, so the fields below stay.
\<close>

definition same_wait :: "guest_thread_state option \<Rightarrow> guest_thread_state option \<Rightarrow> bool" where
  "same_wait t t' \<longleftrightarrow> (\<forall>s. t = Some s \<longrightarrow> (\<exists>s'. t' = Some s' \<and> signal_mask s' = signal_mask s \<and>
     suspend_restore_valid s' = suspend_restore_valid s \<and> suspend_restore_mask s' = suspend_restore_mask s \<and>
     signal_wait_read_fd s' = signal_wait_read_fd s \<and> signal_wait_write_fd s' = signal_wait_write_fd s))"

definition waits_quietly :: "'h poll_host \<Rightarrow> bool" where
  "waits_quietly H \<longleftrightarrow>
     (\<forall>a st. same_wait (ps_thread st) (ps_thread (snd (po_setmask H a st)))) \<and>
     (\<forall>es t st. same_wait (ps_thread st) (ps_thread (snd (po_poll H es t st)))) \<and>
     (\<forall>n a b c t st. same_wait (ps_thread st) (ps_thread (snd (po_select H n a b c t st))))"

lemma setmask_quiet:
  assumes "waits_quietly H" "po_setmask H a st = (y, st1)"
  shows "same_wait (ps_thread st) (ps_thread st1)"
proof -
  have "same_wait (ps_thread st) (ps_thread (snd (po_setmask H a st)))" using assms(1) by (simp add: waits_quietly_def)
  then show ?thesis by (simp add: assms(2))
qed

lemma poll_quiet:
  assumes "waits_quietly H" "po_poll H es t st = (y, st1)"
  shows "same_wait (ps_thread st) (ps_thread st1)"
proof -
  have "same_wait (ps_thread st) (ps_thread (snd (po_poll H es t st)))" using assms(1) by (simp add: waits_quietly_def)
  then show ?thesis by (simp add: assms(2))
qed

lemma select_quiet:
  assumes "waits_quietly H" "po_select H n a b c t st = (y, st1)"
  shows "same_wait (ps_thread st) (ps_thread st1)"
proof -
  have "same_wait (ps_thread st) (ps_thread (snd (po_select H n a b c t st)))" using assms(1) by (simp add: waits_quietly_def)
  then show ?thesis by (simp add: assms(2))
qed

text \<open>A thread with a given mask and nothing to restore, and one that waits on no pipe besides.\<close>

definition masked :: "sigwords \<Rightarrow> guest_thread_state option \<Rightarrow> bool" where
  "masked w t \<longleftrightarrow> (\<exists>s. t = Some s \<and> signal_mask s = w \<and> \<not> suspend_restore_valid s)"

definition at_rest :: "sigwords \<Rightarrow> guest_thread_state option \<Rightarrow> bool" where
  "at_rest w t \<longleftrightarrow> (\<exists>s. t = Some s \<and> signal_mask s = w \<and> \<not> suspend_restore_valid s \<and>
     signal_wait_read_fd s = -1 \<and> signal_wait_write_fd s = -1)"

lemma same_wait_keeps:
  "same_wait t t' \<Longrightarrow> masked w t \<Longrightarrow> masked w t'" "same_wait t t' \<Longrightarrow> at_rest w t \<Longrightarrow> at_rest w t'"
  by (auto simp: same_wait_def masked_def at_rest_def)

lemma run_effects_thread [simp]: "ps_thread (run_effects H es st) = ps_thread st"
  by (simp add: run_effects_def)

lemma set_ps_mem_thread [simp]: "ps_thread (set_ps_mem m st) = ps_thread st"
  by (simp add: set_ps_mem_def)

lemma close_wait_rest: "masked w (ps_thread st) \<Longrightarrow> at_rest w (ps_thread (close_wait H st))"
  by (auto simp: close_wait_def masked_def at_rest_def guest_thread_signal_wait_end_def)

lemma open_wait_state:
  assumes "at_rest w (ps_thread st)" and "open_wait H a n st = (x, st')"
  shows "case x of Inl _ \<Rightarrow> at_rest w (ps_thread st') | Inr (fd, rq, rw, old) \<Rightarrow> old = w \<and> masked w (ps_thread st')"
proof -
  obtain s where s: "ps_thread st = Some s" "signal_mask s = w" "\<not> suspend_restore_valid s"
    using assms(1) by (auto simp: at_rest_def)
  obtain r t h where b: "guest_thread_signal_wait_begin (po_pipe H) (Some s) (w_host (ps_world st)) = (r, t, h)"
    by (cases "guest_thread_signal_wait_begin (po_pipe H) (Some s) (w_host (ps_world st))")
  have t: "masked w t" "\<not> is_done r \<Longrightarrow> t = Some s"
    using b s(2,3) by (auto simp: guest_thread_signal_wait_begin_def masked_def split: sum.splits prod.splits option.splits)
  show ?thesis
    using assms(1,2) b s t unfolding open_wait_def
    by (cases "guest_signal_host_mask (po_sig H) a n (ps_mem st)"; cases r)
      (auto simp: Let_def guest_thread_signal_mask_get_def)
qed

lemma enter_mask_state:
  assumes "waits_quietly H" "masked w (ps_thread st)" "enter_mask H rq rw st = (x, st')"
  shows "case x of Inl _ \<Rightarrow> at_rest w (ps_thread st') | Inr _ \<Rightarrow> masked rw (ps_thread st')"
proof -
  obtain y st1 where m: "po_setmask H rq st = (y, st1)" by (cases "po_setmask H rq st")
  have "masked w (ps_thread st1)"
    using same_wait_keeps(1) [OF setmask_quiet [OF assms(1) m] assms(2)] .
  then show ?thesis
    using assms(3) m close_wait_rest [of w st1 H] unfolding enter_mask_def
    by (cases y) (auto simp: Let_def masked_def guest_thread_signal_mask_set_def)
qed

text \<open>The thread after a call: its mask is the one from before, or will be when the pending signal is delivered.\<close>

definition mask_back :: "sigwords \<Rightarrow> bool \<Rightarrow> guest_thread_state option \<Rightarrow> bool" where
  "mask_back w interrupted t \<longleftrightarrow> (\<exists>s. t = Some s \<and> fst (guest_thread_signal_delivery_mask t) = w \<and>
     signal_wait_read_fd s = -1 \<and> signal_wait_write_fd s = -1 \<and>
     (suspend_restore_valid s \<longrightarrow> interrupted) \<and> (\<not> suspend_restore_valid s \<longrightarrow> signal_mask s = w))"

lemma at_rest_back: "at_rest w t \<Longrightarrow> mask_back w b t"
  by (auto simp: at_rest_def mask_back_def guest_thread_signal_delivery_mask_def guest_thread_signal_mask_get_def)

lemma mask_back_mono: "mask_back w a t \<Longrightarrow> (a \<Longrightarrow> b) \<Longrightarrow> mask_back w b t"
  by (auto simp: mask_back_def)

lemma leave_mask_state:
  assumes "waits_quietly H" "masked rw (ps_thread st)"
  shows "mask_back old interrupted (ps_thread (leave_mask H interrupted old oldset st))"
proof -
  obtain s where s: "ps_thread st = Some s" using assms(2) by (auto simp: masked_def)
  let ?t = "if interrupted then guest_thread_signal_wait_interrupted old (ps_thread st)
               else guest_thread_signal_wait_complete old (ps_thread st)"
  let ?s = "if interrupted then s\<lparr>suspend_restore_mask := old, suspend_restore_valid := True\<rparr>
    else s\<lparr>suspend_restore_valid := False, signal_mask := old\<rparr>"
  have t: "?t = Some ?s"
    by (simp add: s guest_thread_signal_wait_interrupted_def guest_thread_signal_suspend_restore_def
        guest_thread_signal_wait_complete_def guest_thread_signal_mask_set_def)
  obtain y st1 where m: "po_setmask H oldset (st\<lparr>ps_thread := ?t\<rparr>) = (y, st1)"
    by (cases "po_setmask H oldset (st\<lparr>ps_thread := ?t\<rparr>)")
  have "same_wait (Some ?s) (ps_thread st1)" using setmask_quiet [OF assms(1) m] unfolding t by simp
  then obtain s1 where "ps_thread st1 = Some s1" "signal_mask s1 = signal_mask ?s"
      "suspend_restore_valid s1 = suspend_restore_valid ?s" "suspend_restore_mask s1 = suspend_restore_mask ?s"
    by (auto simp: same_wait_def)
  then show ?thesis
    unfolding leave_mask_def Let_def m snd_conv
    by (cases interrupted)
      (auto simp: mask_back_def close_wait_def guest_thread_signal_wait_end_def guest_thread_signal_delivery_mask_def
        guest_thread_signal_mask_get_def)
qed

lemma do_poll_quiet:
  assumes "waits_quietly H" "do_poll H g n t fd st = (r, b, st')"
  shows "same_wait (ps_thread st) (ps_thread st')" and "b \<Longrightarrow> r = Translated EINTR"
proof -
  let ?es = "map (load_pollfd (ps_mem st) g) [0..<unat n] @ (if fd \<ge> 0 then [(fd, po_pollin H)] else [])"
  obtain y st1 where p: "po_poll H ?es t st = (y, st1)" by (cases "po_poll H ?es t st")
  have refl: "same_wait (ps_thread st) (ps_thread st)" by (simp add: same_wait_def)
  have "(same_wait (ps_thread st) (ps_thread st')) \<and> (b \<longrightarrow> r = Translated EINTR)"
    using assms(2) refl poll_quiet [OF assms(1) p] p unfolding do_poll_def Let_def
    by (cases y) (auto split: if_splits)
  then show "same_wait (ps_thread st) (ps_thread st')" and "b \<Longrightarrow> r = Translated EINTR" by simp_all
qed

lemma call_select_quiet:
  assumes "waits_quietly H" "call_select H args fd a b c t st = ((r, i), st')"
  shows "same_wait (ps_thread st) (ps_thread st')" and "i \<Longrightarrow> r = Inl EINTR"
proof -
  obtain y st1 where p: "po_select H (if fd \<ge> sint (args 0) then fd + 1 else sint (args 0))
      (if args 1 \<noteq> 0 \<or> fd \<ge> 0 then Some (if fd \<ge> 0 then insert fd a else a) else None)
      (if args 2 \<noteq> 0 then Some b else None) (if args 3 \<noteq> 0 then Some c else None) t st = (y, st1)"
    by fastforce
  have "same_wait (ps_thread st) (ps_thread st') \<and> (i \<longrightarrow> r = Inl EINTR)"
    using assms(2) select_quiet [OF assms(1) p] unfolding call_select_def Let_def p
    by (cases y) (auto split: if_splits prod.splits)
  then show "same_wait (ps_thread st) (ps_thread st')" and "i \<Longrightarrow> r = Inl EINTR" by simp_all
qed

lemma finish_select_thread:
  "finish_select args ps r st = (x, st') \<Longrightarrow> ps_thread st' = ps_thread st \<and> (r = Inl EINTR \<longrightarrow> x = Translated EINTR)"
  by (cases r) (auto simp: finish_select_def Let_def split: prod.splits)

lemma masked_wait:
  assumes q: "waits_quietly H" and rest: "at_rest w (ps_thread st)"
    and o: "open_wait H a n st = (Inr (fd, rq, rw, old), st1)" and e: "enter_mask H rq rw st1 = (Inr oldset, st2)"
    and body: "same_wait (ps_thread st2) (ps_thread st3)" and b: "b \<Longrightarrow> c"
  shows "mask_back w c (ps_thread (leave_mask H b old oldset st3))"
proof -
  have st1: "old = w" "masked w (ps_thread st1)" using open_wait_state [OF rest o] by simp_all
  have "masked rw (ps_thread st2)" using enter_mask_state [OF q st1(2) e] by simp
  from same_wait_keeps(1) [OF body this] have "masked rw (ps_thread st3)" .
  from mask_back_mono [OF leave_mask_state [OF q this] b] show ?thesis unfolding st1(1) .
qed

lemma enter_mask_failed:
  assumes "waits_quietly H" "at_rest w (ps_thread st)" "open_wait H a n st = (Inr (fd, rq, rw, old), st1)"
    "enter_mask H rq rw st1 = (Inl r, st2)"
  shows "mask_back w b (ps_thread st2)"
proof -
  have "masked w (ps_thread st1)" using open_wait_state [OF assms(2,3)] by simp
  from enter_mask_state [OF assms(1) this assms(4)] show ?thesis by (auto intro: at_rest_back)
qed

lemma ppoll_mask:
  assumes q: "waits_quietly H" and rest: "at_rest w (ps_thread st)" and run: "linux_ppoll H args time64 st = (r, st')"
  shows "mask_back w (r = Translated EINTR) (ps_thread st')"
proof (cases "timespec_timeout (ps_mem st) (args 2) time64")
  case (Inl e)
  then show ?thesis using run rest by (auto simp: linux_ppoll_def intro: at_rest_back)
next
  case (Inr t)
  note run = run [unfolded linux_ppoll_def Inr sum.case]
  show ?thesis
  proof (cases "args 3 = 0")
    case True
    obtain x b st1 where d: "do_poll H (args 0) (args 1) t (-1) st = (x, b, st1)"
      by (cases "do_poll H (args 0) (args 1) t (-1) st")
    from same_wait_keeps(2) [OF do_poll_quiet(1) [OF q d] rest] show ?thesis
      using run True d by (auto intro: at_rest_back)
  next
    case False
    obtain x st1 where o: "open_wait H (args 3) (args 4) st = (x, st1)" by (cases "open_wait H (args 3) (args 4) st")
    note run = run [unfolded if_not_P [OF False] o prod.case]
    show ?thesis
    proof (cases x)
      case (Inl e)
      then show ?thesis using open_wait_state [OF rest o] run by (auto intro: at_rest_back)
    next
      case (Inr y)
      then obtain fd rq rw old where x: "x = Inr (fd, rq, rw, old)" by (cases y) simp
      obtain y st2 where e: "enter_mask H rq rw st1 = (y, st2)" by (cases "enter_mask H rq rw st1")
      obtain z b st3 where d: "do_poll H (args 0) (args 1) t fd st2 = (z, b, st3)"
        by (cases "do_poll H (args 0) (args 1) t fd st2")
      show ?thesis
      proof (cases y)
        case (Inl e')
        then show ?thesis using enter_mask_failed [OF q rest o [unfolded x] e [unfolded Inl]] run x e by simp
      next
        case (Inr oldset)
        have "mask_back w (z = Translated EINTR) (ps_thread (leave_mask H b old oldset st3))"
          by (rule masked_wait [OF q rest o [unfolded x] e [unfolded Inr] do_poll_quiet(1) [OF q d]]) (rule do_poll_quiet(2) [OF q d])
        then show ?thesis using run x e Inr d by simp
      qed
    qed
  qed
qed

lemma select_mask:
  assumes q: "waits_quietly H" and rest: "at_rest w (ps_thread st)" and run: "do_select H args ps time64 st = (r, st')"
  shows "mask_back w (r = Translated EINTR) (ps_thread st')"
proof (cases "sint (args 0) < 0 \<or> sint (args 0) > po_fd_setsize H")
  case True
  then show ?thesis using run rest by (auto simp: do_select_def Let_def intro: at_rest_back)
next
  case count: False
  define S where "S = (\<lambda>i. fdset_to_host (ps_mem st) (args i) (nat (sint (args 0))))"
  have sets: "fdset_to_host (ps_mem st) (args i) (nat (sint (args 0))) = S i" for i by (simp add: S_def)
  note run = run [unfolded do_select_def Let_def if_not_P [OF count] sets]
  show ?thesis
  proof (cases "select_timeout (ps_mem st) (args 4) ps time64")
    case (Inl e)
    then show ?thesis using run rest by (auto intro: at_rest_back)
  next
    case t: (Inr t)
    note run = run [unfolded t sum.case]
    show ?thesis
    proof (cases "ps \<and> args 5 \<noteq> 0")
      case False
      obtain y i st1 where c: "call_select H args (-1) (S 1) (S 2) (S 3) t st = ((y, i), st1)" by (metis surj_pair)
      have "finish_select args ps y st1 = (r, st')" using run False c by simp
      moreover have "at_rest w (ps_thread st1)" by (rule same_wait_keeps(2) [OF call_select_quiet(1) [OF q c] rest])
      ultimately show ?thesis using finish_select_thread by (metis at_rest_back)
    next
      case True
      obtain x st1 where o: "open_wait H (load32 (ps_mem st) (args 5)) (load32 (ps_mem st) (args 5 + 4)) st = (x, st1)"
        by (metis surj_pair)
      note os = open_wait_state [OF rest o]
      note run = run [unfolded o prod.case]
      show ?thesis
      proof (cases x)
        case (Inl e)
        then show ?thesis using os run True by (auto intro: at_rest_back)
      next
        case (Inr y)
        then obtain fd rq rw old where x: "x = Inr (fd, rq, rw, old)" by (cases y) simp
        obtain y st2 where e: "enter_mask H rq rw st1 = (y, st2)" by (cases "enter_mask H rq rw st1")
        obtain z i st3 where c: "call_select H args fd (S 1) (S 2) (S 3) t st2 = ((z, i), st3)" by (metis surj_pair)
        show ?thesis
        proof (cases "fd \<ge> po_fd_setsize H")
          case big: True
          then have st': "st' = close_wait H st1" using run True x by simp
          have "masked w (ps_thread st1)" using os x by simp
          from at_rest_back [OF close_wait_rest [OF this]] show ?thesis unfolding st' .
        next
          case small: False
          show ?thesis
          proof (cases y)
            case (Inl e')
            then show ?thesis using enter_mask_failed [OF q rest o [unfolded x] e [unfolded Inl]] run True x e small by simp
          next
            case (Inr oldset)
            have f: "finish_select args ps z (leave_mask H i old oldset st3) = (r, st')"
              using run True x e small Inr c by simp
            have "i \<Longrightarrow> r = Translated EINTR" using finish_select_thread [OF f] call_select_quiet(2) [OF q c] by blast
            from masked_wait [OF q rest o [unfolded x] e [unfolded Inr] call_select_quiet(1) [OF q c] this]
            show ?thesis using finish_select_thread [OF f] by simp
          qed
        qed
      qed
    qed
  qed
qed


section \<open>Results in guest memory\<close>

lemma slots_apart:
  assumes "i \<noteq> j" "k * i + k \<le> 2 ^ 32" "k * j + k \<le> 2 ^ 32" "0 < k"
  shows "apart (g + of_nat (k * i)) k (g + of_nat (k * j)) k"
proof -
  have lt: "k * i < 2 ^ 32" "k * j < 2 ^ 32" using assms(2-4) by simp_all
  then have u: "unat (of_nat (k * i) :: u32) = k * i" "unat (of_nat (k * j) :: u32) = k * j"
    by (simp_all add: unat_of_nat del: of_nat_mult)
  have "k * i + k \<le> k * j \<or> k * j + k \<le> k * i"
  proof (cases "i < j")
    case True
    then have "k * Suc i \<le> k * j" by (intro mult_le_mono2) simp
    then show ?thesis by simp
  next
    case False
    then have "k * Suc j \<le> k * i" using assms(1) by (intro mult_le_mono2) simp
    then show ?thesis by simp
  qed
  then show ?thesis
    unfolding apart_offset using u assms(2-4) apart_ordered [of "of_nat (k * i)" k "of_nat (k * j)" k]
      apart_ordered [of "of_nat (k * j)" k "of_nat (k * i)" k]
    by auto
qed

text \<open>The word of a descriptor in a set, and the loop of \<open>fdset_to_guest\<close> after some descriptors.\<close>

abbreviation (input) fd_word :: "u32 \<Rightarrow> nat \<Rightarrow> u32" where
  "fd_word guest fd \<equiv> guest + 4 * of_nat (fd div 32)"

definition fd_step :: "u32 \<Rightarrow> int set \<Rightarrow> nat \<Rightarrow> mem \<Rightarrow> mem" where
  "fd_step guest host fd m =
     (if int fd \<in> host then store32 m (fd_word guest fd) (load32 m (fd_word guest fd) OR push_bit (fd mod 32) 1) else m)"

lemma fdset_to_guest_alt:
  "guest \<noteq> 0 \<Longrightarrow> fdset_to_guest m guest n S = fold (fd_step guest S) [0..<n] (memset m guest 0 (4 * ((n + 31) div 32)))"
  by (simp add: fdset_to_guest_def fd_step_def [abs_def] Let_def)

lemma fd_step_bits:
  assumes "fd < 2 ^ 32" "fd' < 2 ^ 32"
  shows "bit (load32 (fd_step g S fd m) (fd_word g fd')) (fd' mod 32) \<longleftrightarrow>
    bit (load32 m (fd_word g fd')) (fd' mod 32) \<or> (fd' = fd \<and> int fd \<in> S)"
proof (cases "fd div 32 = fd' div 32")
  case True
  then have "fd' = fd \<longleftrightarrow> fd' mod 32 = fd mod 32" by (metis div_mult_mod_eq)
  then show ?thesis using True by (auto simp: fd_step_def bit_simps)
next
  case False
  have "apart (g + of_nat (4 * (fd div 32))) 4 (g + of_nat (4 * (fd' div 32))) 4"
    using assms by (intro slots_apart False) auto
  then have "apart (fd_word g fd) 4 (fd_word g fd') 4" by simp
  then show ?thesis using False by (auto simp: fd_step_def load32_store32_apart)
qed

lemma fd_fold_bits:
  assumes "n \<le> 2 ^ 32" "fd' < 2 ^ 32"
  shows "bit (load32 (fold (fd_step g S) [0..<n] m) (fd_word g fd')) (fd' mod 32) \<longleftrightarrow>
    bit (load32 m (fd_word g fd')) (fd' mod 32) \<or> (fd' < n \<and> int fd' \<in> S)"
  using assms(1)
proof (induction n)
  case (Suc n)
  then show ?case using fd_step_bits [of n fd' g S] assms(2) by (auto simp: less_Suc_eq)
qed simp

lemma fd_fold_outside:
  assumes "n \<le> 2 ^ 32" "4 * ((n + 31) div 32) \<le> unat (x - g)"
  shows "fold (fd_step g S) [0..<n] m x = m x"
  using assms
proof (induction n)
  case (Suc n)
  have "Suc n + 31 = n + 32" by simp
  then have "(Suc n + 31) div 32 = n div 32 + 1" by (simp only: div_add_self2)
  then have w: "4 * (n div 32) + 4 \<le> 4 * ((Suc n + 31) div 32)" by simp
  have "4 * (n div 32) < 2 ^ 32" using Suc.prems(1) by simp
  then have "unat (4 * of_nat (n div 32) :: u32) = 4 * (n div 32)"
    using unat_of_nat [of "4 * (n div 32)", where 'a = 32] by simp
  then have "4 \<le> unat (x - fd_word g n)" using w Suc.prems(2) outside_field [of "4 * of_nat (n div 32)" 4 x g] by simp
  moreover have "4 * ((n + 31) div 32) \<le> unat (x - g)" using Suc.prems(2) by (rule order_trans [rotated]) (simp add: div_le_mono)
  ultimately show ?case using Suc by (simp add: fd_step_def store32_outside)
qed simp

lemma load32_memset_zero:
  assumes "unat d + 4 \<le> n" "n \<le> 2 ^ 32"
  shows "load32 (memset m g 0 n) (g + d) = 0"
proof -
  have "load_bytes (memset m g 0 n) (g + of_nat (unat d)) 4 = replicate 4 0"
    unfolding memset_def using assms by (subst load_store_bytes_inside) simp_all
  then show ?thesis by (simp add: load32_def eval_nat_numeral)
qed

text \<open>
  The descriptor sets of \<open>select\<close> survive the translation: what the host
  reported is what the guest reads from its set, for every descriptor below the count and
  for no other, and storing a set touches only the words the count covers.
\<close>

theorem fd_sets_exact:
  assumes g: "g \<noteq> 0" and n: "n \<le> 65536"
  shows "fdset_to_host (fdset_to_guest m g n S) g n = S \<inter> {0..<int n} \<and>
    (\<forall>fd. n \<le> fd \<and> fd < 32 * ((n + 31) div 32) \<longrightarrow>
      \<not> bit (load32 (fdset_to_guest m g n S) (g + 4 * of_nat (fd div 32))) (fd mod 32)) \<and>
    (\<forall>x. 4 * ((n + 31) div 32) \<le> unat (x - g) \<longrightarrow> fdset_to_guest m g n S x = m x)"
proof -
  let ?k = "(n + 31) div 32"
  have bits: "bit (load32 (fdset_to_guest m g n S) (fd_word g fd)) (fd mod 32) \<longleftrightarrow> fd < n \<and> int fd \<in> S"
    if "fd < 32 * ?k" for fd
  proof -
    have d: "fd div 32 < ?k" using that by (simp add: less_mult_imp_div_less mult.commute)
    then have "4 * (fd div 32) < 2 ^ 32" using n by simp
    then have "unat (4 * of_nat (fd div 32) :: u32) = 4 * (fd div 32)"
      using unat_of_nat [of "4 * (fd div 32)", where 'a = 32] by simp
    then have "load32 (memset m g 0 (4 * ?k)) (fd_word g fd) = 0" using d n by (intro load32_memset_zero) simp_all
    moreover have "fd < 2 ^ 32" using that n div_mult_mod_eq [of "n + 31" 32] by simp
    ultimately show ?thesis unfolding fdset_to_guest_alt [OF g] using n by (subst fd_fold_bits) simp_all
  qed
  have below: "fd < 32 * ?k" if "fd < n" for fd
    using that div_mult_mod_eq [of "n + 31" 32] mod_less_divisor [of 32 "n + 31"] by linarith
  define P where "P = (\<lambda>fd. bit (load32 (fdset_to_guest m g n S) (fd_word g fd)) (fd mod 32))"
  have P: "P fd \<longleftrightarrow> int fd \<in> S" if "fd < n" for fd using bits [OF below [OF that]] that by (simp add: P_def)
  have "int ` {fd. fd < n \<and> P fd} = S \<inter> {0..<int n}"
  proof (rule set_eqI)
    fix z
    show "z \<in> int ` {fd. fd < n \<and> P fd} \<longleftrightarrow> z \<in> S \<inter> {0..<int n}" using P by (cases z) auto
  qed
  then have "fdset_to_host (fdset_to_guest m g n S) g n = S \<inter> {0..<int n}"
    using g unfolding fdset_to_host_def P_def [symmetric] by simp
  moreover have "fdset_to_guest m g n S x = m x" if "4 * ?k \<le> unat (x - g)" for x
    unfolding fdset_to_guest_alt [OF g] using n that by (subst fd_fold_outside) (simp_all add: memset_outside)
  ultimately show ?thesis using bits by auto
qed

lemma apart_of_nat:
  assumes "A + n \<le> B \<or> B + k \<le> A" "A + n \<le> 2 ^ 32" "B + k \<le> 2 ^ 32" "0 < n" "0 < k"
  shows "apart (g + of_nat A) n (g + of_nat B) k"
proof -
  have "unat (of_nat A :: u32) = A" "unat (of_nat B :: u32) = B" using assms(2-5) by (simp_all add: unat_of_nat)
  then show ?thesis
    unfolding apart_offset
    using assms apart_ordered [of "of_nat A" n "of_nat B" k] apart_ordered [of "of_nat B" k "of_nat A" n] by auto
qed

lemma revents_apart:
  assumes "i < 2 ^ 29" "j < 2 ^ 29"
  shows "i \<noteq> j \<Longrightarrow> apart (pollfd_at g i + 6) 2 (pollfd_at g j + 6) 2"
    and "apart (pollfd_at g i + 6) 2 (pollfd_at g j) 4" and "apart (pollfd_at g i + 6) 2 (pollfd_at g j + 4) 2"
proof -
  have hi: "8 * i + 6 + 2 \<le> 2 ^ 32" "8 * j + 6 + 2 \<le> 2 ^ 32" "8 * j + 4 \<le> 2 ^ 32" "8 * j + 4 + 2 \<le> 2 ^ 32"
    using assms by simp_all
  show "apart (pollfd_at g i + 6) 2 (pollfd_at g j + 6) 2" if "i \<noteq> j"
    using apart_of_nat [OF _ hi(1,2), of g] that by (cases "i < j") (auto simp: add.assoc)
  have "8 * i + 6 + 2 \<le> 8 * j \<or> 8 * j + 4 \<le> 8 * i + 6" "8 * i + 6 + 2 \<le> 8 * j + 4 \<or> 8 * j + 4 + 2 \<le> 8 * i + 6"
    by (cases "i < j"; simp)+
  from apart_of_nat [OF this(1) hi(1,3), of g] apart_of_nat [OF this(2) hi(1,4), of g]
  show "apart (pollfd_at g i + 6) 2 (pollfd_at g j) 4" "apart (pollfd_at g i + 6) 2 (pollfd_at g j + 4) 2"
    by (simp_all add: add.assoc)
qed

lemma store_revents_facts:
  assumes "i + length rs \<le> 2 ^ 29"
  shows "(\<forall>j. i \<le> j \<and> j < i + length rs \<longrightarrow>
        load16 (store_revents m g i rs) (pollfd_at g j + 6) = poll_events_to_linux (rs ! (j - i))) \<and>
    (\<forall>j<i. load16 (store_revents m g i rs) (pollfd_at g j + 6) = load16 m (pollfd_at g j + 6)) \<and>
    (\<forall>j<2 ^ 29. load32 (store_revents m g i rs) (pollfd_at g j) = load32 m (pollfd_at g j) \<and>
       load16 (store_revents m g i rs) (pollfd_at g j + 4) = load16 m (pollfd_at g j + 4)) \<and>
    (\<forall>x. (\<forall>j<i + length rs. 2 \<le> unat (x - (pollfd_at g j + 6))) \<longrightarrow> store_revents m g i rs x = m x)"
  using assms
proof (induction rs arbitrary: i m)
  case (Cons r rs)
  let ?m = "store16 m (pollfd_at g i + 6) (poll_events_to_linux r)"
  have i: "i < 2 ^ 29" using Cons.prems by simp
  note ih = Cons.IH [of "Suc i" ?m]
  have "load16 (store_revents ?m g (Suc i) rs) (pollfd_at g j + 6) = poll_events_to_linux ((r # rs) ! (j - i))"
    if "i \<le> j" "j < i + length (r # rs)" for j
  proof (cases "j = i")
    case True
    then show ?thesis using ih Cons.prems by (simp add: load16_store16_same)
  next
    case False
    then have "Suc i \<le> j" "j - i = Suc (j - Suc i)" using that by simp_all
    then show ?thesis using ih that Cons.prems by simp
  qed
  moreover have "load16 (store_revents ?m g (Suc i) rs) (pollfd_at g j + 6) = load16 m (pollfd_at g j + 6)" if "j < i" for j
    using ih that Cons.prems i revents_apart(1) [OF i, of j g] by (simp add: load16_store16_apart)
  moreover have "load32 (store_revents ?m g (Suc i) rs) (pollfd_at g j) = load32 m (pollfd_at g j) \<and>
       load16 (store_revents ?m g (Suc i) rs) (pollfd_at g j + 4) = load16 m (pollfd_at g j + 4)" if "j < 2 ^ 29" for j
    using ih that Cons.prems revents_apart(2,3) [OF i that, of g] by (simp add: load16_store16_apart load32_store16_apart)
  moreover have "store_revents ?m g (Suc i) rs x = m x" if "\<forall>j<i + length (r # rs). 2 \<le> unat (x - (pollfd_at g j + 6))" for x
    using ih that Cons.prems by (simp add: store16_outside)
  ultimately show ?case by simp
qed auto

text \<open>
  A successful \<open>poll\<close> or \<open>ppoll\<close> reports what the host found: every entry's returned events are
  the host's translated, its descriptor and its requested events are as they were, no
  other byte of memory has changed, and the count is the host's, the pipe of the wait not included.
\<close>

theorem poll_results_exact:
  assumes run: "do_poll H g count t fd st = (Value k, b, st')"
    and host: "po_poll H (map (load_pollfd (ps_mem st) g) [0..<unat count] @ (if fd \<ge> 0 then [(fd, po_pollin H)] else [])) t st =
      (Inr (k', rv), st1)" and len: "unat count \<le> length rv"
  shows "k = k' \<and> (fd \<ge> 0 \<and> k > 0 \<longrightarrow> rv ! unat count = {}) \<and>
    (\<forall>i<unat count. load16 (ps_mem st') (pollfd_at g i + 6) = poll_events_to_linux (rv ! i) \<and>
      load32 (ps_mem st') (pollfd_at g i) = load32 (ps_mem st1) (pollfd_at g i) \<and>
      load16 (ps_mem st') (pollfd_at g i + 4) = load16 (ps_mem st1) (pollfd_at g i + 4)) \<and>
    (\<forall>x. (\<forall>i<unat count. 2 \<le> unat (x - (pollfd_at g i + 6))) \<longrightarrow> ps_mem st' x = ps_mem st1 x)"
proof -
  have c: "unat count \<le> 65536" and k: "k = k'" and quiet: "fd \<ge> 0 \<and> k > 0 \<longrightarrow> rv ! unat count = {}"
    and st': "ps_mem st' = store_revents (ps_mem st1) g 0 (take (unat count) rv)"
    using run host by (auto simp: do_poll_def Let_def set_ps_mem_def word_less_nat_alt split: if_splits)
  have n: "length (take (unat count) rv) = unat count" using len by simp
  have "0 + length (take (unat count) rv) \<le> 2 ^ 29" using c n by simp
  from store_revents_facts [OF this, of "ps_mem st1" g] show ?thesis
    unfolding st' n using k quiet c by auto
qed

section \<open>Witnesses\<close>

definition demo_poll :: "unit poll_host" where
  "demo_poll = \<lparr>po_sig = qnx_signals, po_pipe = \<lparr>h_pipe = (\<lambda>h. (Inr (5, 6), h)), h_set_nonblock = (\<lambda>fd h. (None, h)),
       h_close = (\<lambda>fd h. h)\<rparr>, po_effect = (\<lambda>e h. h), po_pollin = {POLLRDNORM, POLLRDBAND}, po_fd_setsize = 256,
     po_calloc_ok = (\<lambda>n. True), po_setmask = (\<lambda>a st. (Inr {}, st)),
     po_poll = (\<lambda>es t st. (Inr (1, [{POLLRDNORM}]), st)), po_select = (\<lambda>n a b c t st. (Inl EINTR, st))\<rparr>"

definition demo_wait :: "unit poll_state" where
  "demo_wait = \<lparr>ps_thread = Some (blank_thread\<lparr>signal_mask := (4, 0), signal_wait_read_fd := -1, signal_wait_write_fd := -1,
     suspend_restore_valid := False\<rparr>), ps_world = \<lparr>w_host = (), w_mem = (\<lambda>_. 0)\<rparr>\<rparr>"

theorem poll_timeout_bounds_witness:
  "\<exists>t<0. timespec_timeout (store_words (\<lambda>_. 0) 64 [2147483, 700000000]) 64 False = Inr t"
proof -
  have "time_fields False (store_words (\<lambda>_. 0) 64 [2147483, 700000000]) 64 = (2147483, 700000000)"
    using load32_store_words [of 0 "[2147483, 700000000]" "\<lambda>_. 0" 64] load32_store_words [of 1 "[2147483, 700000000]" "\<lambda>_. 0" 64]
    by (simp add: time_fields_def)
  from poll_timeout_bounds [OF _ this] show ?thesis by simp
qed


theorem fd_sets_exact_witness:
  "fdset_to_host (fdset_to_guest (\<lambda>_. 0xFF) 64 40 {3, 35, 41}) 64 40 = {3, 35}"
proof -
  have "{3, 35, 41} \<inter> {0..<int 40} = {3, 35}" by auto
  then show ?thesis using fd_sets_exact [of 64 40 "\<lambda>_. 0xFF" "{3, 35, 41}"] by simp
qed

theorem poll_results_exact_witness:
  "\<exists>st'. do_poll demo_poll 64 1 0 (-1) demo_wait = (Value 1, False, st') \<and> load16 (ps_mem st') 70 = 0x41"
proof -
  obtain r b st' where run: "do_poll demo_poll 64 1 0 (-1) demo_wait = (r, b, st')" by (metis surj_pair)
  have r: "r = Value 1 \<and> \<not> b" using run by (auto simp: do_poll_def demo_poll_def Let_def)
  have "load16 (ps_mem st') (64 + 6) = poll_events_to_linux {POLLRDNORM}"
    using poll_results_exact [of demo_poll 64 1 0 "-1" demo_wait 1 b st' 1 "[{POLLRDNORM}]" demo_wait] run r
    by (simp add: demo_poll_def)
  then show ?thesis using run r by (simp add: poll_events_to_linux_def)
qed

end
