(* ===== verification/Linux_Socket.thy ===== *)
theory Linux_Socket
  imports Linux_Abi Host
begin

text \<open>
  \<open>src/src/linux_socket.c\<close>: the socket calls and \<open>socketcall\<close>. Addresses, message flags and
  option names are translated between the two systems; the data itself stays in guest
  memory, which the host reads and writes in place.
\<close>

unbundle bit_operations_syntax

section \<open>Host\<close>

datatype family = AF_UNIX | AF_INET | AF_INET6

datatype msg_flag =
    MSG_OOB | MSG_PEEK | MSG_DONTROUTE | MSG_CTRUNC | MSG_TRUNC | MSG_DONTWAIT | MSG_EOR | MSG_WAITALL
  | MSG_NOSIGNAL | MSG_WAITFORONE

datatype sock_level = SOL_SOCKET | IPPROTO_IP | IPPROTO_TCP

datatype sock_option =
    SO_DEBUG | SO_REUSEADDR | SO_TYPE | SO_ERROR | SO_DONTROUTE | SO_BROADCAST | SO_SNDBUF | SO_RCVBUF
  | SO_KEEPALIVE | SO_OOBINLINE | SO_LINGER | SO_REUSEPORT | SO_RCVLOWAT | SO_SNDLOWAT | SO_RCVTIMEO
  | SO_SNDTIMEO | SO_ACCEPTCONN
  | IP_TOS | IP_TTL | IP_HDRINCL | IP_OPTIONS | IP_MULTICAST_IF | IP_MULTICAST_TTL | IP_MULTICAST_LOOP
  | IP_ADD_MEMBERSHIP | IP_DROP_MEMBERSHIP
  | TCP_NODELAY | TCP_MAXSEG | TCP_KEEPALIVE

text \<open>
  A socket address of the host: its length byte, its family and the bytes from offset 2 on.
  Any number can stand in the family field of an address the host delivers.
\<close>

record host_address =
  sa_len :: u8
  sa_family :: int
  sa_data :: "nat \<Rightarrow> u8"

text \<open>
  The message header of \<open>sendmsg\<close> and \<open>recvmsg\<close>: the address with its length, and the
  guest's array of buffers, which has the host's layout. An address is delivered together with
  its length; \<open>sk_errno\<close> reads a host error number.
\<close>

record 'h sock_host =
  sk_family :: "family \<Rightarrow> int"
  sk_stream :: int
  sk_seqpacket :: int
  sk_sun_path :: nat
  sk_waitforone :: bool
  sk_errno :: "int \<Rightarrow> host_errno"
  sk_socket :: "int \<Rightarrow> int \<Rightarrow> int \<Rightarrow> 'h world \<Rightarrow> (host_errno + int) \<times> 'h world"
  sk_pair :: "int \<Rightarrow> int \<Rightarrow> int \<Rightarrow> 'h world \<Rightarrow> (host_errno + int \<times> int) \<times> 'h world"
  sk_close :: "int \<Rightarrow> 'h world \<Rightarrow> 'h world"
  sk_getfl :: "int \<Rightarrow> 'h world \<Rightarrow> (host_errno + host_oflag set) \<times> 'h world"
  sk_setfl :: "int \<Rightarrow> host_oflag set \<Rightarrow> 'h world \<Rightarrow> host_errno option \<times> 'h world"
  sk_getfd :: "int \<Rightarrow> 'h world \<Rightarrow> (host_errno + fd_flag set) \<times> 'h world"
  sk_setfd :: "int \<Rightarrow> fd_flag set \<Rightarrow> 'h world \<Rightarrow> host_errno option \<times> 'h world"
  sk_bind :: "int \<Rightarrow> host_address \<Rightarrow> nat \<Rightarrow> 'h world \<Rightarrow> (host_errno + int) \<times> 'h world"
  sk_connect :: "int \<Rightarrow> host_address \<Rightarrow> nat \<Rightarrow> 'h world \<Rightarrow> (host_errno + int) \<times> 'h world"
  sk_listen :: "int \<Rightarrow> int \<Rightarrow> 'h world \<Rightarrow> (host_errno + int) \<times> 'h world"
  sk_shutdown :: "int \<Rightarrow> int \<Rightarrow> 'h world \<Rightarrow> (host_errno + int) \<times> 'h world"
  sk_getsockname :: "int \<Rightarrow> 'h world \<Rightarrow> (host_errno + host_address \<times> u32) \<times> 'h world"
  sk_getpeername :: "int \<Rightarrow> 'h world \<Rightarrow> (host_errno + host_address \<times> u32) \<times> 'h world"
  sk_accept :: "int \<Rightarrow> bool \<Rightarrow> 'h world \<Rightarrow> (host_errno + int \<times> host_address \<times> u32) \<times> 'h world"
  sk_send :: "int \<Rightarrow> u32 \<Rightarrow> u32 \<Rightarrow> msg_flag set \<Rightarrow> (host_address \<times> nat) option \<Rightarrow> 'h world \<Rightarrow> (host_errno + int) \<times> 'h world"
  sk_recv :: "int \<Rightarrow> u32 \<Rightarrow> u32 \<Rightarrow> msg_flag set \<Rightarrow> 'h world \<Rightarrow> (host_errno + int) \<times> 'h world"
  sk_recvfrom :: "int \<Rightarrow> u32 \<Rightarrow> u32 \<Rightarrow> msg_flag set \<Rightarrow> bool \<Rightarrow> 'h world \<Rightarrow>
    (host_errno + int \<times> host_address \<times> u32) \<times> 'h world"
  sk_setsockopt :: "int \<Rightarrow> sock_level \<Rightarrow> sock_option \<Rightarrow> u32 \<Rightarrow> u32 \<Rightarrow> 'h world \<Rightarrow> host_errno option \<times> 'h world"
  sk_getsockopt :: "int \<Rightarrow> sock_level \<Rightarrow> sock_option \<Rightarrow> u32 \<Rightarrow> u32 \<Rightarrow> 'h world \<Rightarrow> (host_errno + u32) \<times> 'h world"
  sk_sendmsg :: "int \<Rightarrow> (host_address \<times> nat) option \<Rightarrow> u32 \<Rightarrow> u32 \<Rightarrow> msg_flag set \<Rightarrow> 'h world \<Rightarrow> (host_errno + int) \<times> 'h world"
  sk_recvmsg :: "int \<Rightarrow> bool \<Rightarrow> u32 \<Rightarrow> u32 \<Rightarrow> msg_flag set \<Rightarrow> 'h world \<Rightarrow>
    (host_errno + int \<times> host_address \<times> u32 \<times> msg_flag set) \<times> 'h world"

abbreviation (input) LINUX_NR_SOCKETCALL :: u32 where "LINUX_NR_SOCKETCALL \<equiv> 102"
abbreviation (input) LINUX_NR_SOCKET :: u32 where "LINUX_NR_SOCKET \<equiv> 281"
abbreviation (input) LINUX_NR_BIND :: u32 where "LINUX_NR_BIND \<equiv> 282"
abbreviation (input) LINUX_NR_CONNECT :: u32 where "LINUX_NR_CONNECT \<equiv> 283"
abbreviation (input) LINUX_NR_LISTEN :: u32 where "LINUX_NR_LISTEN \<equiv> 284"
abbreviation (input) LINUX_NR_ACCEPT :: u32 where "LINUX_NR_ACCEPT \<equiv> 285"
abbreviation (input) LINUX_NR_GETSOCKNAME :: u32 where "LINUX_NR_GETSOCKNAME \<equiv> 286"
abbreviation (input) LINUX_NR_GETPEERNAME :: u32 where "LINUX_NR_GETPEERNAME \<equiv> 287"
abbreviation (input) LINUX_NR_SOCKETPAIR :: u32 where "LINUX_NR_SOCKETPAIR \<equiv> 288"
abbreviation (input) LINUX_NR_SEND :: u32 where "LINUX_NR_SEND \<equiv> 289"
abbreviation (input) LINUX_NR_SENDTO :: u32 where "LINUX_NR_SENDTO \<equiv> 290"
abbreviation (input) LINUX_NR_RECV :: u32 where "LINUX_NR_RECV \<equiv> 291"
abbreviation (input) LINUX_NR_RECVFROM :: u32 where "LINUX_NR_RECVFROM \<equiv> 292"
abbreviation (input) LINUX_NR_SHUTDOWN :: u32 where "LINUX_NR_SHUTDOWN \<equiv> 293"
abbreviation (input) LINUX_NR_SETSOCKOPT :: u32 where "LINUX_NR_SETSOCKOPT \<equiv> 294"
abbreviation (input) LINUX_NR_GETSOCKOPT :: u32 where "LINUX_NR_GETSOCKOPT \<equiv> 295"
abbreviation (input) LINUX_NR_SENDMSG :: u32 where "LINUX_NR_SENDMSG \<equiv> 296"
abbreviation (input) LINUX_NR_RECVMSG :: u32 where "LINUX_NR_RECVMSG \<equiv> 297"
abbreviation (input) LINUX_NR_ACCEPT4 :: u32 where "LINUX_NR_ACCEPT4 \<equiv> 366"
abbreviation (input) LINUX_AF_UNIX :: int where "LINUX_AF_UNIX \<equiv> 1"
abbreviation (input) LINUX_AF_INET :: int where "LINUX_AF_INET \<equiv> 2"
abbreviation (input) LINUX_AF_INET6 :: int where "LINUX_AF_INET6 \<equiv> 10"
abbreviation (input) LINUX_SOCK_NONBLOCK :: u32 where "LINUX_SOCK_NONBLOCK \<equiv> 0x800"
abbreviation (input) LINUX_SOCK_CLOEXEC :: u32 where "LINUX_SOCK_CLOEXEC \<equiv> 0x80000"
abbreviation (input) LINUX_ENOPROTOOPT :: int where "LINUX_ENOPROTOOPT \<equiv> 92"
abbreviation (input) LINUX_EOPNOTSUPP :: int where "LINUX_EOPNOTSUPP \<equiv> 95"
abbreviation (input) LINUX_EAFNOSUPPORT :: int where "LINUX_EAFNOSUPPORT \<equiv> 97"

section \<open>Results, domains and types\<close>

definition socket_result :: "(host_errno + int) \<times> 'h world \<Rightarrow> sysret \<times> 'h world" where
  "socket_result r = (case r of (Inl e, w) \<Rightarrow> (Translated e, w) | (Inr v, w) \<Rightarrow> (Value v, w))"

definition host_domain :: "'h sock_host \<Rightarrow> int \<Rightarrow> int option" where
  "host_domain H linux_domain =
     (if linux_domain = LINUX_AF_UNIX then Some (sk_family H AF_UNIX)
      else if linux_domain = LINUX_AF_INET then Some (sk_family H AF_INET)
      else if linux_domain = LINUX_AF_INET6 then Some (sk_family H AF_INET6)
      else None)"

definition linux_domain :: "'h sock_host \<Rightarrow> int \<Rightarrow> int option" where
  "linux_domain H host =
     (if host = sk_family H AF_UNIX then Some LINUX_AF_UNIX
      else if host = sk_family H AF_INET then Some LINUX_AF_INET
      else if host = sk_family H AF_INET6 then Some LINUX_AF_INET6
      else None)"

definition socket_type :: "'h sock_host \<Rightarrow> u32 \<Rightarrow> (int \<times> host_oflag set \<times> fd_flag set) option" where
  "socket_type H linux_type =
     (let flags = linux_type AND NOT 0xF; type = uint (linux_type AND 0xF) in
      if flags AND NOT (LINUX_SOCK_NONBLOCK OR LINUX_SOCK_CLOEXEC) \<noteq> 0 \<or> type < sk_stream H \<or> type > sk_seqpacket H
      then None
      else Some (type, flag_if (flags AND LINUX_SOCK_NONBLOCK \<noteq> 0) O_NONBLOCK,
        flag_if (flags AND LINUX_SOCK_CLOEXEC \<noteq> 0) FD_CLOEXEC))"

definition configure_descriptor :: "'h sock_host \<Rightarrow> int \<Rightarrow> fd_flag set \<Rightarrow> 'h world \<Rightarrow> host_errno option \<times> 'h world" where
  "configure_descriptor H fd descriptor_flags w =
     (if descriptor_flags = {} then (None, w)
      else case sk_getfd H fd w of
        (Inl e, w) \<Rightarrow> (Some e, w)
      | (Inr current, w) \<Rightarrow> sk_setfd H fd (current \<union> descriptor_flags) w)"

definition configure_socket ::
  "'h sock_host \<Rightarrow> int \<Rightarrow> host_oflag set \<Rightarrow> fd_flag set \<Rightarrow> 'h world \<Rightarrow> host_errno option \<times> 'h world" where
  "configure_socket H fd status_flags descriptor_flags w =
     (if status_flags = {} then configure_descriptor H fd descriptor_flags w
      else case sk_getfl H fd w of
        (Inl e, w) \<Rightarrow> (Some e, w)
      | (Inr current, w) \<Rightarrow>
          (case sk_setfl H fd (current \<union> status_flags) w of
             (Some e, w) \<Rightarrow> (Some e, w)
           | (None, w) \<Rightarrow> configure_descriptor H fd descriptor_flags w))"

section \<open>Addresses\<close>

text \<open>The address for the host and its length; the cast to \<open>uint8_t\<close> keeps the low eight bits.\<close>

definition guest_address :: "'h sock_host \<Rightarrow> mem \<Rightarrow> u32 \<Rightarrow> u32 \<Rightarrow> sysret + host_address \<times> nat" where
  "guest_address H m guest guest_length =
     (if guest = 0 \<or> guest_length < 2 then Inl (RawHost EFAULT)
      else
        let family = int (unat (load16 m guest));
            bytes = (\<lambda>n i. if i < n then m (guest + 2 + of_nat i) else 0)
        in if host_domain H family = None then Inl (LinuxErr LINUX_EAFNOSUPPORT)
           else if family = LINUX_AF_INET then
             if guest_length < 16 then Inl (RawHost EINVAL)
             else Inr (\<lparr>sa_len = 16, sa_family = sk_family H AF_INET, sa_data = bytes 14\<rparr>, 16)
           else if family = LINUX_AF_INET6 then
             if guest_length < 28 then Inl (RawHost EINVAL)
             else Inr (\<lparr>sa_len = 28, sa_family = sk_family H AF_INET6, sa_data = bytes 26\<rparr>, 28)
           else
             let path_length = unat (guest_length - 2) in
             if path_length > sk_sun_path H then Inl (RawHost EINVAL)
             else
               let len = of_nat (2 + path_length) :: u8 in
               Inr (\<lparr>sa_len = len, sa_family = sk_family H AF_UNIX, sa_data = bytes path_length\<rparr>, unat len))"

text \<open>The bytes of the buffer \<open>converted\<close> up to \<open>required\<close>.\<close>

definition address_bytes :: "'h sock_host \<Rightarrow> host_address \<Rightarrow> u32 \<Rightarrow> sysret + u8 list" where
  "address_bytes H host host_length =
     (case linux_domain H (sa_family host) of None \<Rightarrow> Inl (LinuxErr LINUX_EAFNOSUPPORT)
      | Some mapped \<Rightarrow>
          let required = (if mapped = LINUX_AF_INET then 16 else if mapped = LINUX_AF_INET6 then 28
                else unat host_length)
          in if required > 128 then Inl (RawHost EINVAL)
             else Inr (take required (to_le 2 (of_int mapped :: u16) @ map (sa_data host) [0..<required - 2])))"

text \<open>Copying as much as the guest has room for.\<close>

definition copy_address :: "u8 list \<Rightarrow> u32 \<Rightarrow> u32 \<Rightarrow> mem \<Rightarrow> mem" where
  "copy_address converted guest capacity m =
     (if guest \<noteq> 0 \<and> capacity \<noteq> 0 then store_bytes m guest (take (unat capacity) converted) else m)"

definition store_address ::
  "'h sock_host \<Rightarrow> u32 \<Rightarrow> u32 \<Rightarrow> host_address \<Rightarrow> u32 \<Rightarrow> mem \<Rightarrow> sysret + mem" where
  "store_address H guest guest_length host host_length m =
     (if guest_length = 0 then (if guest = 0 then Inr m else Inl (RawHost EFAULT))
      else case address_bytes H host host_length of
        Inl r \<Rightarrow> Inl r
      | Inr converted \<Rightarrow>
          Inr (store32 (copy_address converted guest (load32 m guest_length) m) guest_length (of_nat (length converted))))"

section \<open>Message flags and options\<close>

definition message_flags :: "'h sock_host \<Rightarrow> u32 \<Rightarrow> msg_flag set option" where
  "message_flags H linux_flags =
     (if linux_flags AND NOT 0x141EF \<noteq> 0 then None
      else if \<not> sk_waitforone H \<and> linux_flags AND 0x10000 \<noteq> 0 then None
      else Some (
        flag_if (linux_flags AND 0x0001 \<noteq> 0) MSG_OOB \<union> flag_if (linux_flags AND 0x0002 \<noteq> 0) MSG_PEEK \<union>
        flag_if (linux_flags AND 0x0004 \<noteq> 0) MSG_DONTROUTE \<union> flag_if (linux_flags AND 0x0008 \<noteq> 0) MSG_CTRUNC \<union>
        flag_if (linux_flags AND 0x0020 \<noteq> 0) MSG_TRUNC \<union> flag_if (linux_flags AND 0x0040 \<noteq> 0) MSG_DONTWAIT \<union>
        flag_if (linux_flags AND 0x0080 \<noteq> 0) MSG_EOR \<union> flag_if (linux_flags AND 0x0100 \<noteq> 0) MSG_WAITALL \<union>
        flag_if (linux_flags AND 0x4000 \<noteq> 0) MSG_NOSIGNAL \<union> flag_if (linux_flags AND 0x10000 \<noteq> 0) MSG_WAITFORONE))"

definition linux_message_flags :: "msg_flag set \<Rightarrow> u32" where
  "linux_message_flags host_flags =
     (if MSG_OOB \<in> host_flags then 0x0001 else 0) OR (if MSG_PEEK \<in> host_flags then 0x0002 else 0) OR
     (if MSG_DONTROUTE \<in> host_flags then 0x0004 else 0) OR (if MSG_CTRUNC \<in> host_flags then 0x0008 else 0) OR
     (if MSG_TRUNC \<in> host_flags then 0x0020 else 0) OR (if MSG_DONTWAIT \<in> host_flags then 0x0040 else 0) OR
     (if MSG_EOR \<in> host_flags then 0x0080 else 0) OR (if MSG_WAITALL \<in> host_flags then 0x0100 else 0)"

definition socket_option :: "int \<Rightarrow> int \<Rightarrow> (sock_level \<times> sock_option) option" where
  "socket_option linux_level linux_option =
     (if linux_level = 1 then
        map_option (Pair SOL_SOCKET) (map_of
          [(1, SO_DEBUG), (2, SO_REUSEADDR), (3, SO_TYPE), (4, SO_ERROR), (5, SO_DONTROUTE), (6, SO_BROADCAST),
           (7, SO_SNDBUF), (8, SO_RCVBUF), (9, SO_KEEPALIVE), (10, SO_OOBINLINE), (13, SO_LINGER), (15, SO_REUSEPORT),
           (18, SO_RCVLOWAT), (19, SO_SNDLOWAT), (20, SO_RCVTIMEO), (21, SO_SNDTIMEO), (30, SO_ACCEPTCONN)] linux_option)
      else if linux_level = 0 then
        map_option (Pair IPPROTO_IP) (map_of
          [(1, IP_TOS), (2, IP_TTL), (3, IP_HDRINCL), (4, IP_OPTIONS), (32, IP_MULTICAST_IF), (33, IP_MULTICAST_TTL),
           (34, IP_MULTICAST_LOOP), (35, IP_ADD_MEMBERSHIP), (36, IP_DROP_MEMBERSHIP)] linux_option)
      else if linux_level = 6 then
        map_option (Pair IPPROTO_TCP) (map_of [(1, TCP_NODELAY), (2, TCP_MAXSEG), (4, TCP_KEEPALIVE)] linux_option)
      else None)"

section \<open>The calls\<close>

definition make_socket :: "'h sock_host \<Rightarrow> arguments \<Rightarrow> 'h world \<Rightarrow> sysret \<times> 'h world" where
  "make_socket H args w =
     (case (host_domain H (sint (args 0)), socket_type H (args 1)) of
        (Some domain, Some (type, status_flags, descriptor_flags)) \<Rightarrow>
          (case sk_socket H domain type (sint (args 2)) w of
             (Inl e, w) \<Rightarrow> (Translated e, w)
           | (Inr fd, w) \<Rightarrow>
               (case configure_socket H fd status_flags descriptor_flags w of
                  (Some e, w) \<Rightarrow> (Translated e, sk_close H fd w)
                | (None, w) \<Rightarrow> (Value fd, w)))
      | _ \<Rightarrow> (RawHost EINVAL, w))"

definition deliver_address ::
  "'h sock_host \<Rightarrow> u32 \<Rightarrow> u32 \<Rightarrow> host_address \<Rightarrow> u32 \<Rightarrow> int \<Rightarrow> 'h world \<Rightarrow> sysret \<times> 'h world" where
  "deliver_address H guest guest_length host host_length result w =
     (case store_address H guest guest_length host host_length (w_mem w) of
        Inl r \<Rightarrow> (r, w)
      | Inr m \<Rightarrow> (Value result, w\<lparr>w_mem := m\<rparr>))"

definition address_call :: "'h sock_host \<Rightarrow> u32 \<Rightarrow> arguments \<Rightarrow> 'h world \<Rightarrow> sysret \<times> 'h world" where
  "address_call H number args w =
     (if number = LINUX_NR_BIND \<or> number = LINUX_NR_CONNECT then
        (case guest_address H (w_mem w) (args 1) (args 2) of
           Inl r \<Rightarrow> (r, w)
         | Inr (address, len) \<Rightarrow>
             socket_result ((if number = LINUX_NR_BIND then sk_bind H else sk_connect H) (sint (args 0)) address len w))
      else
        (case (if number = LINUX_NR_GETSOCKNAME then sk_getsockname H else sk_getpeername H) (sint (args 0)) w of
           (Inl e, w) \<Rightarrow> (Translated e, w)
         | (Inr (address, len), w) \<Rightarrow> deliver_address H (args 1) (args 2) address len 0 w))"

definition accept_socket :: "'h sock_host \<Rightarrow> arguments \<Rightarrow> bool \<Rightarrow> 'h world \<Rightarrow> sysret \<times> 'h world" where
  "accept_socket H args with_flags w =
     (case (if with_flags then socket_type H (of_int (sk_stream H) OR args 3) else Some (0, {}, {})) of
        None \<Rightarrow> (RawHost EINVAL, w)
      | Some (_, status_flags, descriptor_flags) \<Rightarrow>
          (case sk_accept H (sint (args 0)) (args 1 \<noteq> 0) w of
             (Inl e, w) \<Rightarrow> (Translated e, w)
           | (Inr (fd, address, len), w) \<Rightarrow>
               (case configure_socket H fd status_flags descriptor_flags w of
                  (Some e, w) \<Rightarrow> (Translated e, sk_close H fd w)
                | (None, w) \<Rightarrow>
                    if args 1 = 0 then (Value fd, w)
                    else (case store_address H (args 1) (args 2) address len (w_mem w) of
                        Inl r \<Rightarrow> (r, sk_close H fd w)
                      | Inr m \<Rightarrow> (Value fd, w\<lparr>w_mem := m\<rparr>)))))"

definition configure_pair ::
  "'h sock_host \<Rightarrow> int \<Rightarrow> int \<Rightarrow> host_oflag set \<Rightarrow> fd_flag set \<Rightarrow> 'h world \<Rightarrow> host_errno option \<times> 'h world" where
  "configure_pair H a b status_flags descriptor_flags w =
     (case configure_socket H a status_flags descriptor_flags w of
        (Some e, w) \<Rightarrow> (Some e, w)
      | (None, w) \<Rightarrow> configure_socket H b status_flags descriptor_flags w)"

definition socket_pair :: "'h sock_host \<Rightarrow> arguments \<Rightarrow> 'h world \<Rightarrow> sysret \<times> 'h world" where
  "socket_pair H args w =
     (if args 3 = 0 then (RawHost EFAULT, w)
      else case (host_domain H (sint (args 0)), socket_type H (args 1)) of
        (Some domain, Some (type, status_flags, descriptor_flags)) \<Rightarrow>
          (case sk_pair H domain type (sint (args 2)) w of
             (Inl e, w) \<Rightarrow> (Translated e, w)
           | (Inr (a, b), w) \<Rightarrow>
               (case configure_pair H a b status_flags descriptor_flags w of
                  (Some e, w) \<Rightarrow> (Translated e, sk_close H b (sk_close H a w))
                | (None, w) \<Rightarrow> (Value 0, w\<lparr>w_mem := store_words (w_mem w) (args 3) [of_int a, of_int b]\<rparr>)))
      | _ \<Rightarrow> (RawHost EINVAL, w))"

definition transfer :: "'h sock_host \<Rightarrow> u32 \<Rightarrow> arguments \<Rightarrow> 'h world \<Rightarrow> sysret \<times> 'h world" where
  "transfer H number args w =
     (case message_flags H (args 3) of None \<Rightarrow> (RawHost EINVAL, w)
      | Some flags \<Rightarrow>
          if number = LINUX_NR_SEND then socket_result (sk_send H (sint (args 0)) (args 1) (args 2) flags None w)
          else if number = LINUX_NR_RECV then socket_result (sk_recv H (sint (args 0)) (args 1) (args 2) flags w)
          else if number = LINUX_NR_SENDTO then
            if args 4 = 0 \<and> args 5 = 0 then socket_result (sk_send H (sint (args 0)) (args 1) (args 2) flags None w)
            else (case guest_address H (w_mem w) (args 4) (args 5) of
                Inl r \<Rightarrow> (r, w)
              | Inr address \<Rightarrow> socket_result (sk_send H (sint (args 0)) (args 1) (args 2) flags (Some address) w))
          else
            (case sk_recvfrom H (sint (args 0)) (args 1) (args 2) flags (args 4 \<noteq> 0) w of
               (Inl e, w) \<Rightarrow> (Translated e, w)
             | (Inr (result, address, len), w) \<Rightarrow>
                 if args 4 = 0 then (Value result, w)
                 else deliver_address H (args 4) (args 5) address len result w))"

definition socket_option_call :: "'h sock_host \<Rightarrow> u32 \<Rightarrow> arguments \<Rightarrow> 'h world \<Rightarrow> sysret \<times> 'h world" where
  "socket_option_call H number args w =
     (case socket_option (sint (args 1)) (sint (args 2)) of None \<Rightarrow> (LinuxErr LINUX_ENOPROTOOPT, w)
      | Some (level, option) \<Rightarrow>
          if number = LINUX_NR_SETSOCKOPT then
            (case sk_setsockopt H (sint (args 0)) level option (args 3) (args 4) w of
               (None, w) \<Rightarrow> (Value 0, w)
             | (Some e, w) \<Rightarrow> (Translated e, w))
          else if args 4 = 0 then (RawHost EFAULT, w)
          else
            (case sk_getsockopt H (sint (args 0)) level option (args 3) (load32 (w_mem w) (args 4)) w of
               (Inl e, w) \<Rightarrow> (Translated e, w)
             | (Inr len, w) \<Rightarrow>
                 let m = w_mem w;
                     m = (if sint (args 1) = 1 \<and> sint (args 2) = 4 \<and> args 3 \<noteq> 0 \<and> len \<ge> 4
                       then store32 m (args 3) (of_int (linux_errno_number (sk_errno H (sint (load32 m (args 3))))))
                       else m)
                 in (Value 0, w\<lparr>w_mem := store32 m (args 4) len\<rparr>)))"

text \<open>The guest's message header, seven words.\<close>

record linux_msghdr =
  mh_name :: u32
  mh_name_length :: u32
  mh_iov :: u32
  mh_iov_count :: u32
  mh_control :: u32
  mh_control_length :: u32
  mh_flags :: u32

definition load_msghdr :: "mem \<Rightarrow> u32 \<Rightarrow> linux_msghdr" where
  "load_msghdr m a = \<lparr>mh_name = load32 m a, mh_name_length = load32 m (a + 4), mh_iov = load32 m (a + 8),
     mh_iov_count = load32 m (a + 12), mh_control = load32 m (a + 16), mh_control_length = load32 m (a + 20),
     mh_flags = load32 m (a + 24)\<rparr>"

definition store_msghdr :: "mem \<Rightarrow> u32 \<Rightarrow> linux_msghdr \<Rightarrow> mem" where
  "store_msghdr m a g = store_words m a [mh_name g, mh_name_length g, mh_iov g, mh_iov_count g, mh_control g,
     mh_control_length g, mh_flags g]"

definition send_message :: "'h sock_host \<Rightarrow> int \<Rightarrow> linux_msghdr \<Rightarrow> msg_flag set \<Rightarrow> 'h world \<Rightarrow> sysret \<times> 'h world" where
  "send_message H fd guest flags w =
     (if mh_name guest = 0 then socket_result (sk_sendmsg H fd None (mh_iov guest) (mh_iov_count guest) flags w)
      else case guest_address H (w_mem w) (mh_name guest) (mh_name_length guest) of
        Inl r \<Rightarrow> (r, w)
      | Inr address \<Rightarrow> socket_result (sk_sendmsg H fd (Some address) (mh_iov guest) (mh_iov_count guest) flags w))"

definition receive_message ::
  "'h sock_host \<Rightarrow> int \<Rightarrow> u32 \<Rightarrow> linux_msghdr \<Rightarrow> msg_flag set \<Rightarrow> 'h world \<Rightarrow> sysret \<times> 'h world" where
  "receive_message H fd header guest flags w =
     (case sk_recvmsg H fd (mh_name guest \<noteq> 0) (mh_iov guest) (mh_iov_count guest) flags w of
        (Inl e, w) \<Rightarrow> (Translated e, w)
      | (Inr (result, address, len, returned), w) \<Rightarrow>
          let guest = guest\<lparr>mh_flags := linux_message_flags returned\<rparr> in
          if mh_name guest = 0 then (Value result, w\<lparr>w_mem := store_msghdr (w_mem w) header guest\<rparr>)
          else (case address_bytes H address len of
              Inl r \<Rightarrow> (r, w)
            | Inr converted \<Rightarrow>
                let m = copy_address converted (mh_name guest) (mh_name_length guest) (w_mem w);
                    guest = guest\<lparr>mh_name_length := of_nat (length converted)\<rparr>
                in (Value result, w\<lparr>w_mem := store_msghdr m header guest\<rparr>)))"

definition message_call :: "'h sock_host \<Rightarrow> u32 \<Rightarrow> arguments \<Rightarrow> 'h world \<Rightarrow> sysret \<times> 'h world" where
  "message_call H number args w =
     (if args 1 = 0 then (RawHost EFAULT, w)
      else
        let guest = load_msghdr (w_mem w) (args 1) in
        if mh_control guest \<noteq> 0 \<or> mh_control_length guest \<noteq> 0 then (LinuxErr LINUX_EOPNOTSUPP, w)
        else case message_flags H (args 2) of None \<Rightarrow> (RawHost EINVAL, w)
          | Some flags \<Rightarrow>
              if number = LINUX_NR_SENDMSG then send_message H (sint (args 0)) guest flags w
              else receive_message H (sint (args 0)) (args 1) guest flags w)"

definition socketcall_number :: "u32 \<Rightarrow> u32" where
  "socketcall_number call =
     (let calls = [0, LINUX_NR_SOCKET, LINUX_NR_BIND, LINUX_NR_CONNECT, LINUX_NR_LISTEN, LINUX_NR_ACCEPT,
        LINUX_NR_GETSOCKNAME, LINUX_NR_GETPEERNAME, LINUX_NR_SOCKETPAIR, LINUX_NR_SEND, LINUX_NR_RECV,
        LINUX_NR_SENDTO, LINUX_NR_RECVFROM, LINUX_NR_SHUTDOWN, LINUX_NR_SETSOCKOPT, LINUX_NR_GETSOCKOPT,
        LINUX_NR_SENDMSG, LINUX_NR_RECVMSG, LINUX_NR_ACCEPT4]
      in if unat call < length calls then calls ! unat call else 0)"

definition socket_call :: "'h sock_host \<Rightarrow> u32 \<Rightarrow> arguments \<Rightarrow> 'h world \<Rightarrow> sysret \<times> 'h world" where
  "socket_call H number args w =
     (if number = LINUX_NR_SOCKET then make_socket H args w
      else if number \<in> {LINUX_NR_BIND, LINUX_NR_CONNECT, LINUX_NR_GETSOCKNAME, LINUX_NR_GETPEERNAME}
      then address_call H number args w
      else if number = LINUX_NR_LISTEN then socket_result (sk_listen H (sint (args 0)) (sint (args 1)) w)
      else if number = LINUX_NR_ACCEPT then accept_socket H args False w
      else if number = LINUX_NR_ACCEPT4 then accept_socket H args True w
      else if number = LINUX_NR_SOCKETPAIR then socket_pair H args w
      else if number \<in> {LINUX_NR_SEND, LINUX_NR_SENDTO, LINUX_NR_RECV, LINUX_NR_RECVFROM} then transfer H number args w
      else if number = LINUX_NR_SHUTDOWN then socket_result (sk_shutdown H (sint (args 0)) (sint (args 1)) w)
      else if number \<in> {LINUX_NR_SETSOCKOPT, LINUX_NR_GETSOCKOPT} then socket_option_call H number args w
      else if number \<in> {LINUX_NR_SENDMSG, LINUX_NR_RECVMSG} then message_call H number args w
      else (RawHost ENOSYS, w))"

definition linux_socket_syscall :: "'h sock_host \<Rightarrow> u32 \<Rightarrow> arguments \<Rightarrow> 'h world \<Rightarrow> sysret \<times> 'h world" where
  "linux_socket_syscall H number args w =
     (if number = LINUX_NR_SOCKETCALL then
        let number = socketcall_number (args 0) in
        if number = 0 \<or> args 1 = 0 then (RawHost EINVAL, w)
        else socket_call H number (\<lambda>i. load32 (w_mem w) (args 1 + 4 * of_nat i)) w
      else socket_call H number args w)"

section \<open>Addresses there and back\<close>

lemma to_le_of_le_16: "length bs = 2 \<Longrightarrow> to_le 2 (of_le bs :: u16) = bs"
proof -
  assume "length bs = 2"
  then obtain a b where bs: "bs = [a, b]" by (auto simp: eval_nat_numeral length_Suc_conv)
  let ?w = "of_le bs :: u16"
  have "(ucast ?w :: u8) = a" "(ucast (drop_bit 8 ?w) :: u8) = b"
    by (rule bit_word_eqI; auto simp: bs bit_simps dest: bit_imp_le_length)+
  then show ?thesis by (simp add: bs eval_nat_numeral)
qed

text \<open>What the code relies on: distinct families, and a \<open>sockaddr_un\<close> that fits the buffer of 128 bytes.\<close>

definition families_ok :: "'h sock_host \<Rightarrow> bool" where
  "families_ok H \<longleftrightarrow> inj (sk_family H) \<and> 2 + sk_sun_path H \<le> 128"

definition address_size :: "mem \<Rightarrow> u32 \<Rightarrow> u32 \<Rightarrow> nat" where
  "address_size m guest n =
     (if load16 m guest = 2 then 16 else if load16 m guest = 10 then 28 else unat n)"

lemma guest_address_bytes:
  assumes ok: "families_ok H" and conv: "guest_address H m g n = Inr (a, len)"
  shows "len = address_size m g n \<and> 2 \<le> len \<and> len \<le> 128 \<and> sa_len a = of_nat len \<and>
    address_bytes H a (of_nat len) = Inr (load_bytes m g len)"
proof -
  let ?f = "int (unat (load16 m g))" and ?k = "address_size m g n"
  have g: "g \<noteq> 0" "\<not> n < 2" and dom: "host_domain H ?f \<noteq> None"
    using conv by (auto simp: guest_address_def Let_def split: if_splits)
  have n2: "2 \<le> unat n" using g(2) by (simp add: word_less_nat_alt)
  then have path: "unat (n - 2) = unat n - 2" by (simp add: unat_sub word_le_nat_alt)
  have fam: "load16 m g = 1 \<or> load16 m g = 2 \<or> load16 m g = 10"
    using dom by (auto simp: host_domain_def word_uint_eq_iff split: if_splits)
  have inj: "inj (sk_family H)" and sun: "2 + sk_sun_path H \<le> 128" using ok by (simp_all add: families_ok_def)
  have narrow: "unat (ucast n :: u8) = unat n" if "unat n \<le> 128"
    using that by (simp add: unsigned_ucast_eq take_bit_nat_eq_self)
  have a: "len = ?k" "2 \<le> ?k" "?k \<le> 128" "sa_len a = of_nat len"
    "sa_family a = sk_family H (if load16 m g = 1 then AF_UNIX else if load16 m g = 2 then AF_INET else AF_INET6)"
    "\<And>i. i < ?k - 2 \<Longrightarrow> sa_data a i = m (g + 2 + of_nat i)"
    using conv fam g n2 path sun narrow
    by (auto simp: guest_address_def host_domain_def Let_def address_size_def unat_of_nat split: if_splits)
  have mapped: "linux_domain H (sa_family a) = Some (int (unat (load16 m g)))"
    using fam a(5) inj by (auto simp: linux_domain_def inj_eq)
  have "to_le 2 (load16 m g) = load_bytes m g 2" by (simp add: load16_def to_le_of_le_16)
  moreover have "map (sa_data a) [0..<?k - 2] = load_bytes m (g + 2) (?k - 2)"
    using a(6) by (simp add: load_bytes_def)
  moreover have "load_bytes m g ?k = load_bytes m g 2 @ load_bytes m (g + 2) (?k - 2)"
    using load_bytes_split [of m g 2 "?k - 2"] le_add_diff_inverse [OF a(2)] by simp
  ultimately have bytes: "to_le 2 (load16 m g) @ map (sa_data a) [0..<?k - 2] = load_bytes m g ?k" by simp
  have req: "(if ?f = LINUX_AF_INET then 16 else if ?f = LINUX_AF_INET6 then 28 else unat (of_nat len :: u32)) = ?k"
    using fam a(1,3) by (auto simp: address_size_def unat_of_nat)
  have "address_bytes H a (of_nat len) = Inr (load_bytes m g ?k)"
    using mapped bytes a(3) unfolding address_bytes_def mapped option.case Let_def req by simp
  then show ?thesis using a by simp
qed

text \<open>
  C33 (roundtrip). Socket addresses survive the translation. An address the guest hands to \<open>bind\<close>,
  \<open>connect\<close> or \<open>sendto\<close> and that comes back from the host is stored in the guest's buffer
  byte for byte as the guest wrote it, internet addresses with 16 or 28 bytes and local ones with all of
  their path, cut to the buffer's size, with the full length reported next to it, and nothing else is
  written.
\<close>

theorem socket_address_roundtrip:
  assumes ok: "families_ok H" and conv: "guest_address H m g n = Inr (a, len)"
    and buf: "buffer \<noteq> 0" "lenptr \<noteq> 0" "apart buffer 128 lenptr 4"
  shows "\<exists>m1. store_address H buffer lenptr a (of_nat len) m0 = Inr m1 \<and> len = address_size m g n \<and>
    load32 m1 lenptr = of_nat len \<and>
    load_bytes m1 buffer (min (unat (load32 m0 lenptr)) len) = load_bytes m g (min (unat (load32 m0 lenptr)) len) \<and>
    (\<forall>x. min (unat (load32 m0 lenptr)) len \<le> unat (x - buffer) \<and> 4 \<le> unat (x - lenptr) \<longrightarrow> m1 x = m0 x)"
proof -
  let ?c = "unat (load32 m0 lenptr)" and ?bs = "load_bytes m g len"
  have b: "len = address_size m g n" "2 \<le> len" "len \<le> 128" "address_bytes H a (of_nat len) = Inr ?bs"
    using guest_address_bytes [OF ok conv] by auto
  let ?m = "copy_address ?bs buffer (load32 m0 lenptr) m0"
  have m: "?m = store_bytes m0 buffer (take ?c ?bs)" using buf by (auto simp: copy_address_def store_bytes_def)
  have size: "length (take ?c ?bs) = min ?c len" by simp
  have "apart buffer (length (take ?c ?bs)) lenptr 4" using buf(3) b(3) by (auto simp: apart_def)
  then have ap: "apart lenptr 4 buffer (min ?c len)" using size by (simp add: apart_sym)
  have "load_bytes (store32 ?m lenptr (of_nat len)) buffer (min ?c len) = load_bytes ?m buffer (min ?c len)"
    unfolding store32_def using ap by (intro load_store_bytes_apart) simp
  also have "\<dots> = take (min ?c len) (take ?c ?bs)" unfolding m using b(3) by (intro load_store_bytes_same) simp_all
  also have "\<dots> = load_bytes m g (min ?c len)" by (simp add: load_bytes_def take_map min.commute)
  finally have data: "load_bytes (store32 ?m lenptr (of_nat len)) buffer (min ?c len) = load_bytes m g (min ?c len)" .
  have "store_address H buffer lenptr a (of_nat len) m0 = Inr (store32 ?m lenptr (of_nat len))"
    using b(4) buf(2) by (simp add: store_address_def)
  moreover have "store32 ?m lenptr (of_nat len) x = m0 x" if "min ?c len \<le> unat (x - buffer)" "4 \<le> unat (x - lenptr)" for x
    using that size unfolding m by (simp add: store32_outside store_bytes_outside)
  ultimately show ?thesis using data b(1) by (intro exI conjI) auto
qed

section \<open>Descriptors\<close>

text \<open>
  What the host promises of open descriptors: a new socket gets a number that was not open, closing
  removes one, and no other call opens or closes any.
\<close>

definition keeps :: "('h \<Rightarrow> int set) \<Rightarrow> ('h world \<Rightarrow> 'a \<times> 'h world) \<Rightarrow> bool" where
  "keeps opens f \<longleftrightarrow> (\<forall>w. opens (w_host (snd (f w))) = opens (w_host w))"

definition adds :: "('h \<Rightarrow> int set) \<Rightarrow> ('a \<Rightarrow> int set) \<Rightarrow> ('h world \<Rightarrow> (host_errno + 'a) \<times> 'h world) \<Rightarrow> bool" where
  "adds opens new f \<longleftrightarrow> (\<forall>w r w'. f w = (r, w') \<longrightarrow>
     (case r of Inl _ \<Rightarrow> opens (w_host w') = opens (w_host w)
      | Inr v \<Rightarrow> new v \<inter> opens (w_host w) = {} \<and> opens (w_host w') = new v \<union> opens (w_host w)))"

definition descriptor_laws :: "'h sock_host \<Rightarrow> ('h \<Rightarrow> int set) \<Rightarrow> bool" where
  "descriptor_laws H opens \<longleftrightarrow>
     (\<forall>d t p. adds opens (\<lambda>fd. {fd}) (sk_socket H d t p)) \<and>
     (\<forall>d t p. adds opens (\<lambda>(a, b). {a, b}) (sk_pair H d t p)) \<and>
     (\<forall>fd b. adds opens (\<lambda>(n, _). {n}) (sk_accept H fd b)) \<and>
     (\<forall>fd w. opens (w_host (sk_close H fd w)) = opens (w_host w) - {fd}) \<and>
     (\<forall>fd. keeps opens (sk_getfl H fd)) \<and> (\<forall>fd fl. keeps opens (sk_setfl H fd fl)) \<and>
     (\<forall>fd. keeps opens (sk_getfd H fd)) \<and> (\<forall>fd fl. keeps opens (sk_setfd H fd fl)) \<and>
     (\<forall>fd a n. keeps opens (sk_bind H fd a n)) \<and> (\<forall>fd a n. keeps opens (sk_connect H fd a n)) \<and>
     (\<forall>fd n. keeps opens (sk_listen H fd n)) \<and> (\<forall>fd n. keeps opens (sk_shutdown H fd n)) \<and>
     (\<forall>fd. keeps opens (sk_getsockname H fd)) \<and> (\<forall>fd. keeps opens (sk_getpeername H fd)) \<and>
     (\<forall>fd b n fl a. keeps opens (sk_send H fd b n fl a)) \<and> (\<forall>fd b n fl. keeps opens (sk_recv H fd b n fl)) \<and>
     (\<forall>fd b n fl a. keeps opens (sk_recvfrom H fd b n fl a)) \<and>
     (\<forall>fd l o' b n. keeps opens (sk_setsockopt H fd l o' b n)) \<and> (\<forall>fd l o' b n. keeps opens (sk_getsockopt H fd l o' b n)) \<and>
     (\<forall>fd a v n fl. keeps opens (sk_sendmsg H fd a v n fl)) \<and> (\<forall>fd a v n fl. keeps opens (sk_recvmsg H fd a v n fl))"

lemma keepsD: "keeps opens f \<Longrightarrow> f w = (r, w') \<Longrightarrow> opens (w_host w') = opens (w_host w)"
  by (metis keeps_def snd_conv)

lemma keepsI: "(\<And>w r w'. f w = (r, w') \<Longrightarrow> opens (w_host w') = opens (w_host w)) \<Longrightarrow> keeps opens f"
  by (metis keeps_def prod.collapse)

text \<open>Two calls in sequence, the second skipped when the first fails.\<close>

lemma keeps_then:
  assumes "keeps opens f" "\<And>v. keeps opens (g v)"
  shows "keeps opens (\<lambda>w. case f w of (Inl e, w) \<Rightarrow> (h e, w) | (Inr v, w) \<Rightarrow> g v w)"
proof (rule keepsI)
  fix w r w' assume run: "(case f w of (Inl e, w) \<Rightarrow> (h e, w) | (Inr v, w) \<Rightarrow> g v w) = (r, w')"
  obtain x w1 where f: "f w = (x, w1)" by (cases "f w")
  show "opens (w_host w') = opens (w_host w)"
    using run f keepsD [OF assms(1) f] keepsD [OF assms(2)] by (cases x) auto
qed

lemma keeps_option_then:
  assumes "keeps opens f" "keeps opens g"
  shows "keeps opens (\<lambda>w. case f w of (Some e, w) \<Rightarrow> (Some e, w) | (None, w) \<Rightarrow> g w)"
proof (rule keepsI)
  fix w r w' assume run: "(case f w of (Some e, w) \<Rightarrow> (Some e, w) | (None, w) \<Rightarrow> g w) = (r, w')"
  obtain x w1 where f: "f w = (x, w1)" by (cases "f w")
  show "opens (w_host w') = opens (w_host w)"
    using run f keepsD [OF assms(1) f] keepsD [OF assms(2)] by (cases x) auto
qed

lemma keeps_return: "keeps opens (\<lambda>w. (r, w))"
  by (simp add: keeps_def)

lemma configure_keeps:
  assumes "descriptor_laws H opens"
  shows "keeps opens (configure_socket H fd s d)"
proof -
  have k: "keeps opens (sk_getfl H fd)" "\<And>fl. keeps opens (sk_setfl H fd fl)" "keeps opens (sk_getfd H fd)"
    "\<And>fl. keeps opens (sk_setfd H fd fl)" using assms by (simp_all add: descriptor_laws_def)
  have c: "keeps opens (configure_descriptor H fd d)"
    using keeps_then [OF k(3,4)] keeps_return [of opens None] by (cases "d = {}") (simp_all add: configure_descriptor_def [abs_def])
  show ?thesis
    using keeps_then [OF k(1) keeps_option_then [OF k(2) c]] c by (cases "s = {}") (simp_all add: configure_socket_def [abs_def])
qed

lemma addsD: "adds opens new f \<Longrightarrow> f w = (Inl e, w') \<Longrightarrow> opens (w_host w') = opens (w_host w)"
  "adds opens new f \<Longrightarrow> f w = (Inr v, w') \<Longrightarrow>
    new v \<inter> opens (w_host w) = {} \<and> opens (w_host w') = new v \<union> opens (w_host w)"
  by (auto simp: adds_def dest!: spec [of _ w])

lemma laws_new:
  assumes "descriptor_laws H opens"
  shows "adds opens (\<lambda>fd. {fd}) (sk_socket H d t p)" "adds opens (\<lambda>(a, b). {a, b}) (sk_pair H d t p)"
    "adds opens (\<lambda>(n, _). {n}) (sk_accept H fd b)" "opens (w_host (sk_close H fd w)) = opens (w_host w) - {fd}"
  using assms by (simp_all add: descriptor_laws_def)

lemma make_socket_opens:
  assumes laws: "descriptor_laws H opens" and run: "make_socket H args w = (r, w')"
  shows "case r of Value k \<Rightarrow> k \<notin> opens (w_host w) \<and> opens (w_host w') = insert k (opens (w_host w))
    | _ \<Rightarrow> opens (w_host w') = opens (w_host w)"
proof (cases "host_domain H (sint (args 0)) = None \<or> socket_type H (args 1) = None")
  case True
  then show ?thesis using run by (auto simp: make_socket_def split: option.splits)
next
  case False
  then obtain d t s f where ty: "host_domain H (sint (args 0)) = Some d" "socket_type H (args 1) = Some (t, s, f)" by auto
  obtain x w1 where sk: "sk_socket H d t (sint (args 2)) w = (x, w1)" by (cases "sk_socket H d t (sint (args 2)) w")
  show ?thesis
  proof (cases x)
    case (Inl e)
    then show ?thesis using run ty sk addsD(1) [OF laws_new(1) [OF laws]] by (auto simp: make_socket_def)
  next
    case (Inr fd)
    have new: "fd \<notin> opens (w_host w)" "opens (w_host w1) = insert fd (opens (w_host w))"
      using addsD(2) [OF laws_new(1) [OF laws] sk [unfolded Inr]] by auto
    obtain y w2 where c: "configure_socket H fd s f w1 = (y, w2)" by (cases "configure_socket H fd s f w1")
    have "opens (w_host w2) = opens (w_host w1)" by (rule keepsD [OF configure_keeps [OF laws] c])
    then show ?thesis using run ty sk Inr c new laws_new(4) [OF laws] by (cases y) (auto simp: make_socket_def)
  qed
qed

lemma accept_opens:
  assumes laws: "descriptor_laws H opens" and run: "accept_socket H args b w = (r, w')"
  shows "case r of Value k \<Rightarrow> k \<notin> opens (w_host w) \<and> opens (w_host w') = insert k (opens (w_host w))
    | _ \<Rightarrow> opens (w_host w') = opens (w_host w)"
proof (cases "if b then socket_type H (of_int (sk_stream H) OR args 3) else Some (0, {}, {})")
  case None
  then show ?thesis using run by (auto simp: accept_socket_def)
next
  case (Some z)
  then obtain t s f where ty: "(if b then socket_type H (of_int (sk_stream H) OR args 3) else Some (0, {}, {})) = Some (t, s, f)"
    by (cases z) auto
  obtain x w1 where sk: "sk_accept H (sint (args 0)) (args 1 \<noteq> 0) w = (x, w1)" by (cases "sk_accept H (sint (args 0)) (args 1 \<noteq> 0) w")
  note run = run [unfolded accept_socket_def ty option.case prod.case sk]
  show ?thesis
  proof (cases x)
    case (Inl e)
    then show ?thesis using run sk addsD(1) [OF laws_new(3) [OF laws]] by auto
  next
    case (Inr v)
    then obtain fd a n where v: "x = Inr (fd, a, n)" by (cases v) simp
    have new: "fd \<notin> opens (w_host w)" "opens (w_host w1) = insert fd (opens (w_host w))"
      using addsD(2) [OF laws_new(3) [OF laws] sk [unfolded v]] by auto
    obtain y w2 where c: "configure_socket H fd s f w1 = (y, w2)" by (cases "configure_socket H fd s f w1")
    have "opens (w_host w2) = opens (w_host w1)" by (rule keepsD [OF configure_keeps [OF laws] c])
    moreover have "q \<noteq> Value k" if "store_address H g l a n m = Inl q" for g l m q k
      using that by (auto simp: store_address_def address_bytes_def Let_def split: if_splits option.splits)
    ultimately show ?thesis
      using run v c new laws_new(4) [OF laws]
      by (cases y; cases "store_address H (args 1) (args 2) a n (w_mem w2)") (auto split: if_splits sysret.splits)
  qed
qed

lemma pair_opens:
  assumes laws: "descriptor_laws H opens" and run: "socket_pair H args w = (r, w')"
  shows "case r of Value k \<Rightarrow> \<exists>a b. {a, b} \<inter> opens (w_host w) = {} \<and> opens (w_host w') = {a, b} \<union> opens (w_host w) \<and>
      load32 (w_mem w') (args 3) = of_int a \<and> load32 (w_mem w') (args 3 + 4) = of_int b
    | _ \<Rightarrow> opens (w_host w') = opens (w_host w)"
proof (cases "args 3 = 0 \<or> host_domain H (sint (args 0)) = None \<or> socket_type H (args 1) = None")
  case True
  then show ?thesis using run by (auto simp: socket_pair_def split: option.splits if_splits)
next
  case False
  then obtain d t s f where ty: "host_domain H (sint (args 0)) = Some d" "socket_type H (args 1) = Some (t, s, f)" by auto
  obtain x w1 where sk: "sk_pair H d t (sint (args 2)) w = (x, w1)" by (cases "sk_pair H d t (sint (args 2)) w")
  have "args 3 \<noteq> 0" using False by simp
  note run = run [unfolded socket_pair_def ty option.case prod.case sk if_not_P [OF this]]
  show ?thesis
  proof (cases x)
    case (Inl e)
    then show ?thesis using run sk addsD(1) [OF laws_new(2) [OF laws]] by auto
  next
    case (Inr v)
    then obtain a b where v: "x = Inr (a, b)" by (cases v) simp
    have new: "{a, b} \<inter> opens (w_host w) = {}" "opens (w_host w1) = {a, b} \<union> opens (w_host w)"
      using addsD(2) [OF laws_new(2) [OF laws] sk [unfolded v]] by auto
    obtain y w2 where c: "configure_pair H a b s f w1 = (y, w2)" by (cases "configure_pair H a b s f w1")
    have kept: "keeps opens (configure_pair H a b s f)"
      using keeps_option_then [OF configure_keeps [OF laws] configure_keeps [OF laws]] by (simp add: configure_pair_def [abs_def])
    have w2: "opens (w_host w2) = opens (w_host w1)" by (rule keepsD [OF kept c])
    show ?thesis
    proof (cases y)
      case None
      have "load32 (store_words (w_mem w2) (args 3) [of_int a, of_int b]) (args 3) = of_int a"
        "load32 (store_words (w_mem w2) (args 3) [of_int a, of_int b]) (args 3 + 4) = of_int b"
        using load32_store_words [of 0 "[of_int a, of_int b]" "w_mem w2" "args 3"]
          load32_store_words [of 1 "[of_int a, of_int b]" "w_mem w2" "args 3"] by simp_all
      moreover have "r = Value 0" "w' = w2\<lparr>w_mem := store_words (w_mem w2) (args 3) [of_int a, of_int b]\<rparr>"
        using run v c None by auto
      ultimately show ?thesis using new w2 by simp (rule exI [of _ a], simp, rule exI [of _ b], simp)
    next
      case (Some e)
      then show ?thesis using run v c new w2 laws_new(4) [OF laws] by auto
    qed
  qed
qed

lemma result_opens:
  assumes "keeps opens f"
  shows "opens (w_host (snd (socket_result (f w)))) = opens (w_host w)"
proof -
  obtain x w1 where f: "f w = (x, w1)" by (cases "f w")
  then have "snd (socket_result (f w)) = w1" by (cases x) (simp_all add: socket_result_def)
  then show ?thesis using keepsD [OF assms f] by simp
qed

lemma deliver_host: "w_host (snd (deliver_address H g l a n k w)) = w_host w"
  by (simp add: deliver_address_def split: sum.split)

lemma laws_keep:
  assumes "descriptor_laws H opens"
  shows "keeps opens (sk_bind H fd a n)" "keeps opens (sk_connect H fd a n)" "keeps opens (sk_listen H fd i)"
    "keeps opens (sk_shutdown H fd i)" "keeps opens (sk_getsockname H fd)" "keeps opens (sk_getpeername H fd)"
    "keeps opens (sk_send H fd p q fl ad)" "keeps opens (sk_recv H fd p q fl)" "keeps opens (sk_recvfrom H fd p q fl bo)"
    "keeps opens (sk_setsockopt H fd l op p q)" "keeps opens (sk_getsockopt H fd l op p q)"
    "keeps opens (sk_sendmsg H fd ad p q fl)" "keeps opens (sk_recvmsg H fd bo p q fl)"
  using assms by (simp_all add: descriptor_laws_def)

lemmas laws_result = laws_keep(1,2,3,4,7,8,12) [THEN result_opens]

lemma address_call_opens:
  assumes laws: "descriptor_laws H opens"
  shows "opens (w_host (snd (address_call H number args w))) = opens (w_host w)"
proof (cases "number = LINUX_NR_BIND \<or> number = LINUX_NR_CONNECT")
  case True
  then show ?thesis
    by (cases "guest_address H (w_mem w) (args 1) (args 2)")
      (auto simp: address_call_def laws_result(1,2) [OF laws])
next
  case False
  let ?f = "(if number = LINUX_NR_GETSOCKNAME then sk_getsockname H else sk_getpeername H) (sint (args 0))"
  obtain x w1 where f: "?f w = (x, w1)" by (cases "?f w")
  have k: "keeps opens ?f" using laws_keep(5,6) [OF laws] by simp
  have "address_call H number args w =
    (case x of Inl e \<Rightarrow> (Translated e, w1) | Inr (a, len) \<Rightarrow> deliver_address H (args 1) (args 2) a len 0 w1)"
    using False unfolding address_call_def f by (simp split: sum.split)
  then show ?thesis using keepsD [OF k f] by (simp add: deliver_host split: sum.split prod.split)
qed

lemma transfer_opens:
  assumes laws: "descriptor_laws H opens"
  shows "opens (w_host (snd (transfer H number args w))) = opens (w_host w)"
proof (cases "message_flags H (args 3)")
  case None
  then show ?thesis by (simp add: transfer_def)
next
  case (Some fl)
  obtain x w1 where f: "sk_recvfrom H (sint (args 0)) (args 1) (args 2) fl (args 4 \<noteq> 0) w = (x, w1)"
    by (cases "sk_recvfrom H (sint (args 0)) (args 1) (args 2) fl (args 4 \<noteq> 0) w")
  have "opens (w_host w1) = opens (w_host w)" by (rule keepsD [OF laws_keep(9) [OF laws] f])
  then show ?thesis
    unfolding transfer_def Some option.case f prod.case
    by (simp add: deliver_host laws_result(5,6) [OF laws] split: sum.split)
qed

lemma option_opens:
  assumes laws: "descriptor_laws H opens"
  shows "opens (w_host (snd (socket_option_call H number args w))) = opens (w_host w)"
proof (cases "socket_option (sint (args 1)) (sint (args 2))")
  case None
  then show ?thesis by (simp add: socket_option_call_def)
next
  case (Some z)
  then obtain l op where op: "socket_option (sint (args 1)) (sint (args 2)) = Some (l, op)" by (cases z) simp
  obtain x w1 where s: "sk_setsockopt H (sint (args 0)) l op (args 3) (args 4) w = (x, w1)"
    by (cases "sk_setsockopt H (sint (args 0)) l op (args 3) (args 4) w")
  obtain y w2 where g: "sk_getsockopt H (sint (args 0)) l op (args 3) (load32 (w_mem w) (args 4)) w = (y, w2)"
    by (cases "sk_getsockopt H (sint (args 0)) l op (args 3) (load32 (w_mem w) (args 4)) w")
  show ?thesis
    unfolding socket_option_call_def op option.case prod.case s g
    using keepsD [OF laws_keep(10) [OF laws] s] keepsD [OF laws_keep(11) [OF laws] g]
    by (simp add: Let_def split: sum.split option.split)
qed

lemma message_opens:
  assumes laws: "descriptor_laws H opens"
  shows "opens (w_host (snd (message_call H number args w))) = opens (w_host w)"
proof -
  have send: "opens (w_host (snd (send_message H fd g fl w))) = opens (w_host w)" for fd g fl
    by (simp add: send_message_def laws_result(7) [OF laws] split: sum.split)
  have receive: "opens (w_host (snd (receive_message H fd a g fl w))) = opens (w_host w)" for fd a g fl
  proof -
    obtain x w1 where f: "sk_recvmsg H fd (mh_name g \<noteq> 0) (mh_iov g) (mh_iov_count g) fl w = (x, w1)"
      by (cases "sk_recvmsg H fd (mh_name g \<noteq> 0) (mh_iov g) (mh_iov_count g) fl w")
    show ?thesis
      unfolding receive_message_def f prod.case using keepsD [OF laws_keep(13) [OF laws] f]
      by (simp add: Let_def split: sum.split prod.split)
  qed
  show ?thesis by (simp add: message_call_def Let_def send receive split: option.split)
qed

text \<open>
  C18 (safety). No socket call leaks or steals a descriptor. On a host whose calls open and close what
  they promise, a call that fails, for whatever reason and at whatever step, leaves the set of open
  descriptors as it was; \<open>socket\<close>, \<open>accept\<close> and \<open>accept4\<close> add exactly the descriptor
  they return, \<open>socketpair\<close> exactly the two it stores, and every other call none.
\<close>

theorem sockets_not_leaked:
  assumes laws: "descriptor_laws H opens" and run: "socket_call H number args w = (r, w')"
  shows "case r of
      Value k \<Rightarrow>
        if number \<in> {LINUX_NR_SOCKET, LINUX_NR_ACCEPT, LINUX_NR_ACCEPT4}
        then k \<notin> opens (w_host w) \<and> opens (w_host w') = insert k (opens (w_host w))
        else if number = LINUX_NR_SOCKETPAIR
        then \<exists>a b. {a, b} \<inter> opens (w_host w) = {} \<and> opens (w_host w') = {a, b} \<union> opens (w_host w) \<and>
          load32 (w_mem w') (args 3) = of_int a \<and> load32 (w_mem w') (args 3 + 4) = of_int b
        else opens (w_host w') = opens (w_host w)
    | _ \<Rightarrow> opens (w_host w') = opens (w_host w)"
proof -
  have other: "opens (w_host (snd (socket_call H number args w))) = opens (w_host w)"
    if "number \<notin> {LINUX_NR_SOCKET, LINUX_NR_ACCEPT, LINUX_NR_ACCEPT4, LINUX_NR_SOCKETPAIR}"
    using that by (simp add: socket_call_def address_call_opens [OF laws] transfer_opens [OF laws] option_opens [OF laws]
      message_opens [OF laws] laws_result(3,4) [OF laws])
  consider "number = LINUX_NR_SOCKET" | "number = LINUX_NR_ACCEPT" | "number = LINUX_NR_ACCEPT4" | "number = LINUX_NR_SOCKETPAIR"
    | "number \<notin> {LINUX_NR_SOCKET, LINUX_NR_ACCEPT, LINUX_NR_ACCEPT4, LINUX_NR_SOCKETPAIR}" by blast
  then show ?thesis
  proof cases
    case 1
    then show ?thesis using run make_socket_opens [OF laws, of args w r w'] by (simp add: socket_call_def split: sysret.splits)
  next
    case 2
    then show ?thesis using run accept_opens [OF laws, of args False w r w'] by (simp add: socket_call_def split: sysret.splits)
  next
    case 3
    then show ?thesis using run accept_opens [OF laws, of args True w r w'] by (simp add: socket_call_def split: sysret.splits)
  next
    case 4
    then show ?thesis using run pair_opens [OF laws, of args w r w'] by (simp add: socket_call_def split: sysret.splits)
  next
    case 5
    then show ?thesis using other run by (simp split: sysret.splits)
  qed
qed


section \<open>Witnesses\<close>

text \<open>A host that numbers its descriptors upwards and whose connected streams have no peer address.\<close>

definition demo_opens :: "int \<times> int set \<Rightarrow> int set" where
  "demo_opens h = {x \<in> snd h. x < fst h}"

definition demo_open :: "int \<Rightarrow> (int \<times> int set) world \<Rightarrow> (int \<times> int set) world" where
  "demo_open k w = w\<lparr>w_host := (fst (w_host w) + k, {fst (w_host w)..<fst (w_host w) + k} \<union> snd (w_host w))\<rparr>"

definition demo_sockets :: "(int \<times> int set) sock_host" where
  "demo_sockets = \<lparr>
     sk_family = (\<lambda>f. case f of AF_UNIX \<Rightarrow> 1 | AF_INET \<Rightarrow> 2 | AF_INET6 \<Rightarrow> 24), sk_stream = 1, sk_seqpacket = 5,
     sk_sun_path = 104, sk_waitforone = False, sk_errno = (\<lambda>_. EIO),
     sk_socket = (\<lambda>d t p w. (Inr (fst (w_host w)), demo_open 1 w)),
     sk_pair = (\<lambda>d t p w. (Inr (fst (w_host w), fst (w_host w) + 1), demo_open 2 w)),
     sk_close = (\<lambda>fd w. w\<lparr>w_host := (fst (w_host w), snd (w_host w) - {fd})\<rparr>),
     sk_getfl = (\<lambda>fd w. (Inr {}, w)), sk_setfl = (\<lambda>fd fl w. (None, w)),
     sk_getfd = (\<lambda>fd w. (Inr {}, w)), sk_setfd = (\<lambda>fd fl w. (None, w)),
     sk_bind = (\<lambda>fd a n w. (Inr 0, w)), sk_connect = (\<lambda>fd a n w. (Inr 0, w)),
     sk_listen = (\<lambda>fd i w. (Inr 0, w)), sk_shutdown = (\<lambda>fd i w. (Inr 0, w)),
     sk_getsockname = (\<lambda>fd w. (Inl EBADF, w)), sk_getpeername = (\<lambda>fd w. (Inl EBADF, w)),
     sk_accept = (\<lambda>fd b w. (Inl EAGAIN, w)), sk_send = (\<lambda>fd p q fl a w. (Inr (uint q), w)),
     sk_recv = (\<lambda>fd p q fl w. (Inr 0, w)),
     sk_recvfrom = (\<lambda>fd p q fl b w. (Inr (1, \<lparr>sa_len = 0, sa_family = 0, sa_data = (\<lambda>_. 0)\<rparr>, 0), w\<lparr>w_mem := (w_mem w)(p := 65)\<rparr>)),
     sk_setsockopt = (\<lambda>fd l op p q w. (None, w)), sk_getsockopt = (\<lambda>fd l op p q w. (Inr 4, w)),
     sk_sendmsg = (\<lambda>fd a p q fl w. (Inr 0, w)), sk_recvmsg = (\<lambda>fd b p q fl w. (Inl EAGAIN, w))\<rparr>"

definition demo_socket_world :: "(int \<times> int set) world" where
  "demo_socket_world = \<lparr>w_host = (3, {0, 1, 2}), w_mem = store_words (\<lambda>_. 0) 64 [0x50000002, 0x0100007F, 0, 0, 128]\<rparr>"

lemma demo_laws: "descriptor_laws demo_sockets demo_opens"
proof -
  have "adds demo_opens (\<lambda>fd. {fd}) (sk_socket demo_sockets d t p)" for d t p
    by (auto simp: adds_def demo_sockets_def demo_opens_def demo_open_def)
  moreover have "adds demo_opens (\<lambda>(a, b). {a, b}) (sk_pair demo_sockets d t p)" for d t p
    by (auto simp: adds_def demo_sockets_def demo_opens_def demo_open_def)
  moreover have "adds demo_opens (\<lambda>(n, _). {n}) (sk_accept demo_sockets fd b)" for fd b
    by (simp add: adds_def demo_sockets_def)
  moreover have "demo_opens (w_host (sk_close demo_sockets fd w)) = demo_opens (w_host w) - {fd}" for fd w
    by (auto simp: demo_sockets_def demo_opens_def)
  ultimately show ?thesis
    unfolding descriptor_laws_def by (simp add: keeps_def) (simp add: demo_sockets_def)
qed

theorem sockets_not_leaked_witness:
  "\<exists>w'. socket_call demo_sockets LINUX_NR_SOCKET (\<lambda>i. [2, 0x80801, 0] ! i) demo_socket_world = (Value 3, w') \<and>
     demo_opens (w_host w') = {0, 1, 2, 3}"
proof -
  let ?a = "(\<lambda>i. [2, 0x80801, 0] ! i) :: arguments"
  obtain r w' where run: "socket_call demo_sockets LINUX_NR_SOCKET ?a demo_socket_world = (r, w')"
    by (cases "socket_call demo_sockets LINUX_NR_SOCKET ?a demo_socket_world")
  have r: "r = Value 3"
    using run by (simp add: socket_call_def make_socket_def host_domain_def socket_type_def Let_def flag_if_def
      configure_socket_def configure_descriptor_def demo_sockets_def demo_socket_world_def split: prod.splits)
  have "demo_opens (w_host w') = insert 3 (demo_opens (w_host demo_socket_world))"
    using sockets_not_leaked [OF demo_laws run] r by simp
  also have "\<dots> = {0, 1, 2, 3}" by (auto simp: demo_opens_def demo_socket_world_def)
  finally show ?thesis using run r by blast
qed

theorem socket_address_roundtrip_witness:
  "\<exists>a m. guest_address demo_sockets (w_mem demo_socket_world) 64 16 = Inr (a, 16) \<and>
     store_address demo_sockets 256 80 a 16 (w_mem demo_socket_world) = Inr m \<and>
     load_bytes m 256 16 = load_bytes (w_mem demo_socket_world) 64 16"
proof -
  let ?m = "w_mem demo_socket_world"
  have l: "load16 ?m 64 = 2" "load32 ?m 80 = 128"
    by (code_simp, code_simp)
  obtain a where a: "guest_address demo_sockets ?m 64 16 = Inr (a, 16)"
    using l by (simp add: guest_address_def host_domain_def)
  have ok: "families_ok demo_sockets"
    by (auto simp: families_ok_def demo_sockets_def inj_def split: family.splits)
  show ?thesis
    using socket_address_roundtrip [OF ok a, of 256 80 ?m] a l by (auto simp: apart_def)
qed


end
