(* ===== verification/Guest_Path.thy ===== *)
theory Guest_Path
  imports Host
begin

text \<open>
  \<open>src/src/guest_path.c\<close>: guest paths are normalised, checked component by component for
  symbolic links and prefixed with the host directory that is the guest's root. Strings are
  lists of characters without the terminating NUL; a null \<open>path\<close> is treated like an empty
  one, as the source does in every function that takes one. The limit \<open>PATH_MAX\<close> comes
  from the host's \<open>limits.h\<close> and is the parameter \<open>pm\<close>; the calls on the host's file
  system are parameters too.
\<close>

section \<open>State and host calls\<close>

record guest_paths =
  root_path :: string
  guest_cwd :: string

datatype file_kind = Regular | Directory | Symlink | OtherKind

record 'h host_fs =
  fs_lstat :: "string \<Rightarrow> 'h world \<Rightarrow> (host_errno + file_kind) \<times> 'h world"
  fs_stat :: "string \<Rightarrow> 'h world \<Rightarrow> (host_errno + file_kind) \<times> 'h world"
  fs_readlink :: "string \<Rightarrow> nat \<Rightarrow> 'h world \<Rightarrow> (host_errno + string) \<times> 'h world"
  fs_realpath :: "string \<Rightarrow> 'h world \<Rightarrow> (host_errno + string) \<times> 'h world"

abbreviation slash :: char where "slash \<equiv> CHR ''/''"

section \<open>Normalisation\<close>

text \<open>The components of a path: the maximal pieces between slashes.\<close>

function path_words :: "string \<Rightarrow> string list" where
  "path_words [] = []"
| "path_words (c # cs) =
     (if c = slash then path_words cs
      else (c # takeWhile (\<lambda>x. x \<noteq> slash) cs) # path_words (dropWhile (\<lambda>x. x \<noteq> slash) cs))"
  by pat_completeness auto
termination
  by (relation "measure length") (auto simp: le_imp_less_Suc length_dropWhile_le)

text \<open>
  The array \<open>components\<close> has \<open>limit\<close> entries. The source does not test the index before
  it stores a component; \<open>None\<close> is the store past the end.
\<close>

fun push_components :: "nat \<Rightarrow> string list \<Rightarrow> string list \<Rightarrow> string list option" where
  "push_components limit stack [] = Some stack"
| "push_components limit stack (w # ws) =
     (if w = ''.'' then push_components limit stack ws
      else if w = ''..'' then push_components limit (butlast stack) ws
      else if length stack \<ge> limit then None
      else push_components limit (stack @ [w]) ws)"

fun emit_components :: "nat \<Rightarrow> string \<Rightarrow> string list \<Rightarrow> string outcome" where
  "emit_components sz out [] = Done out"
| "emit_components sz out (w # ws) =
     (if length out + length w + (if ws \<noteq> [] then 1 else 0) \<ge> sz then Fail ENAMETOOLONG
      else emit_components sz (out @ w @ (if ws \<noteq> [] then ''/'' else '''')) ws)"

definition normalize_guest_path :: "nat \<Rightarrow> string \<Rightarrow> string \<Rightarrow> nat \<Rightarrow> string outcome" where
  "normalize_guest_path pm cwd path sz =
     (if path = [] then Fail ENOENT
      else let combined = (if hd path = slash then path else cwd @ ''/'' @ path) in
        if length combined \<ge> pm * 2 then Fail ENAMETOOLONG
        else case push_components (pm div 2) [] (path_words combined) of
          None \<Rightarrow> Fault
        | Some components \<Rightarrow>
            if sz < 2 then Fail ERANGE else emit_components sz ''/'' components)"

section \<open>Resolution\<close>

text \<open>\<open>Done None\<close> is the result 0: not a device.\<close>

definition resolve_guest_device :: "string \<Rightarrow> nat \<Rightarrow> string option outcome" where
  "resolve_guest_device guest_path host_path_size =
     (if guest_path \<noteq> ''/dev/null'' then Done None
      else if length ''/dev/null'' + 1 > host_path_size then Fail ENAMETOOLONG
      else Done (Some ''/dev/null''))"

definition finish_resolved :: "nat \<Rightarrow> string \<Rightarrow> string outcome" where
  "finish_resolved resolved_size current =
     (if length current + 1 > resolved_size then Fail ENAMETOOLONG else Done current)"

text \<open>
  The loop of \<open>resolve_guest_symlinks\<close>: \<open>cursor\<close> is the part of \<open>current\<close> still to be
  looked at, \<open>parent\<close> the part already found free of links.
\<close>

definition link_target_path :: "string \<Rightarrow> string \<Rightarrow> bool \<Rightarrow> string \<Rightarrow> string" where
  "link_target_path parent target is_last rest =
     (let tail = (if is_last then '''' else ''/'' @ rest) in
      if target \<noteq> [] \<and> hd target = slash then target @ tail
      else (if parent = [] then ''/'' else parent) @ ''/'' @ target @ tail)"

function resolve_walk ::
  "'h host_fs \<Rightarrow> nat \<Rightarrow> guest_paths \<Rightarrow> bool \<Rightarrow> nat \<Rightarrow> nat \<Rightarrow> string \<Rightarrow> string \<Rightarrow> string \<Rightarrow> 'h world \<Rightarrow>
    string outcome \<times> 'h world" where
  "resolve_walk F pm gp allow resolved_size link_count current parent cursor w =
     (if cursor = [] then (finish_resolved resolved_size current, w)
      else
        let component = takeWhile (\<lambda>x. x \<noteq> slash) cursor;
            is_last = (length component = length cursor);
            rest = drop (Suc (length component)) cursor;
            host_candidate = root_path gp @ parent @ ''/'' @ component
        in if length component + 1 > pm then (Fail ENAMETOOLONG, w)
           else if length host_candidate \<ge> pm then (Fail ENAMETOOLONG, w)
           else case fs_lstat F host_candidate w of
             (Inl e, w) \<Rightarrow>
               if allow \<and> is_last \<and> e = ENOENT then (finish_resolved resolved_size current, w)
               else (Fail e, w)
           | (Inr kind, w) \<Rightarrow>
               if kind = Symlink then
                 (case fs_readlink F host_candidate (pm - 1) w of
                    (Inl e, w) \<Rightarrow> (Fail e, w)
                  | (Inr target, w) \<Rightarrow>
                      if Suc link_count > 40 then (Fail ELOOP, w)
                      else let combined = link_target_path parent target is_last rest in
                        if length combined \<ge> pm * 2 then (FailStale, w)
                        else (case normalize_guest_path pm (guest_cwd gp) combined pm of
                            Done current' \<Rightarrow>
                              resolve_walk F pm gp allow resolved_size (Suc link_count)
                                current' [] (tl current') w
                          | Fail e \<Rightarrow> (Fail e, w) | FailStale \<Rightarrow> (FailStale, w)
                          | Fault \<Rightarrow> (Fault, w) | Hang \<Rightarrow> (Hang, w)))
               else if Suc (length component) \<ge> pm - length parent then (Fail ENAMETOOLONG, w)
               else if is_last then (finish_resolved resolved_size current, w)
               else resolve_walk F pm gp allow resolved_size link_count current
                      (parent @ ''/'' @ component) rest w)"
  by pat_completeness auto
termination
proof (relation "measures [\<lambda>(F, pm, gp, allow, sz, link_count, current, parent, cursor, w). 41 - link_count,
    \<lambda>(F, pm, gp, allow, sz, link_count, current, parent, cursor, w). length cursor]")
qed auto

declare resolve_walk.simps [simp del]

definition resolve_guest_symlinks ::
  "'h host_fs \<Rightarrow> nat \<Rightarrow> guest_paths \<Rightarrow> string \<Rightarrow> bool \<Rightarrow> nat \<Rightarrow> 'h world \<Rightarrow> string outcome \<times> 'h world" where
  "resolve_guest_symlinks F pm gp normalized allow resolved_size w =
     (if length normalized + 1 > pm then (Fail ENAMETOOLONG, w)
      else resolve_walk F pm gp allow resolved_size 0 normalized [] (tl normalized) w)"

definition guest_path_initialize ::
  "'h host_fs \<Rightarrow> string \<Rightarrow> guest_paths \<Rightarrow> 'h world \<Rightarrow> unit outcome \<times> guest_paths \<times> 'h world" where
  "guest_path_initialize F root gp w =
     (if root = [] then (Fail ENOENT, gp, w)
      else case fs_realpath F root w of
        (Inl e, w) \<Rightarrow> (Fail e, gp, w)
      | (Inr p, w) \<Rightarrow> (Done (), gp\<lparr>root_path := p\<rparr>, w))"

definition host_path_of :: "nat \<Rightarrow> guest_paths \<Rightarrow> string \<Rightarrow> nat \<Rightarrow> string outcome" where
  "host_path_of pm gp resolved host_path_size =
     (let candidate = root_path gp @ resolved in
      if length candidate \<ge> pm then Fail ENAMETOOLONG
      else if length candidate + 1 > host_path_size then Fail ENAMETOOLONG
      else Done candidate)"

definition guest_path_resolve ::
  "'h host_fs \<Rightarrow> nat \<Rightarrow> guest_paths \<Rightarrow> string \<Rightarrow> bool \<Rightarrow> nat \<Rightarrow> 'h world \<Rightarrow> string outcome \<times> 'h world" where
  "guest_path_resolve F pm gp path allow host_path_size w =
     (if root_path gp = [] then (FailStale, w)
      else case normalize_guest_path pm (guest_cwd gp) path pm of
        Done guest_path \<Rightarrow>
          (case resolve_guest_device guest_path host_path_size of
             Done (Some device) \<Rightarrow> (Done device, w)
           | Done None \<Rightarrow>
               (case resolve_guest_symlinks F pm gp guest_path allow pm w of
                  (Done resolved, w) \<Rightarrow> (host_path_of pm gp resolved host_path_size, w)
                | r \<Rightarrow> r)
           | Fail e \<Rightarrow> (Fail e, w) | FailStale \<Rightarrow> (FailStale, w)
           | Fault \<Rightarrow> (Fault, w) | Hang \<Rightarrow> (Hang, w))
      | r \<Rightarrow> (r, w))"

text \<open>\<open>strrchr\<close> on a normalised path: the part before the last slash, and the part after it.\<close>

definition split_leaf :: "string \<Rightarrow> string \<times> string" where
  "split_leaf p =
     (let leaf = rev (takeWhile (\<lambda>x. x \<noteq> slash) (rev p)) in
      (take (length p - length leaf - 1) p, leaf))"

definition guest_path_resolve_nofollow ::
  "'h host_fs \<Rightarrow> nat \<Rightarrow> guest_paths \<Rightarrow> string \<Rightarrow> nat \<Rightarrow> 'h world \<Rightarrow> string outcome \<times> 'h world" where
  "guest_path_resolve_nofollow F pm gp path host_path_size w =
     (if root_path gp = [] then (FailStale, w)
      else case normalize_guest_path pm (guest_cwd gp) path pm of
        Done guest_path \<Rightarrow>
          (case resolve_guest_device guest_path host_path_size of
             Done (Some device) \<Rightarrow> (Done device, w)
           | Done None \<Rightarrow>
               if guest_path = ''/'' then
                 (if length (root_path gp) + 1 > host_path_size then (Fail ENAMETOOLONG, w)
                  else (Done (root_path gp), w))
               else let (before, leaf) = split_leaf guest_path;
                        parent = (if before = [] then ''/'' else before)
                 in (case resolve_guest_symlinks F pm gp parent False pm w of
                       (Done resolved_parent, w) \<Rightarrow>
                         let host_path = root_path gp @ resolved_parent @
                               (if resolved_parent = ''/'' then '''' else ''/'') @ leaf
                         in if length host_path \<ge> host_path_size then (Fail ENAMETOOLONG, w)
                            else (Done host_path, w)
                     | r \<Rightarrow> r)
           | Fail e \<Rightarrow> (Fail e, w) | FailStale \<Rightarrow> (FailStale, w)
           | Fault \<Rightarrow> (Fault, w) | Hang \<Rightarrow> (Hang, w))
      | r \<Rightarrow> (r, w))"

text \<open>The guest's name of a host path below the root; \<open>None\<close> for a path that is not.\<close>

definition below_root :: "guest_paths \<Rightarrow> string \<Rightarrow> string option" where
  "below_root gp host_path =
     (let n = length (root_path gp) in
      if take n host_path \<noteq> root_path gp \<or> (length host_path > n \<and> host_path ! n \<noteq> slash) then None
      else Some (if length host_path = n then ''/'' else drop n host_path))"

definition guest_path_resolve_at ::
  "'h host_fs \<Rightarrow> nat \<Rightarrow> guest_paths \<Rightarrow> string option \<Rightarrow> string \<Rightarrow> bool \<Rightarrow> bool \<Rightarrow> nat \<Rightarrow> 'h world \<Rightarrow>
    string outcome \<times> 'h world" where
  "guest_path_resolve_at F pm gp host_directory path allow nofollow host_path_size w =
     (let resolve = (\<lambda>p. if nofollow then guest_path_resolve_nofollow F pm gp p host_path_size w
                         else guest_path_resolve F pm gp p allow host_path_size w)
      in if path = [] then (Fail ENOENT, w)
         else if hd path = slash then resolve path
         else case host_directory of
           None \<Rightarrow> (Fail EBADF, w)
         | Some directory \<Rightarrow>
             if root_path gp = [] then (Fail EBADF, w)
             else case below_root gp directory of
               None \<Rightarrow> (Fail EACCES, w)
             | Some guest_directory \<Rightarrow>
                 let combined = guest_directory @ ''/'' @ path in
                 if length combined \<ge> pm * 2 then (Fail ENAMETOOLONG, w) else resolve combined)"

section \<open>The working directory\<close>

text \<open>The value counts the terminating NUL that is copied too.\<close>

definition guest_path_getcwd :: "guest_paths \<Rightarrow> nat \<Rightarrow> (nat \<times> string) outcome" where
  "guest_path_getcwd gp sz =
     (let len = length (guest_cwd gp) + 1 in
      if len > sz then Fail ERANGE else Done (len, guest_cwd gp))"

definition guest_path_readlink ::
  "'h host_fs \<Rightarrow> nat \<Rightarrow> guest_paths \<Rightarrow> string \<Rightarrow> nat \<Rightarrow> 'h world \<Rightarrow> string outcome \<times> 'h world" where
  "guest_path_readlink F pm gp path sz w =
     (case guest_path_resolve_nofollow F pm gp path pm w of
        (Done candidate, w) \<Rightarrow>
          (case fs_readlink F candidate sz w of (Inl e, w) \<Rightarrow> (Fail e, w) | (Inr t, w) \<Rightarrow> (Done t, w))
      | r \<Rightarrow> r)"

definition guest_path_chdir ::
  "'h host_fs \<Rightarrow> nat \<Rightarrow> guest_paths \<Rightarrow> string \<Rightarrow> 'h world \<Rightarrow> unit outcome \<times> guest_paths \<times> 'h world" where
  "guest_path_chdir F pm gp path w =
     (case normalize_guest_path pm (guest_cwd gp) path pm of
        Done normalized \<Rightarrow>
          (case resolve_guest_symlinks F pm gp normalized False pm w of
             (Done resolved, w) \<Rightarrow>
               let host_path = root_path gp @ resolved in
               if length host_path \<ge> pm then (Fail ENAMETOOLONG, gp, w)
               else (case fs_stat F host_path w of
                   (Inl e, w) \<Rightarrow> (Fail e, gp, w)
                 | (Inr kind, w) \<Rightarrow>
                     if kind \<noteq> Directory then (Fail ENOTDIR, gp, w)
                     else (Done (), gp\<lparr>guest_cwd := resolved\<rparr>, w))
           | (Fail e, w) \<Rightarrow> (Fail e, gp, w) | (FailStale, w) \<Rightarrow> (FailStale, gp, w)
           | (Fault, w) \<Rightarrow> (Fault, gp, w) | (Hang, w) \<Rightarrow> (Hang, gp, w))
      | Fail e \<Rightarrow> (Fail e, gp, w) | FailStale \<Rightarrow> (FailStale, gp, w)
      | Fault \<Rightarrow> (Fault, gp, w) | Hang \<Rightarrow> (Hang, gp, w))"

definition guest_path_fchdir ::
  "'h host_fs \<Rightarrow> nat \<Rightarrow> guest_paths \<Rightarrow> string option \<Rightarrow> 'h world \<Rightarrow> unit outcome \<times> guest_paths \<times> 'h world" where
  "guest_path_fchdir F pm gp host_path w =
     (case host_path of
        None \<Rightarrow> (Fail EBADF, gp, w)
      | Some p \<Rightarrow>
          if root_path gp = [] then (Fail EBADF, gp, w)
          else case below_root gp p of
            None \<Rightarrow> (Fail EACCES, gp, w)
          | Some d \<Rightarrow> guest_path_chdir F pm gp d w)"

section \<open>Canonical paths\<close>

text \<open>
  A canonical path is a slash followed by components that are neither empty nor \<open>.\<close> nor
  \<open>..\<close> and contain no slash, separated by single slashes.
\<close>

definition plain :: "string \<Rightarrow> bool" where
  "plain w \<longleftrightarrow> w \<noteq> [] \<and> slash \<notin> set w \<and> w \<noteq> ''.'' \<and> w \<noteq> ''..''"

definition joined :: "string list \<Rightarrow> string" where
  "joined ws = concat (map (\<lambda>w. ''/'' @ w) ws)"

definition path_of :: "string list \<Rightarrow> string" where
  "path_of ws = (if ws = [] then ''/'' else joined ws)"

definition canonical :: "string \<Rightarrow> bool" where
  "canonical p \<longleftrightarrow> (\<exists>ws. (\<forall>w\<in>set ws. plain w) \<and> p = path_of ws)"

named_theorems path_simps \<open>joining and splitting of components\<close>

lemma joined_simps [path_simps]:
  "joined [] = []" "joined (w # ws) = ''/'' @ w @ joined ws" "joined (us @ vs) = joined us @ joined vs"
  by (simp_all add: joined_def)

lemma path_of_joined: "ws \<noteq> [] \<Longrightarrow> path_of ws = joined ws"
  by (simp add: path_of_def)

lemma path_of_nonempty [simp]: "path_of ws \<noteq> []" "hd (path_of ws) = slash"
  by (cases ws; simp add: path_of_def joined_def)+

lemma tl_path_of [path_simps]: "tl (path_of []) = []" "tl (path_of (w # ws)) = w @ joined ws"
  by (simp_all add: path_of_def joined_def)

lemma path_words_facts: "w \<in> set (path_words p) \<Longrightarrow> w \<noteq> [] \<and> slash \<notin> set w"
  by (induction p rule: path_words.induct) (auto split: if_splits dest: set_takeWhileD)

lemma takeWhile_component:
  "slash \<notin> set w \<Longrightarrow> takeWhile (\<lambda>x. x \<noteq> slash) (w @ joined ws) = w"
  by (cases ws) (auto simp: joined_def takeWhile_append takeWhile_eq_all_conv)

lemma dropWhile_component:
  "slash \<notin> set w \<Longrightarrow> dropWhile (\<lambda>x. x \<noteq> slash) (w @ joined ws) = joined ws"
  by (cases ws) (auto simp: joined_def dropWhile_append dropWhile_eq_Nil_conv)

lemma path_words_joined: "\<forall>w\<in>set ws. plain w \<Longrightarrow> path_words (joined ws) = ws"
proof (induction ws)
  case (Cons w ws)
  then obtain c cs where w: "w = c # cs" "c \<noteq> slash" "slash \<notin> set cs" by (cases w) (auto simp: plain_def)
  then show ?case
    using Cons takeWhile_component [of cs ws] dropWhile_component [of cs ws]
    by (simp add: joined_simps)
qed (simp add: joined_def)

lemma path_words_path_of: "\<forall>w\<in>set ws. plain w \<Longrightarrow> path_words (path_of ws) = ws"
  by (cases "ws = []") (simp_all add: path_of_def path_words_joined)

lemma push_components_plain:
  "push_components limit stack ws = Some out \<Longrightarrow> \<forall>w\<in>set stack. plain w \<Longrightarrow>
    \<forall>w\<in>set ws. w \<noteq> [] \<and> slash \<notin> set w \<Longrightarrow> \<forall>w\<in>set out. plain w"
proof (induction limit stack ws rule: push_components.induct)
  case (2 limit stack w ws)
  have below: "\<forall>v\<in>set (butlast stack). plain v" using "2.prems"(2) by (auto dest: in_set_butlastD)
  have rest: "\<forall>v\<in>set ws. v \<noteq> [] \<and> slash \<notin> set v" and w: "w \<noteq> []" "slash \<notin> set w"
    using "2.prems"(3) by simp_all
  show ?case
  proof (cases "w = ''.''")
    case True
    then have "push_components limit stack ws = Some out" using "2.prems"(1) by simp
    from "2.IH"(1) [OF True this "2.prems"(2) rest] show ?thesis .
  next
    case dot: False
    show ?thesis
    proof (cases "w = ''..''")
      case True
      then have "push_components limit (butlast stack) ws = Some out" using "2.prems"(1) by simp
      from "2.IH"(2) [OF dot True this below rest] show ?thesis .
    next
      case False
      then have room: "\<not> limit \<le> length stack" and push: "push_components limit (stack @ [w]) ws = Some out"
        using "2.prems"(1) dot by (auto split: if_splits)
      have "\<forall>v\<in>set (stack @ [w]). plain v" using "2.prems"(2) w dot False by (simp add: plain_def)
      from "2.IH"(3) [OF dot False room push this rest] show ?thesis .
    qed
  qed
qed simp

lemma plain_not_dots: "plain w \<Longrightarrow> w \<noteq> ''.''" "plain w \<Longrightarrow> w \<noteq> ''..''"
  unfolding plain_def by blast+

lemma push_components_all:
  "\<forall>w\<in>set ws. plain w \<Longrightarrow> length stack + length ws \<le> limit \<Longrightarrow>
    push_components limit stack ws = Some (stack @ ws)"
  by (induction limit stack ws rule: push_components.induct) (simp_all add: plain_not_dots)

lemma joined_length: "\<forall>w\<in>set ws. plain w \<Longrightarrow> 2 * length ws \<le> length (joined ws)"
proof (induction ws)
  case (Cons w ws)
  then have "length w \<ge> 1" by (cases w) (auto simp: plain_def)
  then show ?case using Cons by (simp add: joined_simps)
qed (simp add: joined_def)

text \<open>The output loop writes the components with slashes between them, if they fit.\<close>

fun spaced :: "string list \<Rightarrow> string" where
  "spaced [] = []"
| "spaced (w # ws) = w @ joined ws"

lemma spaced_step: "w @ (if ws \<noteq> [] then ''/'' else '''') @ spaced ws = spaced (w # ws)"
  by (cases ws) (simp_all add: joined_simps)

lemma emit_components_iff:
  "emit_components sz out ws =
    (if ws = [] \<or> length out + length (spaced ws) < sz then Done (out @ spaced ws) else Fail ENAMETOOLONG)"
proof (induction sz out ws rule: emit_components.induct)
  case (2 sz out w ws)
  show ?case
  proof (cases "ws = []")
    case True
    then show ?thesis by (simp add: joined_simps)
  next
    case False
    then have len: "length (spaced (w # ws)) = length w + 1 + length (spaced ws)"
      by (cases ws) (simp_all add: joined_simps)
    show ?thesis
    proof (cases "length out + length w + 1 \<ge> sz")
      case True
      then show ?thesis using False len by simp
    next
      case fits: False
      have "out @ w @ ''/'' @ spaced ws = out @ spaced (w # ws)" using spaced_step [of w ws] False by simp
      then show ?thesis using "2.IH" fits False len by simp
    qed
  qed
qed simp

lemma path_of_spaced: "''/'' @ spaced ws = path_of ws"
  by (cases ws) (simp_all add: path_of_def joined_simps joined_def)

lemma emit_path_of:
  "2 \<le> sz \<Longrightarrow> emit_components sz ''/'' ws =
    (if length (path_of ws) < sz then Done (path_of ws) else Fail ENAMETOOLONG)"
  using path_of_spaced [of ws, symmetric] by (simp add: emit_components_iff)

lemma normalize_done:
  assumes "normalize_guest_path pm cwd path sz = Done out"
  obtains ws where "\<forall>w\<in>set ws. plain w" "out = path_of ws" "length out < sz"
proof -
  let ?combined = "if hd path = slash then path else cwd @ ''/'' @ path"
  from assms obtain ws where ws: "push_components (pm div 2) [] (path_words ?combined) = Some ws"
    and sz: "2 \<le> sz" and out: "emit_components sz ''/'' ws = Done out"
    by (auto simp: normalize_guest_path_def Let_def split: if_splits option.splits)
  have "\<forall>w\<in>set ws. plain w"
    using push_components_plain [OF ws] path_words_facts by auto
  moreover have "out = path_of ws" "length out < sz" using out sz by (auto simp: emit_path_of split: if_splits)
  ultimately show thesis using that by blast
qed

lemma normalize_canonical:
  assumes "\<forall>w\<in>set ws. plain w" and "length (path_of ws) < pm" and "2 \<le> pm"
  shows "normalize_guest_path pm cwd (path_of ws) pm = Done (path_of ws)"
proof -
  have "2 * length ws \<le> length (path_of ws)"
    using joined_length [OF assms(1)] by (cases "ws = []") (simp_all add: path_of_def)
  then have "length ws \<le> pm div 2" using assms(2) by simp
  then have "push_components (pm div 2) [] (path_words (path_of ws)) = Some ws"
    using push_components_all [OF assms(1), of "[]"] by (simp add: path_words_path_of [OF assms(1)])
  then show ?thesis
    using assms(2,3) by (simp add: normalize_guest_path_def Let_def emit_path_of)
qed

section \<open>Resolution stays below the root\<close>

text \<open>
  A file system that looking at it does not change: \<open>L\<close> and \<open>R\<close> are its answers. A
  list of components is free of links when no prefix of it names a symbolic link, except
  that the whole may be missing when the caller allows it.
\<close>

definition static_fs ::
  "'h host_fs \<Rightarrow> 'h world \<Rightarrow> (string \<Rightarrow> host_errno + file_kind) \<Rightarrow> (string \<Rightarrow> nat \<Rightarrow> host_errno + string) \<Rightarrow> bool" where
  "static_fs F w L R \<longleftrightarrow>
     (\<forall>p. fs_lstat F p w = (L p, w)) \<and> (\<forall>p n. fs_readlink F p n w = (R p n, w))"

definition no_link :: "(string \<Rightarrow> host_errno + file_kind) \<Rightarrow> string \<Rightarrow> bool" where
  "no_link L p \<longleftrightarrow> (\<exists>k. L p = Inr k \<and> k \<noteq> Symlink)"

definition link_free :: "(string \<Rightarrow> host_errno + file_kind) \<Rightarrow> string \<Rightarrow> bool \<Rightarrow> string list \<Rightarrow> bool" where
  "link_free L root allow ws \<longleftrightarrow>
     (\<forall>i. 0 < i \<and> i \<le> length ws \<longrightarrow>
        no_link L (root @ joined (take i ws)) \<or>
        (allow \<and> i = length ws \<and> L (root @ joined (take i ws)) = Inl ENOENT))"

lemma tl_path_spaced: "tl (path_of ws) = spaced ws"
  by (cases ws) (simp_all add: path_simps)

lemma drop_spaced: "drop (Suc (length c)) (spaced (c # post)) = spaced post"
  by (cases post) (simp_all add: joined_simps)

lemma spaced_component: "plain c \<Longrightarrow> takeWhile (\<lambda>x. x \<noteq> slash) (spaced (c # post)) = c"
  using takeWhile_component [of c post] by (simp add: plain_def)

lemma length_spaced_last: "length c = length (spaced (c # post)) \<longleftrightarrow> post = []"
  by (cases post) (simp_all add: joined_simps)

lemma spaced_ne: "plain c \<Longrightarrow> spaced (c # post) \<noteq> []"
  by (simp add: plain_def)

text \<open>One round of the loop on a fixed file system.\<close>

lemma walk_step:
  fixes gp :: guest_paths and parent :: string
  assumes fs: "static_fs F w L R" and c: "plain c"
  defines "cand \<equiv> root_path gp @ parent @ ''/'' @ c"
  shows "resolve_walk F pm gp allow sz lc current parent (spaced (c # post)) w =
    (if length c + 1 > pm \<or> length cand \<ge> pm then (Fail ENAMETOOLONG, w)
     else case L cand of
       Inl e \<Rightarrow> (if allow \<and> post = [] \<and> e = ENOENT then finish_resolved sz current else Fail e, w)
     | Inr kind \<Rightarrow>
         if kind = Symlink then
           (case R cand (pm - 1) of Inl e \<Rightarrow> (Fail e, w)
            | Inr target \<Rightarrow>
                if Suc lc > 40 then (Fail ELOOP, w)
                else let combined = link_target_path parent target (post = []) (spaced post) in
                  if length combined \<ge> pm * 2 then (FailStale, w)
                  else (case normalize_guest_path pm (guest_cwd gp) combined pm of
                      Done current' \<Rightarrow> resolve_walk F pm gp allow sz (Suc lc) current' [] (tl current') w
                    | Fail e \<Rightarrow> (Fail e, w) | FailStale \<Rightarrow> (FailStale, w)
                    | Fault \<Rightarrow> (Fault, w) | Hang \<Rightarrow> (Hang, w)))
         else if Suc (length c) \<ge> pm - length parent then (Fail ENAMETOOLONG, w)
         else if post = [] then (finish_resolved sz current, w)
         else resolve_walk F pm gp allow sz lc current (parent @ ''/'' @ c) (spaced post) w)"
proof -
  have l: "fs_lstat F p w = (L p, w)" and r: "fs_readlink F p n w = (R p n, w)" for p n
    using fs by (simp_all add: static_fs_def)
  show ?thesis
    unfolding cand_def
    by (subst resolve_walk.simps)
      (simp add: Let_def spaced_component [OF c] spaced_ne [OF c] length_spaced_last drop_spaced l r
        del: spaced.simps split: sum.split)
qed

lemma finish_done: "finish_resolved sz current = Done r \<longleftrightarrow> r = current \<and> length current < sz"
  by (auto simp: finish_resolved_def)

lemma walk_contained:
  assumes fs: "static_fs F w L R"
  shows "\<forall>v\<in>set (pre @ post). plain v \<Longrightarrow>
    \<forall>i. 0 < i \<and> i \<le> length pre \<longrightarrow> no_link L (root_path gp @ joined (take i pre)) \<Longrightarrow>
    resolve_walk F pm gp allow sz lc (path_of (pre @ post)) (joined pre) (spaced post) w = (Done res, w') \<Longrightarrow>
    \<exists>ws. (\<forall>v\<in>set ws. plain v) \<and> res = path_of ws \<and> length res < sz \<and> link_free L (root_path gp) allow ws"
proof (induction "41 - lc" arbitrary: lc pre post rule: less_induct)
  case less
  note outer = less.hyps
  from less.prems show ?case
  proof (induction post arbitrary: pre)
    case Nil
    then have "finish_resolved sz (path_of pre) = Done res" by (subst (asm) resolve_walk.simps) simp
    then show ?case using Nil.prems(1,2) by (auto simp: finish_done link_free_def)
  next
    case (Cons c post)
    let ?cand = "root_path gp @ joined pre @ ''/'' @ c"
    have c: "plain c" using Cons.prems(1) by simp
    have cand: "?cand = root_path gp @ joined (pre @ [c])" by (simp add: joined_simps)
    note step = walk_step [OF fs c, of pm gp allow sz lc "path_of (pre @ c # post)" "joined pre" post]
    have room: "\<not> (length c + 1 > pm \<or> length ?cand \<ge> pm)"
      using Cons.prems(3) unfolding step by (auto split: if_splits)
    consider (missing) "L ?cand = Inl ENOENT" "allow" "post = []" "finish_resolved sz (path_of (pre @ c # post)) = Done res"
      | (link) target current' where "L ?cand = Inr Symlink" "Suc lc \<le> 40"
          "normalize_guest_path pm (guest_cwd gp) (link_target_path (joined pre) target (post = []) (spaced post)) pm = Done current'"
          "resolve_walk F pm gp allow sz (Suc lc) current' [] (tl current') w = (Done res, w')"
      | (last) "no_link L ?cand" "post = []" "finish_resolved sz (path_of (pre @ c # post)) = Done res"
      | (more) "no_link L ?cand" "resolve_walk F pm gp allow sz lc (path_of (pre @ c # post))
          (joined pre @ ''/'' @ c) (spaced post) w = (Done res, w')"
      using Cons.prems(3) room unfolding step
      by (auto simp: Let_def no_link_def split: if_splits sum.splits outcome.splits)
    then show ?case
    proof cases
      case missing
      have "link_free L (root_path gp) allow (pre @ [c])"
        using Cons.prems(2) missing(1,2) unfolding cand by (auto simp: link_free_def le_Suc_eq)
      then show ?thesis using missing(3,4) Cons.prems(1) by (auto simp: finish_done intro!: exI [of _ "pre @ [c]"])
    next
      case link
      obtain ws where ws: "\<forall>v\<in>set ws. plain v" "current' = path_of ws" using normalize_done [OF link(3)] by blast
      have "41 - Suc lc < 41 - lc" using link(2) by simp
      from outer [OF this, of "[]" ws] show ?thesis using ws link(4) by (simp add: tl_path_spaced joined_simps)
    next
      case last
      have "link_free L (root_path gp) allow (pre @ [c])"
        using Cons.prems(2) last(1) unfolding cand by (auto simp: link_free_def le_Suc_eq)
      then show ?thesis using last(2,3) Cons.prems(1) by (auto simp: finish_done intro!: exI [of _ "pre @ [c]"])
    next
      case more
      have "\<forall>i. 0 < i \<and> i \<le> length (pre @ [c]) \<longrightarrow> no_link L (root_path gp @ joined (take i (pre @ [c])))"
        using Cons.prems(2) more(1) unfolding cand by (auto simp: le_Suc_eq)
      then show ?thesis
        using Cons.IH [of "pre @ [c]"] Cons.prems(1) more(2) by (simp add: joined_simps)
    qed
  qed
qed

lemma symlinks_contained:
  assumes fs: "static_fs F w L R" and ws: "\<forall>v\<in>set ws. plain v"
    and run: "resolve_guest_symlinks F pm gp (path_of ws) allow sz w = (Done res, w')"
  shows "\<exists>us. (\<forall>v\<in>set us. plain v) \<and> res = path_of us \<and> length res < sz \<and> link_free L (root_path gp) allow us"
proof -
  have "resolve_walk F pm gp allow sz 0 (path_of ([] @ ws)) (joined []) (spaced ws) w = (Done res, w')"
    using run by (simp add: resolve_guest_symlinks_def joined_simps tl_path_spaced split: if_splits)
  then show ?thesis using walk_contained [OF fs, of "[]" ws] ws by simp
qed

text \<open>Resolution only looks: it leaves the world as it was.\<close>

lemma walk_world:
  "static_fs F w L R \<Longrightarrow> snd (resolve_walk F pm gp allow sz lc current parent cursor w) = w"
proof (induction F pm gp allow sz lc current parent cursor w rule: resolve_walk.induct)
  case (1 F pm gp allow sz lc current parent cursor w)
  have l: "fs_lstat F p w = (L p, w)" and r: "fs_readlink F p n w = (R p n, w)" for p n
    using 1(3) by (simp_all add: static_fs_def)
  show ?case
    by (subst resolve_walk.simps)
      (use 1 in \<open>auto simp: Let_def l r split: sum.split outcome.split\<close>)
qed

lemma symlinks_world: "static_fs F w L R \<Longrightarrow> snd (resolve_guest_symlinks F pm gp path allow sz w) = w"
  by (auto simp: resolve_guest_symlinks_def intro: walk_world)

lemma resolve_world:
  assumes "static_fs F w L R"
  shows "snd (guest_path_resolve F pm gp path allow sz w) = w"
    "snd (guest_path_resolve_nofollow F pm gp path sz w) = w"
    "snd (guest_path_resolve_at F pm gp directory path allow nofollow sz w) = w"
proof -
  have s: "resolve_guest_symlinks F pm gp p b n w = (fst (resolve_guest_symlinks F pm gp p b n w), w)" for p b n
    using symlinks_world [OF assms, of pm gp p b n] by (metis prod.collapse)
  show f: "snd (guest_path_resolve F pm gp path allow sz w) = w" for path
    by (subst guest_path_resolve_def, subst s) (simp split: outcome.split option.split)
  show n: "snd (guest_path_resolve_nofollow F pm gp path sz w) = w" for path
    by (subst guest_path_resolve_nofollow_def, subst s) (simp add: Let_def split: outcome.split option.split prod.split)
  show "snd (guest_path_resolve_at F pm gp directory path allow nofollow sz w) = w"
    by (simp add: guest_path_resolve_at_def Let_def f n split: option.split)
qed

text \<open>
  The host paths the component may hand out: the null device, the root itself, or the root
  followed by plain components none of which is a link. With \<open>nofollow\<close> the last component
  is left to the caller.
\<close>

definition contained ::
  "(string \<Rightarrow> host_errno + file_kind) \<Rightarrow> string \<Rightarrow> bool \<Rightarrow> bool \<Rightarrow> string \<Rightarrow> bool" where
  "contained L root allow nofollow host \<longleftrightarrow>
     host = ''/dev/null'' \<or> host = root \<or>
     (\<exists>ws. (\<forall>v\<in>set ws. plain v) \<and> host = root @ path_of ws \<and>
        link_free L root (allow \<and> \<not> nofollow) (if nofollow then butlast ws else ws))"

lemma resolve_contained:
  assumes fs: "static_fs F w L R" and run: "guest_path_resolve F pm gp path allow sz w = (Done host, w')"
  shows "contained L (root_path gp) allow False host \<and> length host < sz"
proof -
  obtain g where norm: "normalize_guest_path pm (guest_cwd gp) path pm = Done g"
    using run by (auto simp: guest_path_resolve_def split: if_splits outcome.splits)
  obtain ws where ws: "\<forall>v\<in>set ws. plain v" "g = path_of ws" using normalize_done [OF norm] by blast
  obtain d where dev: "resolve_guest_device g sz = Done d"
    using run norm by (auto simp: guest_path_resolve_def split: if_splits outcome.splits)
  show ?thesis
  proof (cases d)
    case (Some p)
    then have "host = ''/dev/null''" "length host < sz"
      using run norm dev by (auto simp: guest_path_resolve_def resolve_guest_device_def split: if_splits)
    then show ?thesis by (simp add: contained_def)
  next
    case None
    obtain r w1 where sym: "resolve_guest_symlinks F pm gp g allow pm w = (r, w1)"
      by (cases "resolve_guest_symlinks F pm gp g allow pm w")
    then obtain res where r: "r = Done res" "host_path_of pm gp res sz = Done host"
      using run norm dev None by (cases r) (auto simp: guest_path_resolve_def split: if_splits)
    obtain us where "\<forall>v\<in>set us. plain v" "res = path_of us" "link_free L (root_path gp) allow us"
      using symlinks_contained [OF fs ws(1)] sym r(1) ws(2) by blast
    moreover have "host = root_path gp @ res" "length host < sz"
      using r(2) by (auto simp: host_path_of_def Let_def split: if_splits)
    ultimately show ?thesis by (auto simp: contained_def)
  qed
qed

lemma split_leaf_joined:
  assumes "plain leaf"
  shows "split_leaf (joined (ws @ [leaf])) = (joined ws, leaf)"
proof -
  have "takeWhile (\<lambda>x. x \<noteq> slash) (rev leaf @ slash # rev (joined ws)) = rev leaf"
    using assms by (subst takeWhile_append2) (auto simp: plain_def)
  then show ?thesis by (simp add: split_leaf_def joined_simps Let_def)
qed

lemma path_of_root_iff: "\<forall>v\<in>set ws. plain v \<Longrightarrow> path_of ws = ''/'' \<longleftrightarrow> ws = []"
  by (cases ws) (auto simp: path_of_def joined_simps plain_def)

lemma resolve_nofollow_contained:
  assumes fs: "static_fs F w L R" and run: "guest_path_resolve_nofollow F pm gp path sz w = (Done host, w')"
  shows "contained L (root_path gp) allow True host \<and> length host < sz"
proof -
  obtain g where norm: "normalize_guest_path pm (guest_cwd gp) path pm = Done g"
    using run by (auto simp: guest_path_resolve_nofollow_def split: if_splits outcome.splits)
  obtain ws where ws: "\<forall>v\<in>set ws. plain v" "g = path_of ws" using normalize_done [OF norm] by blast
  obtain d where dev: "resolve_guest_device g sz = Done d"
    using run norm by (auto simp: guest_path_resolve_nofollow_def split: if_splits outcome.splits)
  show ?thesis
  proof (cases d)
    case (Some p)
    then have "host = ''/dev/null''" "length host < sz"
      using run norm dev by (auto simp: guest_path_resolve_nofollow_def resolve_guest_device_def split: if_splits)
    then show ?thesis by (simp add: contained_def)
  next
    case None
    show ?thesis
    proof (cases ws rule: rev_cases)
      case Nil
      then have "host = root_path gp" "length host < sz"
        using run norm dev None ws(2) by (auto simp: guest_path_resolve_nofollow_def path_of_def split: if_splits)
      then show ?thesis by (simp add: contained_def)
    next
      case (snoc vs leaf)
      have leaf: "plain leaf" and vs: "\<forall>v\<in>set vs. plain v" using ws(1) snoc by auto
      have g: "g \<noteq> ''/''" using ws snoc path_of_root_iff [OF ws(1)] by simp
      have parent: "(if joined vs = [] then ''/'' else joined vs) = path_of vs"
        by (cases vs) (simp_all add: path_of_def joined_simps)
      have split: "split_leaf g = (joined vs, leaf)"
        using split_leaf_joined [OF leaf, of vs] ws(2) snoc by (simp add: path_of_def)
      obtain r w1 where sym: "resolve_guest_symlinks F pm gp (path_of vs) False pm w = (r, w1)"
        by (cases "resolve_guest_symlinks F pm gp (path_of vs) False pm w")
      then obtain res where r: "r = Done res"
        using run norm dev None g split
        by (cases r) (auto simp: guest_path_resolve_nofollow_def parent split: if_splits)
      have host: "host = root_path gp @ res @ (if res = ''/'' then '''' else ''/'') @ leaf" "length host < sz"
        using run norm dev None g split sym r
        by (auto simp: guest_path_resolve_nofollow_def parent Let_def split: if_splits)
      obtain us where us: "\<forall>v\<in>set us. plain v" "res = path_of us" "link_free L (root_path gp) False us"
        using symlinks_contained [OF fs vs] sym r by blast
      have "host = root_path gp @ path_of (us @ [leaf])"
        using host(1) us(2) path_of_root_iff [OF us(1)] by (auto simp: path_of_def joined_simps)
      then show ?thesis using us leaf host(2) by (auto simp: contained_def intro!: exI [of _ "us @ [leaf]"])
    qed
  qed
qed

lemma resolve_at_contained:
  assumes "static_fs F w L R"
    and "guest_path_resolve_at F pm gp directory path allow nofollow sz w = (Done host, w')"
  shows "contained L (root_path gp) allow nofollow host \<and> length host < sz"
proof -
  obtain p where "(if nofollow then guest_path_resolve_nofollow F pm gp p sz w
      else guest_path_resolve F pm gp p allow sz w) = (Done host, w')"
    using assms(2) by (auto simp: guest_path_resolve_at_def Let_def split: if_splits option.splits)
  then show ?thesis
    using resolve_contained [OF assms(1)] resolve_nofollow_contained [OF assms(1)]
    by (cases nofollow) auto
qed


text \<open>An example file system: \<open>/up\<close> is a link to \<open>../..\<close>, everything else is a directory.\<close>

abbreviation nowhere :: "unit world" where
  "nowhere \<equiv> \<lparr>w_host = (), w_mem = (\<lambda>_. 0)\<rparr>"

definition linked_fs :: "unit host_fs" where
  "linked_fs = \<lparr>
     fs_lstat = (\<lambda>p w. (Inr (if p = ''/g/up'' then Symlink else Directory), w)),
     fs_stat = (\<lambda>p w. (Inr Directory, w)),
     fs_readlink = (\<lambda>p n w. (Inr ''../../etc'', w)),
     fs_realpath = (\<lambda>p w. (Inr p, w))\<rparr>"

lemma linked_fs_static: "static_fs linked_fs nowhere (\<lambda>p. Inr (if p = ''/g/up'' then Symlink else Directory)) (\<lambda>p n. Inr ''../../etc'')"
  by (simp add: static_fs_def linked_fs_def)

lemma linked_fs_run:
  "guest_path_resolve_at linked_fs 1024 \<lparr>root_path = ''/g'', guest_cwd = ''/''\<rparr> None ''/up/passwd'' False False 1024
     nowhere = (Done ''/g/etc/passwd'', nowhere)"
  by (simp add: guest_path_resolve_at_def guest_path_resolve_def normalize_guest_path_def Let_def
      resolve_guest_device_def resolve_guest_symlinks_def resolve_walk.simps linked_fs_def
      link_target_path_def finish_resolved_def host_path_of_def)


text \<open>
  The reference for normalisation: components from left to right on a stack, \<open>.\<close> ignored and
  \<open>..\<close> removing the top.
\<close>

definition lexical :: "string list \<Rightarrow> string list" where
  "lexical ws = foldl (\<lambda>st w. if w = ''.'' then st else if w = ''..'' then butlast st else st @ [w]) [] ws"

lemma push_components_lexical:
  "push_components limit stack ws = Some out \<Longrightarrow>
    out = foldl (\<lambda>st w. if w = ''.'' then st else if w = ''..'' then butlast st else st @ [w]) stack ws"
proof (induction ws arbitrary: stack)
  case (Cons w ws)
  then show ?case by (cases "w = ''.''"; cases "w = ''..''") (simp_all split: if_splits)
qed simp

text \<open>
  C21 (equivalence). \<open>normalize_guest_path\<close> computes the lexical normal form of an absolute
  path, and of a relative one below the working directory: when it returns a path, that is
  the canonical path of the components left after resolving \<open>.\<close> and \<open>..\<close>, it fits the
  buffer, and normalising it again changes nothing.
\<close>

theorem normalize_lexical:
  assumes "normalize_guest_path pm cwd path pm = Done out"
  shows "out = path_of (lexical (path_words (if hd path = slash then path else cwd @ ''/'' @ path))) \<and>
    canonical out \<and> length out < pm \<and> normalize_guest_path pm cwd' out pm = Done out"
proof -
  let ?combined = "if hd path = slash then path else cwd @ ''/'' @ path"
  obtain ws where ws: "\<forall>w\<in>set ws. plain w" "out = path_of ws" "length out < pm"
    using normalize_done [OF assms] by blast
  obtain cs where cs: "push_components (pm div 2) [] (path_words ?combined) = Some cs"
    and pm: "2 \<le> pm" and out: "emit_components pm ''/'' cs = Done out"
    using assms by (auto simp: normalize_guest_path_def Let_def split: if_splits option.splits)
  have "cs = lexical (path_words ?combined)" using push_components_lexical [OF cs] by (simp add: lexical_def)
  moreover have "out = path_of cs" using out by (auto simp: emit_path_of [OF pm] split: if_splits)
  moreover have "normalize_guest_path pm cwd' out pm = Done out"
    using normalize_canonical [OF ws(1)] ws(2,3) pm by simp
  ultimately show ?thesis using ws by (auto simp: canonical_def)
qed

theorem normalize_lexical_witness:
  "normalize_guest_path 1024 ''/home'' ''./a//b/../../c/'' 1024 = Done ''/home/c'' \<and> canonical ''/home/c''"
proof -
  have run: "normalize_guest_path 1024 ''/home'' ''./a//b/../../c/'' 1024 = Done ''/home/c''"
    by (simp add: normalize_guest_path_def Let_def)
  then show ?thesis using normalize_lexical [OF run] by blast
qed

lemma push_components_overflow:
  "plain c \<Longrightarrow> length stack \<le> limit \<Longrightarrow> limit < length stack + n \<Longrightarrow>
    push_components limit stack (replicate n c) = None"
proof (induction n arbitrary: stack)
  case (Suc n)
  then show ?case
    by (cases "length stack = limit") (simp_all add: plain_not_dots)
qed simp

text \<open>
  C36 (safety). A path of more than \<open>PATH_MAX / 2\<close> one-letter components is shorter than the
  \<open>2 * PATH_MAX\<close> bytes of the work buffer, and \<open>normalize_guest_path\<close> then stores past the
  end of its \<open>components\<close> array.
\<close>

theorem normalize_overflow:
  assumes "pm div 2 < n" and "n < pm"
  shows "normalize_guest_path pm cwd (concat (replicate n ''/a'')) sz = Fault"
proof -
  have a: "plain ''a''" by (simp add: plain_def)
  have j: "concat (replicate n ''/a'') = joined (replicate n ''a'')"
    by (simp add: joined_def map_replicate_const)
  have w: "path_words (joined (replicate n ''a'')) = replicate n ''a''"
    using a by (intro path_words_joined) (simp add: in_set_replicate)
  obtain k where k: "n = Suc k" using assms(1) by (cases n) auto
  then have "joined (replicate n ''a'') \<noteq> []" "hd (joined (replicate n ''a'')) = slash"
    by (simp_all add: joined_simps)
  moreover have "length (joined (replicate n ''a'')) = 2 * n"
    by (simp add: joined_def length_concat map_replicate_const sum_list_replicate)
  moreover have "push_components (pm div 2) [] (replicate n ''a'') = None"
    using assms(1) by (intro push_components_overflow [OF a]) simp_all
  ultimately show ?thesis using assms(2) by (simp add: normalize_guest_path_def Let_def j w)
qed

theorem normalize_overflow_witness:
  "normalize_guest_path 1024 ''/'' (concat (replicate 600 ''/a'')) 1024 = Fault"
  by (rule normalize_overflow) simp_all

lemma self_link_walk:
  assumes fs: "static_fs F w L R" and c: "plain c" and root: "L (root_path gp @ ''/'' @ c) = Inr Symlink"
    and target: "R (root_path gp @ ''/'' @ c) (pm - 1) = Inr (''/'' @ c)"
    and fit: "length (root_path gp @ ''/'' @ c) < pm"
  shows "lc \<le> 40 \<Longrightarrow>
    resolve_walk F pm gp allow sz lc (path_of [c]) [] (spaced [c]) w = (Fail ELOOP, w)"
proof (induction "40 - lc" arbitrary: lc)
  case 0
  then show ?case
    using root target fit by (simp add: walk_step [OF fs c] del: spaced.simps)
next
  case (Suc n)
  have p: "''/'' @ c = path_of [c]" by (simp add: path_of_def joined_simps)
  have "normalize_guest_path pm (guest_cwd gp) (path_of [c]) pm = Done (path_of [c])"
    using fit c p by (intro normalize_canonical) (auto simp: p [symmetric])
  moreover have "link_target_path [] (''/'' @ c) True [] = path_of [c]"
    by (simp add: link_target_path_def Let_def p [symmetric])
  moreover have "length (path_of [c]) < pm" using fit by (simp add: p [symmetric])
  moreover have lc: "n = 40 - Suc lc" "Suc lc \<le> 40" using Suc.hyps(2) by simp_all
  ultimately have "resolve_walk F pm gp allow sz lc (path_of [c]) [] (spaced [c]) w =
      resolve_walk F pm gp allow sz (Suc lc) (path_of [c]) [] (spaced [c]) w"
    using root target fit
    by (subst walk_step [OF fs c]) (simp add: Let_def tl_path_spaced del: spaced.simps(2) append_Cons)
  then show ?case using Suc.hyps(1) [OF lc] by simp
qed

text \<open>
  A symbolic link to itself does not keep the resolver running: after 40 links it
  gives up with \<open>ELOOP\<close>.
\<close>

theorem self_link_eloop:
  assumes "static_fs F w L R" and "plain c" and "root_path gp \<noteq> []"
    and "L (root_path gp @ ''/'' @ c) = Inr Symlink"
    and "R (root_path gp @ ''/'' @ c) (pm - 1) = Inr (''/'' @ c)"
    and "length (root_path gp @ ''/'' @ c) < pm"
  shows "guest_path_resolve F pm gp (''/'' @ c) allow sz w = (Fail ELOOP, w)"
proof -
  have p: "''/'' @ c = path_of [c]" by (simp add: path_of_def joined_simps)
  have norm: "normalize_guest_path pm (guest_cwd gp) (path_of [c]) pm = Done (path_of [c])"
    using assms(2,6) p by (intro normalize_canonical) (auto simp: p [symmetric])
  have "slash \<notin> set c" using assms(2) by (simp add: plain_def)
  then have "path_of [c] \<noteq> ''/dev/null''" unfolding p [symmetric] by (intro notI) simp
  then have "resolve_guest_device (path_of [c]) sz = Done None" by (simp add: resolve_guest_device_def)
  moreover have "resolve_walk F pm gp allow pm 0 (path_of [c]) [] (spaced [c]) w = (Fail ELOOP, w)"
    by (rule self_link_walk [OF assms(1,2,4,5,6)]) simp
  moreover have "length (path_of [c]) + 1 \<le> pm" using assms(6) by (simp add: p [symmetric])
  ultimately show ?thesis
    using assms(3) norm unfolding p
    by (simp add: guest_path_resolve_def resolve_guest_symlinks_def tl_path_spaced del: spaced.simps)
qed

definition looping_fs :: "unit host_fs" where
  "looping_fs = \<lparr>fs_lstat = (\<lambda>p w. (Inr Symlink, w)), fs_stat = (\<lambda>p w. (Inl ELOOP, w)),
     fs_readlink = (\<lambda>p n w. (Inr ''/loop'', w)), fs_realpath = (\<lambda>p w. (Inr p, w))\<rparr>"

lemma looping_fs_static: "static_fs looping_fs nowhere (\<lambda>p. Inr Symlink) (\<lambda>p n. Inr ''/loop'')"
  by (simp add: static_fs_def looping_fs_def)

theorem self_link_eloop_witness:
  "guest_path_resolve looping_fs 1024 \<lparr>root_path = ''/g'', guest_cwd = ''/''\<rparr> (''/'' @ ''loop'') False 1024 nowhere
    = (Fail ELOOP, nowhere)"
proof (rule self_link_eloop [OF looping_fs_static])
  show "plain ''loop''" by (simp add: plain_def)
qed simp_all

text \<open>
  Changing the working directory leaves it unchanged on every error; on
  success it is a canonical path of a directory that fits the buffer and has no link on the
  way, and \<open>guest_path_getcwd\<close> returns it.
\<close>

theorem chdir_cwd:
  assumes fs: "static_fs F w L R" and run: "guest_path_chdir F pm gp path w = (r, gp', w')"
  shows "root_path gp' = root_path gp \<and> (r \<noteq> Done () \<longrightarrow> gp' = gp) \<and>
    (r = Done () \<longrightarrow> canonical (guest_cwd gp') \<and> length (guest_cwd gp') < pm \<and>
      (\<exists>ws. guest_cwd gp' = path_of ws \<and> link_free L (root_path gp) False ws) \<and>
      (\<exists>v. fs_stat F (root_path gp @ guest_cwd gp') v = (Inr Directory, w')) \<and>
      guest_path_getcwd gp' pm = Done (Suc (length (guest_cwd gp')), guest_cwd gp'))"
proof (cases "r = Done ()")
  case False
  have "gp' = gp"
  proof (cases "normalize_guest_path pm (guest_cwd gp) path pm")
    case norm: (Done g)
    obtain q w1 where sym: "resolve_guest_symlinks F pm gp g False pm w = (q, w1)"
      by (cases "resolve_guest_symlinks F pm gp g False pm w")
    show ?thesis
    proof (cases q)
      case (Done res)
      obtain st w2 where "fs_stat F (root_path gp @ res) w1 = (st, w2)" by fastforce
      then show ?thesis
        using run False norm sym Done
        by (cases st) (auto simp: guest_path_chdir_def Let_def split: if_splits)
    qed (use run norm sym in \<open>simp_all add: guest_path_chdir_def\<close>)
  qed (use run in \<open>simp_all add: guest_path_chdir_def\<close>)
  then show ?thesis using False by simp
next
  case True
  obtain g where norm: "normalize_guest_path pm (guest_cwd gp) path pm = Done g"
    using run True by (cases "normalize_guest_path pm (guest_cwd gp) path pm") (auto simp: guest_path_chdir_def)
  obtain ws where ws: "\<forall>v\<in>set ws. plain v" "g = path_of ws" using normalize_done [OF norm] by blast
  obtain res w1 where sym: "resolve_guest_symlinks F pm gp g False pm w = (Done res, w1)"
    using run norm True
    by (cases "resolve_guest_symlinks F pm gp g False pm w"; cases "fst (resolve_guest_symlinks F pm gp g False pm w)")
      (auto simp: guest_path_chdir_def)
  obtain us where us: "\<forall>v\<in>set us. plain v" "res = path_of us" "length res < pm"
      "link_free L (root_path gp) False us"
    using symlinks_contained [OF fs ws(1)] sym ws(2) by blast
  have gp': "gp' = gp\<lparr>guest_cwd := res\<rparr>" and dir: "fs_stat F (root_path gp @ res) w1 = (Inr Directory, w')"
    using run norm sym True
    by (auto simp: guest_path_chdir_def Let_def split: if_splits prod.splits sum.splits)
  show ?thesis
    using True us dir by (auto simp: gp' canonical_def guest_path_getcwd_def Let_def)
qed

theorem chdir_cwd_witness:
  "let gp' = fst (snd (guest_path_chdir linked_fs 1024 \<lparr>root_path = ''/g'', guest_cwd = ''/''\<rparr> ''up/x'' nowhere))
   in guest_cwd gp' = ''/etc/x'' \<and> canonical (guest_cwd gp')"
proof -
  have run: "guest_path_chdir linked_fs 1024 \<lparr>root_path = ''/g'', guest_cwd = ''/''\<rparr> ''up/x'' nowhere =
      (Done (), \<lparr>root_path = ''/g'', guest_cwd = ''/etc/x''\<rparr>, nowhere)"
    by (simp add: guest_path_chdir_def normalize_guest_path_def Let_def resolve_guest_symlinks_def
        resolve_walk.simps linked_fs_def link_target_path_def finish_resolved_def)
  then show ?thesis using chdir_cwd [OF linked_fs_static run] by simp
qed

end
