(* ===== verification/Linux_Files.thy ===== *)
theory Linux_Files
  imports Guest_Path Linux_Abi
begin

text \<open>
  The system calls on descriptors and paths (\<open>linux_syscall.c\<close>). The emulator keeps three
  tables for the descriptors below 256: the host path a descriptor was opened with, which relative
  calls need, the directory stream behind \<open>getdents64\<close>, and the writing end of the pipe behind a
  descriptor of \<open>eventfd2\<close>. The host's file calls are parameters; calls with a buffer of the guest
  read and write guest memory through the world.
\<close>

unbundle bit_operations_syntax

section \<open>The host\<close>

datatype lock_type = F_RDLCK | F_WRLCK | F_UNLCK

datatype lock_command = F_GETLK | F_SETLK | F_SETLKW

record host_flock =
  l_type :: lock_type
  l_whence :: int
  l_start :: int
  l_len :: int
  l_pid :: int

record dirent =
  d_ino :: int
  d_name :: string

text \<open>
  A host call either fails with its \<open>errno\<close> or delivers its result. \<open>fh_readdir\<close> fails with
  \<open>NoError\<close> at the end of the directory, when the host leaves \<open>errno\<close> alone; \<open>fh_off_t\<close> is
  the conversion to \<open>off_t\<close>, \<open>fh_is_link\<close> the test \<open>S_ISLNK\<close> and \<open>fh_oflags\<close> the open
  flags the host defines.
\<close>

record 'h file_host =
  fh_fs :: "'h host_fs"
  fh_path_max :: nat
  fh_oflags :: "host_oflag set"
  fh_off_t :: "int \<Rightarrow> int"
  fh_is_link :: "int \<Rightarrow> bool"
  fh_strdup :: "string \<Rightarrow> 'h world \<Rightarrow> string option \<times> 'h world"
  fh_open :: "string \<Rightarrow> host_oflag set \<Rightarrow> u32 \<Rightarrow> 'h world \<Rightarrow> (host_errno + int) \<times> 'h world"
  fh_close :: "int \<Rightarrow> 'h world \<Rightarrow> (host_errno + int) \<times> 'h world"
  fh_stat :: "string \<Rightarrow> 'h world \<Rightarrow> (host_errno + host_stat) \<times> 'h world"
  fh_lstat :: "string \<Rightarrow> 'h world \<Rightarrow> (host_errno + host_stat) \<times> 'h world"
  fh_fstat :: "int \<Rightarrow> 'h world \<Rightarrow> (host_errno + host_stat) \<times> 'h world"
  fh_mkdir :: "string \<Rightarrow> u32 \<Rightarrow> 'h world \<Rightarrow> (host_errno + int) \<times> 'h world"
  fh_rmdir :: "string \<Rightarrow> 'h world \<Rightarrow> (host_errno + int) \<times> 'h world"
  fh_unlink :: "string \<Rightarrow> 'h world \<Rightarrow> (host_errno + int) \<times> 'h world"
  fh_rename :: "string \<Rightarrow> string \<Rightarrow> 'h world \<Rightarrow> (host_errno + int) \<times> 'h world"
  fh_access :: "string \<Rightarrow> u32 \<Rightarrow> 'h world \<Rightarrow> (host_errno + int) \<times> 'h world"
  fh_link :: "string \<Rightarrow> string \<Rightarrow> 'h world \<Rightarrow> (host_errno + int) \<times> 'h world"
  fh_symlink :: "string \<Rightarrow> string \<Rightarrow> 'h world \<Rightarrow> (host_errno + int) \<times> 'h world"
  fh_chmod :: "string \<Rightarrow> u32 \<Rightarrow> 'h world \<Rightarrow> (host_errno + int) \<times> 'h world"
  fh_utime :: "string \<Rightarrow> (int \<times> int) option \<Rightarrow> 'h world \<Rightarrow> (host_errno + int) \<times> 'h world"
  fh_time :: "'h world \<Rightarrow> (host_errno + int) \<times> 'h world"
  fh_readlink :: "string \<Rightarrow> u32 \<Rightarrow> u32 \<Rightarrow> 'h world \<Rightarrow> (host_errno + int) \<times> 'h world"
  fh_opendir :: "string \<Rightarrow> 'h world \<Rightarrow> (host_errno + int) \<times> 'h world"
  fh_closedir :: "int \<Rightarrow> 'h world \<Rightarrow> 'h world"
  fh_telldir :: "int \<Rightarrow> 'h world \<Rightarrow> int \<times> 'h world"
  fh_seekdir :: "int \<Rightarrow> int \<Rightarrow> 'h world \<Rightarrow> 'h world"
  fh_readdir :: "int \<Rightarrow> 'h world \<Rightarrow> (host_errno + dirent) \<times> 'h world"
  fh_dup :: "int \<Rightarrow> 'h world \<Rightarrow> (host_errno + int) \<times> 'h world"
  fh_dup2 :: "int \<Rightarrow> int \<Rightarrow> 'h world \<Rightarrow> (host_errno + int) \<times> 'h world"
  fh_dupfd :: "int \<Rightarrow> int \<Rightarrow> 'h world \<Rightarrow> (host_errno + int) \<times> 'h world"
  fh_getfd :: "int \<Rightarrow> 'h world \<Rightarrow> (host_errno + int) \<times> 'h world"
  fh_setfd :: "int \<Rightarrow> fd_flag set \<Rightarrow> 'h world \<Rightarrow> (host_errno + int) \<times> 'h world"
  fh_getfl :: "int \<Rightarrow> 'h world \<Rightarrow> (host_errno + host_oflag set) \<times> 'h world"
  fh_setfl :: "int \<Rightarrow> host_oflag set \<Rightarrow> 'h world \<Rightarrow> (host_errno + int) \<times> 'h world"
  fh_lock :: "int \<Rightarrow> lock_command \<Rightarrow> host_flock \<Rightarrow> 'h world \<Rightarrow> (host_errno + host_flock) \<times> 'h world"
  fh_pipe :: "'h world \<Rightarrow> (host_errno + int \<times> int) \<times> 'h world"
  fh_read :: "int \<Rightarrow> u32 \<Rightarrow> u32 \<Rightarrow> 'h world \<Rightarrow> (host_errno + int) \<times> 'h world"
  fh_write :: "int \<Rightarrow> u8 list \<Rightarrow> 'h world \<Rightarrow> (host_errno + int) \<times> 'h world"

section \<open>The state\<close>

record fd_table =
  directory_streams :: "int \<Rightarrow> int option"
  fd_paths :: "int \<Rightarrow> string option"
  eventfd_write_peers :: "int \<Rightarrow> int"

record 'h files =
  fl_world :: "'h world"
  fl_table :: fd_table
  fl_paths :: guest_paths

abbreviation (input) MAX_TRACKED_FDS :: int where "MAX_TRACKED_FDS \<equiv> 256"
abbreviation (input) LINUX_AT_FDCWD :: int where "LINUX_AT_FDCWD \<equiv> -100"
abbreviation (input) LINUX_AT_SYMLINK_NOFOLLOW :: u32 where "LINUX_AT_SYMLINK_NOFOLLOW \<equiv> 0x100"
abbreviation (input) LINUX_AT_REMOVEDIR :: u32 where "LINUX_AT_REMOVEDIR \<equiv> 0x200"
abbreviation (input) LINUX_AT_SYMLINK_FOLLOW :: u32 where "LINUX_AT_SYMLINK_FOLLOW \<equiv> 0x400"
abbreviation (input) LINUX_EFD_SEMAPHORE :: u32 where "LINUX_EFD_SEMAPHORE \<equiv> 1"
abbreviation (input) LINUX_EOPNOTSUPP :: int where "LINUX_EOPNOTSUPP \<equiv> 95"

definition tracked :: "int \<Rightarrow> bool" where
  "tracked fd \<longleftrightarrow> fd \<ge> 0 \<and> fd < MAX_TRACKED_FDS"

definition on_world :: "('h world \<Rightarrow> 'a \<times> 'h world) \<Rightarrow> 'h files \<Rightarrow> 'a \<times> 'h files" where
  "on_world f st = (case f (fl_world st) of (r, w) \<Rightarrow> (r, st\<lparr>fl_world := w\<rparr>))"

definition is_wake_eventfd :: "int \<Rightarrow> 'h files \<Rightarrow> bool" where
  "is_wake_eventfd fd st \<longleftrightarrow> tracked fd \<and> eventfd_write_peers (fl_table st) fd \<noteq> 0"

definition release_wake_eventfd :: "'h file_host \<Rightarrow> int \<Rightarrow> 'h files \<Rightarrow> 'h files" where
  "release_wake_eventfd H fd st =
     (if \<not> is_wake_eventfd fd st then st
      else
        let t = fl_table st; peer = eventfd_write_peers t fd - 1 in
        snd (on_world (fh_close H peer)
          (st\<lparr>fl_table := t\<lparr>eventfd_write_peers := (eventfd_write_peers t)(fd := 0)\<rparr>\<rparr>)))"

section \<open>Results\<close>

text \<open>\<open>linux_result\<close> and \<open>linux_host_result\<close> differ only in the C type of their argument.\<close>

definition linux_host_result :: "host_errno + int \<Rightarrow> sysret" where
  "linux_host_result r = (case r of Inl e \<Rightarrow> Translated e | Inr v \<Rightarrow> Value v)"

definition host_call :: "('h world \<Rightarrow> (host_errno + int) \<times> 'h world) \<Rightarrow> 'h files \<Rightarrow> sysret outcome \<times> 'h files" where
  "host_call f st = (case on_world f st of (r, st) \<Rightarrow> (Done (linux_host_result r), st))"

section \<open>Paths\<close>

text \<open>
  A null pointer as a path has the effect of the empty string in every call below, so paths are
  strings.
\<close>

definition directory_path :: "int \<Rightarrow> string \<Rightarrow> fd_table \<Rightarrow> host_errno + string option" where
  "directory_path directory_fd guest_path t =
     (if guest_path \<noteq> [] \<and> hd guest_path = slash \<or> directory_fd = LINUX_AT_FDCWD then Inr None
      else if \<not> tracked directory_fd \<or> fd_paths t directory_fd = None then Inl EBADF
      else Inr (fd_paths t directory_fd))"

definition resolve_at :: "'h file_host \<Rightarrow> int \<Rightarrow> string \<Rightarrow> bool \<Rightarrow> bool \<Rightarrow> 'h files \<Rightarrow> string outcome \<times> 'h files" where
  "resolve_at H directory_fd guest_path allow_missing_leaf nofollow st =
     (let F = fh_fs H; pm = fh_path_max H; gp = fl_paths st in
      case directory_path directory_fd guest_path (fl_table st) of
        Inl e \<Rightarrow> (Fail e, st)
      | Inr (Some base) \<Rightarrow> on_world (guest_path_resolve_at F pm gp (Some base) guest_path allow_missing_leaf nofollow pm) st
      | Inr None \<Rightarrow>
          on_world (if nofollow then guest_path_resolve_nofollow F pm gp guest_path pm
                    else guest_path_resolve F pm gp guest_path allow_missing_leaf pm) st)"

text \<open>The use of a resolved path, and the error return when there is none.\<close>

definition with_path ::
  "string outcome \<times> 'h files \<Rightarrow> (string \<Rightarrow> 'h files \<Rightarrow> sysret outcome \<times> 'h files) \<Rightarrow> sysret outcome \<times> 'h files" where
  "with_path r use =
     (case r of
        (Done host_path, st) \<Rightarrow> use host_path st
      | (Fail e, st) \<Rightarrow> (Done (Translated e), st)
      | (FailStale, st) \<Rightarrow> (FailStale, st)
      | (Fault, st) \<Rightarrow> (Fault, st)
      | (Hang, st) \<Rightarrow> (Hang, st))"

definition track_path :: "'h file_host \<Rightarrow> int \<Rightarrow> string \<Rightarrow> 'h files \<Rightarrow> 'h files" where
  "track_path H fd host_path st =
     (if tracked fd then
        (case on_world (fh_strdup H host_path) st of
           (copy, st) \<Rightarrow> st\<lparr>fl_table := (fl_table st)\<lparr>fd_paths := (fd_paths (fl_table st))(fd := copy)\<rparr>\<rparr>)
      else st)"

definition linux_open_path :: "'h file_host \<Rightarrow> int \<Rightarrow> string \<Rightarrow> u32 \<Rightarrow> u32 \<Rightarrow> 'h files \<Rightarrow> sysret outcome \<times> 'h files" where
  "linux_open_path H directory_fd guest_path flags mode st =
     (case linux_open_flags (fh_oflags H) flags of
        None \<Rightarrow> (Done (RawHost EINVAL), st)
      | Some host_flags \<Rightarrow>
          with_path (resolve_at H directory_fd guest_path (O_CREAT \<in> host_flags)
              (flags AND LINUX_O_NOFOLLOW \<noteq> 0 \<or>
               flags AND (LINUX_O_CREAT OR LINUX_O_EXCL) = LINUX_O_CREAT OR LINUX_O_EXCL) st)
            (\<lambda>host_path st.
               case on_world (fh_open H host_path host_flags (mode AND 0xFFF)) st of
                 (Inl e, st) \<Rightarrow> (Done (Translated e), st)
               | (Inr fd, st) \<Rightarrow> (Done (Value fd), track_path H fd host_path st)))"

definition linux_stat_path :: "'h file_host \<Rightarrow> int \<Rightarrow> string \<Rightarrow> u32 \<Rightarrow> bool \<Rightarrow> 'h files \<Rightarrow> sysret outcome \<times> 'h files" where
  "linux_stat_path H directory_fd guest_path guest_status follow st =
     with_path (resolve_at H directory_fd guest_path False (\<not> follow) st)
       (\<lambda>host_path st.
          case on_world (if follow then fh_stat H host_path else fh_lstat H host_path) st of
            (Inl e, st) \<Rightarrow> (Done (Translated e), st)
          | (Inr status, st) \<Rightarrow>
              (Done (Value 0), st\<lparr>fl_world := (fl_world st)\<lparr>w_mem :=
                 linux_stat64_store (w_mem (fl_world st)) guest_status status\<rparr>\<rparr>))"

definition linux_mkdirat :: "'h file_host \<Rightarrow> int \<Rightarrow> string \<Rightarrow> u32 \<Rightarrow> 'h files \<Rightarrow> sysret outcome \<times> 'h files" where
  "linux_mkdirat H directory_fd guest_path mode st =
     with_path (resolve_at H directory_fd guest_path True True st)
       (\<lambda>host_path. host_call (fh_mkdir H host_path (mode AND 0xFFF)))"

definition linux_unlinkat :: "'h file_host \<Rightarrow> int \<Rightarrow> string \<Rightarrow> u32 \<Rightarrow> 'h files \<Rightarrow> sysret outcome \<times> 'h files" where
  "linux_unlinkat H directory_fd guest_path flags st =
     (if flags AND NOT LINUX_AT_REMOVEDIR \<noteq> 0 then (Done (RawHost EINVAL), st)
      else with_path (resolve_at H directory_fd guest_path False True st)
        (\<lambda>host_path. host_call (if flags AND LINUX_AT_REMOVEDIR \<noteq> 0 then fh_rmdir H host_path else fh_unlink H host_path)))"

definition linux_renameat ::
  "'h file_host \<Rightarrow> int \<Rightarrow> string \<Rightarrow> int \<Rightarrow> string \<Rightarrow> 'h files \<Rightarrow> sysret outcome \<times> 'h files" where
  "linux_renameat H old_directory_fd old_guest_path new_directory_fd new_guest_path st =
     with_path (resolve_at H old_directory_fd old_guest_path False True st)
       (\<lambda>old_host_path st. with_path (resolve_at H new_directory_fd new_guest_path True True st)
          (\<lambda>new_host_path. host_call (fh_rename H old_host_path new_host_path)))"

definition linux_faccessat :: "'h file_host \<Rightarrow> int \<Rightarrow> string \<Rightarrow> u32 \<Rightarrow> 'h files \<Rightarrow> sysret outcome \<times> 'h files" where
  "linux_faccessat H directory_fd guest_path mode st =
     (if mode AND NOT 7 \<noteq> 0 then (Done (RawHost EINVAL), st)
      else with_path (resolve_at H directory_fd guest_path False False st)
        (\<lambda>host_path. host_call (fh_access H host_path mode)))"

definition linux_linkat ::
  "'h file_host \<Rightarrow> int \<Rightarrow> string \<Rightarrow> int \<Rightarrow> string \<Rightarrow> u32 \<Rightarrow> 'h files \<Rightarrow> sysret outcome \<times> 'h files" where
  "linux_linkat H old_directory_fd old_guest_path new_directory_fd new_guest_path flags st =
     (if flags AND NOT LINUX_AT_SYMLINK_FOLLOW \<noteq> 0 then (Done (RawHost EINVAL), st)
      else with_path (resolve_at H old_directory_fd old_guest_path False (flags AND LINUX_AT_SYMLINK_FOLLOW = 0) st)
        (\<lambda>old_host_path st. with_path (resolve_at H new_directory_fd new_guest_path True True st)
           (\<lambda>new_host_path. host_call (fh_link H old_host_path new_host_path))))"

text \<open>The target of the new link is the guest's string, \<open>None\<close> a null pointer.\<close>

definition linux_symlinkat :: "'h file_host \<Rightarrow> string option \<Rightarrow> int \<Rightarrow> string \<Rightarrow> 'h files \<Rightarrow> sysret outcome \<times> 'h files" where
  "linux_symlinkat H guest_target directory_fd guest_link st =
     (case guest_target of
        None \<Rightarrow> (Done (RawHost EFAULT), st)
      | Some target \<Rightarrow>
          with_path (resolve_at H directory_fd guest_link True True st)
            (\<lambda>host_link. host_call (fh_symlink H target host_link)))"

definition linux_chmodat :: "'h file_host \<Rightarrow> int \<Rightarrow> string \<Rightarrow> u32 \<Rightarrow> 'h files \<Rightarrow> sysret outcome \<times> 'h files" where
  "linux_chmodat H directory_fd guest_path mode st =
     with_path (resolve_at H directory_fd guest_path False False st)
       (\<lambda>host_path. host_call (fh_chmod H host_path (mode AND 0xFFF)))"

text \<open>One of the two times of \<open>utimensat\<close>; \<open>None\<close> for nanoseconds out of range.\<close>

definition new_time :: "int \<Rightarrow> int \<Rightarrow> u32 \<Rightarrow> u32 \<Rightarrow> int option" where
  "new_time now old seconds nanoseconds =
     (if nanoseconds = 0x3FFFFFFF then Some now
      else if nanoseconds = 0x3FFFFFFE then Some old
      else if nanoseconds \<ge> 1000000000 then None
      else Some (sint seconds))"

definition set_times ::
  "'h file_host \<Rightarrow> string \<Rightarrow> u32 \<Rightarrow> host_stat \<Rightarrow> 'h files \<Rightarrow> sysret outcome \<times> 'h files" where
  "set_times H host_path guest_times status st =
     (case on_world (fh_time H) st of
        (Inl e, st) \<Rightarrow> (Done (Translated e), st)
      | (Inr now, st) \<Rightarrow>
          let word = (\<lambda>i. load32 (w_mem (fl_world st)) (guest_times + 4 * i)) in
          (case (new_time now (st_atime status) (word 0) (word 1), new_time now (st_mtime status) (word 2) (word 3)) of
             (Some actime, Some modtime) \<Rightarrow> host_call (fh_utime H host_path (Some (actime, modtime))) st
           | _ \<Rightarrow> (Done (RawHost EINVAL), st)))"

definition linux_utimensat :: "'h file_host \<Rightarrow> int \<Rightarrow> string \<Rightarrow> u32 \<Rightarrow> u32 \<Rightarrow> 'h files \<Rightarrow> sysret outcome \<times> 'h files" where
  "linux_utimensat H directory_fd guest_path guest_times flags st =
     (let nofollow = (flags AND LINUX_AT_SYMLINK_NOFOLLOW \<noteq> 0) in
      if flags AND NOT LINUX_AT_SYMLINK_NOFOLLOW \<noteq> 0 then (Done (RawHost EINVAL), st)
      else with_path (resolve_at H directory_fd guest_path False nofollow st)
        (\<lambda>host_path st.
           if guest_times = 0 then host_call (fh_utime H host_path None) st
           else case on_world (if nofollow then fh_lstat H host_path else fh_stat H host_path) st of
               (Inl e, st) \<Rightarrow> (Done (Translated e), st)
             | (Inr status, st) \<Rightarrow>
                 if nofollow \<and> fh_is_link H (st_mode status) then (Done (LinuxErr LINUX_EOPNOTSUPP), st)
                 else set_times H host_path guest_times status st))"

text \<open>The case \<open>LINUX_NR_READLINKAT\<close> of the dispatcher; the host writes into the guest's buffer.\<close>

definition linux_readlinkat :: "'h file_host \<Rightarrow> int \<Rightarrow> string \<Rightarrow> u32 \<Rightarrow> u32 \<Rightarrow> 'h files \<Rightarrow> sysret outcome \<times> 'h files" where
  "linux_readlinkat H directory_fd guest_path buffer len st =
     with_path (resolve_at H directory_fd guest_path False True st)
       (\<lambda>host_path. host_call (fh_readlink H host_path buffer len))"

section \<open>Descriptors\<close>

definition close_stream :: "'h file_host \<Rightarrow> int \<Rightarrow> 'h files \<Rightarrow> 'h files" where
  "close_stream H fd st =
     (case directory_streams (fl_table st) fd of
        None \<Rightarrow> st
      | Some directory \<Rightarrow>
          st\<lparr>fl_world := fh_closedir H directory (fl_world st),
             fl_table := (fl_table st)\<lparr>directory_streams := (directory_streams (fl_table st))(fd := None)\<rparr>\<rparr>)"

definition linux_close_fd :: "'h file_host \<Rightarrow> int \<Rightarrow> 'h files \<Rightarrow> sysret outcome \<times> 'h files" where
  "linux_close_fd H fd st =
     (let st = (if tracked fd then close_stream H fd st else st);
          st = (if tracked fd then
              let st = release_wake_eventfd H fd st in
              st\<lparr>fl_table := (fl_table st)\<lparr>fd_paths := (fd_paths (fl_table st))(fd := None)\<rparr>\<rparr>
            else st)
      in host_call (fh_close H fd) st)"

definition copy_fd_path :: "'h file_host \<Rightarrow> int \<Rightarrow> int \<Rightarrow> 'h files \<Rightarrow> 'h files" where
  "copy_fd_path H source destination st =
     (if \<not> tracked destination then st
      else
        let st = close_stream H destination st in
        case (if tracked source then fd_paths (fl_table st) source else None) of
          None \<Rightarrow> st\<lparr>fl_table := (fl_table st)\<lparr>fd_paths := (fd_paths (fl_table st))(destination := None)\<rparr>\<rparr>
        | Some path \<Rightarrow> track_path H destination path st)"

text \<open>Duplicates: the result of the host with the path copied to the new descriptor.\<close>

definition duplicate :: "'h file_host \<Rightarrow> int \<Rightarrow> ('h world \<Rightarrow> (host_errno + int) \<times> 'h world) \<Rightarrow> 'h files \<Rightarrow> sysret outcome \<times> 'h files" where
  "duplicate H source f st =
     (case on_world f st of
        (Inl e, st) \<Rightarrow> (Done (Translated e), st)
      | (Inr fd, st) \<Rightarrow> (Done (Value fd), copy_fd_path H source fd st))"

definition linux_dup :: "'h file_host \<Rightarrow> int \<Rightarrow> 'h files \<Rightarrow> sysret outcome \<times> 'h files" where
  "linux_dup H fd st =
     (if is_wake_eventfd fd st then (Done (LinuxErr LINUX_EOPNOTSUPP), st)
      else duplicate H fd (fh_dup H fd) st)"

definition linux_dup2 :: "'h file_host \<Rightarrow> int \<Rightarrow> int \<Rightarrow> 'h files \<Rightarrow> sysret outcome \<times> 'h files" where
  "linux_dup2 H source destination st =
     (if source = destination then
        (case on_world (fh_getfd H source) st of
           (Inl e, st) \<Rightarrow> (Done (Translated e), st)
         | (Inr _, st) \<Rightarrow> (Done (Value source), st))
      else if is_wake_eventfd source st then (Done (LinuxErr LINUX_EOPNOTSUPP), st)
      else case on_world (fh_getfd H source) st of
        (Inl e, st) \<Rightarrow> (Done (Translated e), st)
      | (Inr _, st) \<Rightarrow>
          (case on_world (fh_dup2 H source destination) (release_wake_eventfd H destination st) of
             (Inl e, st) \<Rightarrow> (Done (Translated e), st)
           | (Inr fd, st) \<Rightarrow> (Done (Value fd), if source \<noteq> fd then copy_fd_path H source fd st else st)))"

definition linux_dup3 :: "'h file_host \<Rightarrow> int \<Rightarrow> int \<Rightarrow> u32 \<Rightarrow> 'h files \<Rightarrow> sysret outcome \<times> 'h files" where
  "linux_dup3 H source destination flags st =
     (if source = destination \<or> flags AND NOT LINUX_O_CLOEXEC \<noteq> 0 then (Done (RawHost EINVAL), st)
      else if is_wake_eventfd source st then (Done (LinuxErr LINUX_EOPNOTSUPP), st)
      else case on_world (fh_getfd H source) st of
        (Inl e, st) \<Rightarrow> (Done (Translated e), st)
      | (Inr _, st) \<Rightarrow>
          (case on_world (fh_dup2 H source destination) (release_wake_eventfd H destination st) of
             (Inl e, st) \<Rightarrow> (Done (Translated e), st)
           | (Inr fd, st) \<Rightarrow>
               (case (if flags AND LINUX_O_CLOEXEC \<noteq> 0 then on_world (fh_setfd H destination {FD_CLOEXEC}) st
                      else (Inr 0, st)) of
                  (Inl e, st) \<Rightarrow> (Done (Translated e), st)
                | (Inr _, st) \<Rightarrow> (Done (Value fd), copy_fd_path H source destination st))))"

text \<open>\<open>F_DUPFD\<close>, with \<open>FD_CLOEXEC\<close> for the command 1030.\<close>

definition dup_above :: "'h file_host \<Rightarrow> int \<Rightarrow> u32 \<Rightarrow> bool \<Rightarrow> 'h world \<Rightarrow> (host_errno + int) \<times> 'h world" where
  "dup_above H fd argument cloexec w =
     (case fh_dupfd H fd (sint argument) w of
        (Inl e, w) \<Rightarrow> (Inl e, w)
      | (Inr new, w) \<Rightarrow>
          if \<not> cloexec then (Inr new, w)
          else (case fh_setfd H new {FD_CLOEXEC} w of
              (Inl e, w) \<Rightarrow> (Inl e, snd (fh_close H new w))
            | (Inr _, w) \<Rightarrow> (Inr new, w)))"

definition set_status :: "'h file_host \<Rightarrow> int \<Rightarrow> u32 \<Rightarrow> 'h files \<Rightarrow> sysret outcome \<times> 'h files" where
  "set_status H fd argument st =
     (case on_world (fh_getfl H fd) st of
        (Inl e, st) \<Rightarrow> (Done (Translated e), st)
      | (Inr current, st) \<Rightarrow>
          (case linux_open_flags (fh_oflags H) (argument AND (0x400 OR 0x800)) of
             None \<Rightarrow> (Done (RawHost EINVAL), st)
           | Some requested \<Rightarrow>
               host_call (fh_setfl H fd (current - {O_APPEND, O_NONBLOCK} \<union> (requested \<inter> {O_APPEND, O_NONBLOCK}))) st))"

text \<open>The guest's \<open>struct flock64\<close>.\<close>

record linux_flock64 =
  lk_type :: "16 word"
  lk_whence :: "16 word"
  lk_padding :: u32
  lk_start :: u64
  lk_length :: u64
  lk_pid :: u32
  lk_trailing_padding :: u32

definition load_flock :: "mem \<Rightarrow> u32 \<Rightarrow> linux_flock64" where
  "load_flock m a = \<lparr>lk_type = load16 m a, lk_whence = load16 m (a + 2), lk_padding = load32 m (a + 4),
     lk_start = load64 m (a + 8), lk_length = load64 m (a + 16), lk_pid = load32 m (a + 24),
     lk_trailing_padding = load32 m (a + 28)\<rparr>"

definition store_flock :: "mem \<Rightarrow> u32 \<Rightarrow> linux_flock64 \<Rightarrow> mem" where
  "store_flock m a k =
     store32 (store32 (store64 (store64 (store32 (store16 (store16 m a (lk_type k)) (a + 2) (lk_whence k))
       (a + 4) (lk_padding k)) (a + 8) (lk_start k)) (a + 16) (lk_length k)) (a + 24) (lk_pid k))
       (a + 28) (lk_trailing_padding k)"

definition lock_call :: "'h file_host \<Rightarrow> int \<Rightarrow> lock_command \<Rightarrow> u32 \<Rightarrow> 'h files \<Rightarrow> sysret outcome \<times> 'h files" where
  "lock_call H fd command argument st =
     (let guest_lock = load_flock (w_mem (fl_world st)) argument;
          whence = sint (lk_whence guest_lock)
      in case map_of [(0, F_RDLCK), (1, F_WRLCK), (2, F_UNLCK)] (sint (lk_type guest_lock)) of
        None \<Rightarrow> (Done (RawHost EINVAL), st)
      | Some type \<Rightarrow>
          if whence < 0 \<or> whence > 2 then (Done (RawHost EINVAL), st)
          else (case on_world (fh_lock H fd command \<lparr>l_type = type, l_whence = whence,
                    l_start = fh_off_t H (sint (lk_start guest_lock)), l_len = fh_off_t H (sint (lk_length guest_lock)),
                    l_pid = 0\<rparr>) st of
              (Inl e, st) \<Rightarrow> (Done (Translated e), st)
            | (Inr host_lock, st) \<Rightarrow>
                if command \<noteq> F_GETLK then (Done (Value 0), st)
                else
                  let guest_lock = guest_lock\<lparr>
                        lk_type := (case l_type host_lock of F_RDLCK \<Rightarrow> 0 | F_WRLCK \<Rightarrow> 1 | F_UNLCK \<Rightarrow> 2),
                        lk_whence := of_int (l_whence host_lock), lk_start := of_int (l_start host_lock),
                        lk_length := of_int (l_len host_lock), lk_pid := of_int (l_pid host_lock)\<rparr>;
                      w = fl_world st
                  in (Done (Value 0), st\<lparr>fl_world := w\<lparr>w_mem := store_flock (w_mem w) argument guest_lock\<rparr>\<rparr>)))"

definition linux_fcntl64 :: "'h file_host \<Rightarrow> int \<Rightarrow> int \<Rightarrow> u32 \<Rightarrow> 'h files \<Rightarrow> sysret outcome \<times> 'h files" where
  "linux_fcntl64 H fd command argument st =
     (if (command = 0 \<or> command = 1030) \<and> is_wake_eventfd fd st then (Done (LinuxErr LINUX_EOPNOTSUPP), st)
      else if command = 0 then duplicate H fd (dup_above H fd argument False) st
      else if command = 1030 then duplicate H fd (dup_above H fd argument True) st
      else if command = 1 then host_call (fh_getfd H fd) st
      else if command = 2 then host_call (fh_setfd H fd (flag_if (argument AND 1 \<noteq> 0) FD_CLOEXEC)) st
      else if command = 3 then
        (case on_world (fh_getfl H fd) st of
           (Inl e, st) \<Rightarrow> (Done (Translated e), st)
         | (Inr flags, st) \<Rightarrow> (Done (Value (sint (linux_status_flags (fh_oflags H) flags))), st))
      else if command = 4 then set_status H fd argument st
      else if command = 12 then lock_call H fd F_GETLK argument st
      else if command = 13 then lock_call H fd F_SETLK argument st
      else if command = 14 then lock_call H fd F_SETLKW argument st
      else (Done (RawHost EINVAL), st))"

section \<open>Pipes and wake descriptors\<close>

fun first_error :: "('h world \<Rightarrow> (host_errno + int) \<times> 'h world) list \<Rightarrow> 'h world \<Rightarrow> host_errno option \<times> 'h world" where
  "first_error [] w = (None, w)"
| "first_error (f # fs) w =
     (case f w of (Inl e, w) \<Rightarrow> (Some e, w) | (Inr _, w) \<Rightarrow> first_error fs w)"

definition configure_pipe :: "'h file_host \<Rightarrow> u32 \<Rightarrow> int \<Rightarrow> int \<Rightarrow> 'h world \<Rightarrow> host_errno option \<times> 'h world" where
  "configure_pipe H flags a b w =
     (case first_error
        ((if flags AND LINUX_O_NONBLOCK \<noteq> 0 then [fh_setfl H a {O_NONBLOCK}, fh_setfl H b {O_NONBLOCK}] else []) @
         (if flags AND LINUX_O_CLOEXEC \<noteq> 0 then [fh_setfd H a {FD_CLOEXEC}, fh_setfd H b {FD_CLOEXEC}] else [])) w of
        (None, w) \<Rightarrow> (None, w)
      | (Some e, w) \<Rightarrow> (Some e, snd (fh_close H b (snd (fh_close H a w)))))"

definition linux_pipe :: "'h file_host \<Rightarrow> u32 \<Rightarrow> u32 \<Rightarrow> 'h files \<Rightarrow> sysret outcome \<times> 'h files" where
  "linux_pipe H guest_descriptors flags st =
     (if flags AND NOT (LINUX_O_NONBLOCK OR LINUX_O_CLOEXEC) \<noteq> 0 then (Done (RawHost EINVAL), st)
      else case on_world (fh_pipe H) st of
        (Inl e, st) \<Rightarrow> (Done (Translated e), st)
      | (Inr (a, b), st) \<Rightarrow>
          (case on_world (configure_pipe H flags a b) st of
             (Some e, st) \<Rightarrow> (Done (Translated e), st)
           | (None, st) \<Rightarrow>
               let st = copy_fd_path H (-1) b (copy_fd_path H (-1) a st); w = fl_world st in
               (Done (Value 0), st\<lparr>fl_world := w\<lparr>w_mem := store32 (store32 (w_mem w) guest_descriptors (of_int a))
                  (guest_descriptors + 4) (of_int b)\<rparr>\<rparr>)))"

definition linux_eventfd2 :: "'h file_host \<Rightarrow> u32 \<Rightarrow> u32 \<Rightarrow> 'h files \<Rightarrow> sysret outcome \<times> 'h files" where
  "linux_eventfd2 H initial_value flags st =
     (if flags AND NOT (LINUX_EFD_SEMAPHORE OR LINUX_O_NONBLOCK OR LINUX_O_CLOEXEC) \<noteq> 0 then (Done (RawHost EINVAL), st)
      else if initial_value \<noteq> 0 \<or> flags \<noteq> LINUX_O_NONBLOCK OR LINUX_O_CLOEXEC then (Done (LinuxErr LINUX_EOPNOTSUPP), st)
      else case on_world (fh_pipe H) st of
        (Inl e, st) \<Rightarrow> (Done (Translated e), st)
      | (Inr (a, b), st) \<Rightarrow>
          if \<not> tracked a then
            (Done (RawHost EMFILE), snd (on_world (fh_close H b) (snd (on_world (fh_close H a) st))))
          else (case on_world (configure_pipe H flags a b) st of
             (Some e, st) \<Rightarrow> (Done (Translated e), st)
           | (None, st) \<Rightarrow>
               let t = fl_table st;
                   st = st\<lparr>fl_table := t\<lparr>eventfd_write_peers := (eventfd_write_peers t)(a := b + 1)\<rparr>\<rparr>
               in (Done (Value a), copy_fd_path H (-1) a st)))"

definition linux_eventfd_read :: "'h file_host \<Rightarrow> int \<Rightarrow> u32 \<Rightarrow> u32 \<Rightarrow> 'h files \<Rightarrow> sysret outcome \<times> 'h files" where
  "linux_eventfd_read H fd buffer len st =
     (if len < 8 then (Done (RawHost EINVAL), st) else host_call (fh_read H fd buffer 8) st)"

definition linux_eventfd_write :: "'h file_host \<Rightarrow> int \<Rightarrow> u32 \<Rightarrow> u32 \<Rightarrow> 'h files \<Rightarrow> sysret outcome \<times> 'h files" where
  "linux_eventfd_write H fd buffer len st =
     (if len < 8 then (Done (RawHost EINVAL), st)
      else
        let v = load64 (w_mem (fl_world st)) buffer in
        if v \<noteq> 1 then (Done (RawHost EINVAL), st)
        else host_call (fh_write H (eventfd_write_peers (fl_table st) fd - 1) (to_le 8 v)) st)"

section \<open>Directories\<close>

text \<open>One record of \<open>getdents64\<close>: number, offset, length, type, name and padding to eight bytes.\<close>

definition record_length :: "string \<Rightarrow> nat" where
  "record_length name = (19 + (length name + 1) + 7) div 8 * 8"

definition byte_of :: "char \<Rightarrow> u8" where
  "byte_of c = of_nat (of_char c)"

definition dent_bytes :: "dirent \<Rightarrow> int \<Rightarrow> u8 list" where
  "dent_bytes entry offset =
     (let n = record_length (d_name entry);
          b = to_le 8 (of_int (d_ino entry) :: u64) @ to_le 8 (of_int offset :: u64) @
            to_le 2 (of_nat n :: 16 word) @ [0] @ map byte_of (d_name entry)
      in b @ replicate (n - length b) 0)"

text \<open>The loop over the stream; a record that does not fit is put back.\<close>

function dents_loop ::
  "'h file_host \<Rightarrow> int \<Rightarrow> u32 \<Rightarrow> nat \<Rightarrow> nat \<Rightarrow> 'h world \<Rightarrow> (host_errno \<times> nat) \<times> 'h world" where
  "dents_loop H directory buffer capacity used w =
     (case fh_telldir H directory w of
        (previous_offset, w) \<Rightarrow>
          (case fh_readdir H directory w of
             (Inl e, w) \<Rightarrow> ((e, used), w)
           | (Inr entry, w) \<Rightarrow>
               (case fh_telldir H directory w of
                  (offset, w) \<Rightarrow>
                    let n = record_length (d_name entry) in
                    if n > capacity - used then ((NoError, used), fh_seekdir H directory previous_offset w)
                    else dents_loop H directory buffer capacity (used + n)
                      (w\<lparr>w_mem := store_bytes (w_mem w) (buffer + of_nat used) (dent_bytes entry offset)\<rparr>))))"
  by pat_completeness auto
termination
  by (relation "measure (\<lambda>(H, directory, buffer, capacity, used, w). capacity - used)")
    (simp_all add: record_length_def)

definition linux_getdents64 :: "'h file_host \<Rightarrow> int \<Rightarrow> u32 \<Rightarrow> u32 \<Rightarrow> 'h files \<Rightarrow> sysret outcome \<times> 'h files" where
  "linux_getdents64 H fd buffer capacity st =
     (let list_entries = (\<lambda>directory st.
            case on_world (dents_loop H directory buffer (unat capacity) 0) st of
              ((e, used), st) \<Rightarrow>
                (Done (if used = 0 \<and> e \<noteq> NoError then Translated e else Value (int used)), st))
      in if \<not> tracked fd then (Done (RawHost EBADF), st)
         else case directory_streams (fl_table st) fd of
           Some directory \<Rightarrow> list_entries directory st
         | None \<Rightarrow>
             (case fd_paths (fl_table st) fd of
                None \<Rightarrow> (Done (RawHost EBADF), st)
              | Some path \<Rightarrow>
                  (case on_world (fh_opendir H path) st of
                     (Inl e, st) \<Rightarrow> (Done (Translated e), st)
                   | (Inr directory, st) \<Rightarrow>
                       list_entries directory (st\<lparr>fl_table := (fl_table st)
                         \<lparr>directory_streams := (directory_streams (fl_table st))(fd := Some directory)\<rparr>\<rparr>))))"

definition linux_fstat_fd :: "'h file_host \<Rightarrow> int \<Rightarrow> u32 \<Rightarrow> 'h files \<Rightarrow> sysret outcome \<times> 'h files" where
  "linux_fstat_fd H fd guest_status st =
     (case on_world (fh_fstat H fd) st of
        (Inl e, st) \<Rightarrow> (Done (Translated e), st)
      | (Inr status, st) \<Rightarrow>
          (Done (Value 0), st\<lparr>fl_world := (fl_world st)\<lparr>w_mem :=
             linux_stat64_store (w_mem (fl_world st)) guest_status status\<rparr>\<rparr>))"

section \<open>Containment\<close>

text \<open>
  The calls with a path, as the guest issues them.
\<close>

datatype path_call =
    Open int string u32 u32 | Stat int string u32 bool | Mkdir int string u32 | Unlink int string u32
  | Rename int string int string | Access int string u32 | Link int string int string u32
  | Symlink_to "string option" int string | Chmod int string u32 | Utimens int string u32 u32
  | Readlink int string u32 u32

fun run_path_call :: "'h file_host \<Rightarrow> path_call \<Rightarrow> 'h files \<Rightarrow> sysret outcome \<times> 'h files" where
  "run_path_call H (Open d p flags mode) = linux_open_path H d p flags mode"
| "run_path_call H (Stat d p buffer follow) = linux_stat_path H d p buffer follow"
| "run_path_call H (Mkdir d p mode) = linux_mkdirat H d p mode"
| "run_path_call H (Unlink d p flags) = linux_unlinkat H d p flags"
| "run_path_call H (Rename d p e q) = linux_renameat H d p e q"
| "run_path_call H (Access d p mode) = linux_faccessat H d p mode"
| "run_path_call H (Link d p e q flags) = linux_linkat H d p e q flags"
| "run_path_call H (Symlink_to t d p) = linux_symlinkat H t d p"
| "run_path_call H (Chmod d p mode) = linux_chmodat H d p mode"
| "run_path_call H (Utimens d p stamps flags) = linux_utimensat H d p stamps flags"
| "run_path_call H (Readlink d p buffer len) = linux_readlinkat H d p buffer len"

text \<open>
  What a host may do is described by the invariants it keeps. \<open>confined\<close> says that an invariant
  survives the calls that follow links on paths without any, and the calls that do not follow a link
  in the last component on paths without links up to there: \<open>lstat\<close>, \<open>readlink\<close>,
  \<open>mkdir\<close>, \<open>rmdir\<close>, \<open>unlink\<close>, \<open>rename\<close>, \<open>symlink\<close>, \<open>link\<close> where it
  does not follow (POSIX leaves this to the host), and \<open>open\<close> with \<open>O_NOFOLLOW\<close> or with
  \<open>O_CREAT\<close> and \<open>O_EXCL\<close>. That nothing outside the guest's root is changed is such an
  invariant.
\<close>

definition kept :: "('h world \<Rightarrow> bool) \<Rightarrow> ('h world \<Rightarrow> 'a \<times> 'h world) \<Rightarrow> bool" where
  "kept I f \<longleftrightarrow> (\<forall>w. I w \<longrightarrow> I (snd (f w)))"

definition follow_kept :: "'h file_host \<Rightarrow> ('h world \<Rightarrow> bool) \<Rightarrow> string \<Rightarrow> bool" where
  "follow_kept H I p \<longleftrightarrow>
     (\<forall>flags mode. kept I (fh_open H p flags mode)) \<and> kept I (fh_stat H p) \<and> (\<forall>mode. kept I (fh_access H p mode)) \<and>
     (\<forall>mode. kept I (fh_chmod H p mode)) \<and> (\<forall>stamps. kept I (fh_utime H p stamps))"

definition nofollow_kept :: "'h file_host \<Rightarrow> ('h world \<Rightarrow> bool) \<Rightarrow> string \<Rightarrow> bool" where
  "nofollow_kept H I p \<longleftrightarrow>
     (\<forall>flags mode. O_NOFOLLOW \<in> flags \<or> {O_CREAT, O_EXCL} \<subseteq> flags \<longrightarrow> kept I (fh_open H p flags mode)) \<and>
     kept I (fh_lstat H p) \<and> (\<forall>mode. kept I (fh_mkdir H p mode)) \<and> kept I (fh_rmdir H p) \<and> kept I (fh_unlink H p) \<and>
     (\<forall>target. kept I (fh_symlink H target p)) \<and> (\<forall>buffer len. kept I (fh_readlink H p buffer len))"

definition confined ::
  "'h file_host \<Rightarrow> (string \<Rightarrow> host_errno + file_kind) \<Rightarrow> string \<Rightarrow> ('h world \<Rightarrow> bool) \<Rightarrow> bool" where
  "confined H L root I \<longleftrightarrow>
     (\<forall>p allow. contained L root allow False p \<longrightarrow> follow_kept H I p) \<and>
     (\<forall>p allow. contained L root allow True p \<longrightarrow> nofollow_kept H I p) \<and>
     (\<forall>p q allow allow' nofollow. contained L root allow nofollow p \<longrightarrow> contained L root allow' True q \<longrightarrow> kept I (fh_link H p q)) \<and>
     (\<forall>p q allow allow'. contained L root allow True p \<longrightarrow> contained L root allow' True q \<longrightarrow> kept I (fh_rename H p q)) \<and>
     (\<forall>path. kept I (fh_strdup H path)) \<and> kept I (fh_time H) \<and> (\<forall>w m. I w \<longrightarrow> I (w\<lparr>w_mem := m\<rparr>))"

text \<open>The two views of \<open>lstat\<close> agree: what it does not report as a link is none.\<close>

definition lstat_agrees :: "'h file_host \<Rightarrow> 'h world \<Rightarrow> (string \<Rightarrow> host_errno + file_kind) \<Rightarrow> bool" where
  "lstat_agrees H w L \<longleftrightarrow>
     (\<forall>p status w'. fh_lstat H p w = (Inr status, w') \<and> \<not> fh_is_link H (st_mode status) \<longrightarrow> no_link L p)"

lemma contained_follow:
  assumes "contained L root allow True p" "no_link L p"
  shows "contained L root False False p"
proof -
  consider "p = ''/dev/null'' \<or> p = root" | ws where "\<forall>v\<in>set ws. plain v" "p = root @ path_of ws" "link_free L root False (butlast ws)"
    using assms(1) by (auto simp: contained_def)
  then show ?thesis
  proof cases
    case 1
    then show ?thesis by (auto simp: contained_def)
  next
    case (2 ws)
    have "link_free L root False ws"
    proof (cases ws rule: rev_cases)
      case Nil
      then show ?thesis by (simp add: link_free_def)
    next
      case (snoc us v)
      have "p = root @ joined ws" using 2(2) snoc by (simp add: path_of_def)
      then show ?thesis using 2(3) assms(2) snoc by (auto simp: link_free_def le_Suc_eq)
    qed
    then show ?thesis using 2 by (auto simp: contained_def)
  qed
qed

lemma on_world_kept: "kept I f \<Longrightarrow> I (fl_world st) \<Longrightarrow> on_world f st = (r, st') \<Longrightarrow> I (fl_world st')"
  by (auto simp: on_world_def kept_def split: prod.splits)

lemma host_call_kept: "kept I f \<Longrightarrow> I (fl_world st) \<Longrightarrow> I (fl_world (snd (host_call f st)))"
  by (auto simp: host_call_def split: prod.split dest: on_world_kept)

lemma on_world_same:
  assumes "snd (f (fl_world st)) = fl_world st"
  shows "on_world f st = (fst (f (fl_world st)), st)"
  using assms by (cases "f (fl_world st)") (simp add: on_world_def)

lemma resolve_at_inside:
  assumes fs: "static_fs (fh_fs H) (fl_world st) L R"
  obtains r where "resolve_at H d p allow nofollow st = (r, st)"
    "\<And>host. r = Done host \<Longrightarrow> contained L (root_path (fl_paths st)) allow nofollow host"
proof (cases "directory_path d p (fl_table st)")
  case (Inl e)
  then show ?thesis using that [of "Fail e"] by (simp add: resolve_at_def)
next
  case (Inr base)
  let ?f = "case base of Some b \<Rightarrow> guest_path_resolve_at (fh_fs H) (fh_path_max H) (fl_paths st) (Some b) p allow nofollow (fh_path_max H)
    | None \<Rightarrow> if nofollow then guest_path_resolve_nofollow (fh_fs H) (fh_path_max H) (fl_paths st) p (fh_path_max H)
        else guest_path_resolve (fh_fs H) (fh_path_max H) (fl_paths st) p allow (fh_path_max H)"
  have at: "resolve_at H d p allow nofollow st = on_world ?f st"
    using Inr by (simp add: resolve_at_def Let_def split: option.split)
  have same: "snd (?f (fl_world st)) = fl_world st"
    using resolve_world [OF fs] by (simp split: option.split)
  have "contained L (root_path (fl_paths st)) allow nofollow host" if "fst (?f (fl_world st)) = Done host" for host
  proof -
    have run: "?f (fl_world st) = (Done host, fl_world st)" using same that by (metis prod.collapse)
    show ?thesis
      using run resolve_contained [OF fs] resolve_nofollow_contained [OF fs] resolve_at_contained [OF fs]
      by (cases base; cases nofollow) auto
  qed
  then show ?thesis using that at on_world_same [of ?f st, OF same] by metis
qed

lemma with_resolved:
  assumes fs: "static_fs (fh_fs H) (fl_world st) L R" and inv: "I (fl_world st)"
    and use: "\<And>host. contained L (root_path (fl_paths st)) allow nofollow host \<Longrightarrow> I (fl_world (snd (f host st)))"
  shows "I (fl_world (snd (with_path (resolve_at H d p allow nofollow st) f)))"
proof -
  obtain r where r: "resolve_at H d p allow nofollow st = (r, st)"
    "\<And>host. r = Done host \<Longrightarrow> contained L (root_path (fl_paths st)) allow nofollow host"
    using resolve_at_inside [OF fs] by metis
  then show ?thesis using use inv by (cases r) (simp_all add: with_path_def)
qed

lemma confinedD:
  assumes "confined H L root I"
  shows "contained L root allow False p \<Longrightarrow> follow_kept H I p"
    "contained L root allow True p \<Longrightarrow> nofollow_kept H I p"
    "contained L root allow nofollow p \<Longrightarrow> contained L root allow' True q \<Longrightarrow> kept I (fh_link H p q)"
    "contained L root allow True p \<Longrightarrow> contained L root allow' True q \<Longrightarrow> kept I (fh_rename H p q)"
    "kept I (fh_strdup H p)" "kept I (fh_time H)" "I w \<Longrightarrow> I (w\<lparr>w_mem := m\<rparr>)"
  using assms unfolding confined_def by blast+

lemma track_kept:
  assumes "confined H L root I" "I (fl_world st)"
  shows "I (fl_world (track_path H fd p st))"
proof -
  obtain c st1 where c: "on_world (fh_strdup H p) st = (c, st1)" by (cases "on_world (fh_strdup H p) st")
  have "I (fl_world st1)" by (rule on_world_kept [OF confinedD(5) [OF assms(1)] assms(2) c])
  then show ?thesis using assms(2) c by (simp add: track_path_def)
qed

lemma set_times_kept:
  assumes c: "confined H L root I" and inv: "I (fl_world st)" and utime: "\<And>stamps. kept I (fh_utime H p stamps)"
  shows "I (fl_world (snd (set_times H p guest_times status st)))"
proof -
  obtain r st1 where t: "on_world (fh_time H) st = (r, st1)" by (cases "on_world (fh_time H) st")
  have "I (fl_world st1)" by (rule on_world_kept [OF confinedD(6) [OF c] inv t])
  then show ?thesis
    using t host_call_kept [OF utime] by (simp add: set_times_def Let_def split: sum.split option.split)
qed

lemma flag_if_iff: "x \<in> flag_if b f \<longleftrightarrow> b \<and> x = f"
  by (simp add: flag_if_def)

lemma open_nofollow_flags:
  assumes flags: "linux_open_flags defined flags = Some host_flags" and def: "O_NOFOLLOW \<in> defined"
    and how: "flags AND LINUX_O_NOFOLLOW \<noteq> 0 \<or> flags AND (LINUX_O_CREAT OR LINUX_O_EXCL) = LINUX_O_CREAT OR LINUX_O_EXCL"
  shows "O_NOFOLLOW \<in> host_flags \<or> {O_CREAT, O_EXCL} \<subseteq> host_flags"
proof -
  have sets: "O_NOFOLLOW \<in> host_flags \<longleftrightarrow> flags AND LINUX_O_NOFOLLOW \<noteq> 0"
    "O_CREAT \<in> host_flags \<longleftrightarrow> flags AND LINUX_O_CREAT \<noteq> 0" "O_EXCL \<in> host_flags \<longleftrightarrow> flags AND LINUX_O_EXCL \<noteq> 0"
    using flags def by (auto simp: linux_open_flags_def flag_if_iff split: if_split_asm)
  have "flags AND LINUX_O_CREAT = (flags AND (LINUX_O_CREAT OR LINUX_O_EXCL)) AND LINUX_O_CREAT"
    "flags AND LINUX_O_EXCL = (flags AND (LINUX_O_CREAT OR LINUX_O_EXCL)) AND LINUX_O_EXCL"
    by (simp_all add: and.assoc)
  then show ?thesis using how sets by auto
qed

lemma open_kept:
  assumes fs: "static_fs (fh_fs H) (fl_world st) L R" and c: "confined H L (root_path (fl_paths st)) I"
    and inv: "I (fl_world st)" and def: "O_NOFOLLOW \<in> fh_oflags H"
  shows "I (fl_world (snd (linux_open_path H d p flags mode st)))"
proof (cases "linux_open_flags (fh_oflags H) flags")
  case None
  then show ?thesis using inv by (simp add: linux_open_path_def)
next
  case (Some hf)
  let ?n = "flags AND LINUX_O_NOFOLLOW \<noteq> 0 \<or> flags AND (LINUX_O_CREAT OR LINUX_O_EXCL) = LINUX_O_CREAT OR LINUX_O_EXCL"
  have op: "kept I (fh_open H host hf (mode AND 0xFFF))" if "contained L (root_path (fl_paths st)) (O_CREAT \<in> hf) ?n host" for host
  proof (cases ?n)
    case True
    then show ?thesis
      using that confinedD(2) [OF c] open_nofollow_flags [OF Some def True] by (auto simp: nofollow_kept_def)
  next
    case False
    then show ?thesis using that confinedD(1) [OF c] by (auto simp: follow_kept_def)
  qed
  show ?thesis
    unfolding linux_open_path_def Some option.case
  proof (rule with_resolved [where I = I, OF fs inv])
    fix host assume host: "contained L (root_path (fl_paths st)) (O_CREAT \<in> hf) ?n host"
    obtain r st1 where o: "on_world (fh_open H host hf (mode AND 0xFFF)) st = (r, st1)"
      by (cases "on_world (fh_open H host hf (mode AND 0xFFF)) st")
    have "I (fl_world st1)" by (rule on_world_kept [OF op [OF host] inv o])
    then show "I (fl_world (snd (case on_world (fh_open H host hf (mode AND 0xFFF)) st of
        (Inl e, st) \<Rightarrow> (Done (Translated e), st) | (Inr fd, st) \<Rightarrow> (Done (Value fd), track_path H fd host st))))"
      using track_kept [OF c] unfolding o by (simp split: sum.split)
  qed
qed

lemma stat_kept:
  assumes fs: "static_fs (fh_fs H) (fl_world st) L R" and c: "confined H L (root_path (fl_paths st)) I" and inv: "I (fl_world st)"
  shows "I (fl_world (snd (linux_stat_path H d p buffer follow st)))"
  unfolding linux_stat_path_def
proof (rule with_resolved [where I = I, OF fs inv])
  fix host assume host: "contained L (root_path (fl_paths st)) False (\<not> follow) host"
  let ?f = "if follow then fh_stat H host else fh_lstat H host"
  have k: "kept I ?f"
    using host confinedD(1,2) [OF c] by (cases follow) (auto simp: follow_kept_def nofollow_kept_def)
  obtain r st1 where o: "on_world ?f st = (r, st1)" by (cases "on_world ?f st")
  have "I (fl_world st1)" by (rule on_world_kept [OF k inv o])
  then show "I (fl_world (snd (case on_world ?f st of
      (Inl e, st) \<Rightarrow> (Done (Translated e), st)
    | (Inr status, st) \<Rightarrow> (Done (Value 0), st\<lparr>fl_world := (fl_world st)\<lparr>w_mem :=
        linux_stat64_store (w_mem (fl_world st)) buffer status\<rparr>\<rparr>))))"
    using confinedD(7) [OF c] unfolding o by (simp split: sum.split)
qed

lemma one_path_kept:
  assumes fs: "static_fs (fh_fs H) (fl_world st) L R" and inv: "I (fl_world st)"
    and k: "\<And>a. contained L (root_path (fl_paths st)) allow nofollow a \<Longrightarrow> kept I (f a)"
  shows "I (fl_world (snd (with_path (resolve_at H d p allow nofollow st) (\<lambda>a. host_call (f a)))))"
  by (rule with_resolved [where I = I, OF fs inv], rule host_call_kept [OF k inv])

lemma two_paths_kept:
  assumes fs: "static_fs (fh_fs H) (fl_world st) L R" and inv: "I (fl_world st)"
    and k: "\<And>a b. contained L (root_path (fl_paths st)) allow nofollow a \<Longrightarrow>
      contained L (root_path (fl_paths st)) True True b \<Longrightarrow> kept I (f a b)"
  shows "I (fl_world (snd (with_path (resolve_at H d p allow nofollow st)
    (\<lambda>a st. with_path (resolve_at H e q True True st) (\<lambda>b. host_call (f a b))))))"
  by (rule with_resolved [where I = I, OF fs inv], rule with_resolved [where I = I, OF fs inv], rule host_call_kept [OF k inv])

lemma utimens_kept:
  assumes fs: "static_fs (fh_fs H) (fl_world st) L R" and c: "confined H L (root_path (fl_paths st)) I" and inv: "I (fl_world st)"
    and agree: "lstat_agrees H (fl_world st) L" and set: "stamps \<noteq> 0 \<or> flags AND LINUX_AT_SYMLINK_NOFOLLOW = 0"
  shows "I (fl_world (snd (linux_utimensat H d p stamps flags st)))"
proof (cases "flags AND NOT LINUX_AT_SYMLINK_NOFOLLOW \<noteq> 0")
  case True
  then show ?thesis using inv by (simp add: linux_utimensat_def Let_def)
next
  case False
  let ?n = "flags AND LINUX_AT_SYMLINK_NOFOLLOW \<noteq> 0"
  show ?thesis
    unfolding linux_utimensat_def Let_def if_not_P [OF False]
  proof (rule with_resolved [where I = I, OF fs inv])
    fix host assume host: "contained L (root_path (fl_paths st)) False ?n host"
    let ?f = "if ?n then fh_lstat H host else fh_stat H host"
    have k: "kept I ?f" using host confinedD(1,2) [OF c] by (cases ?n) (auto simp: follow_kept_def nofollow_kept_def)
    obtain r st1 where o: "on_world ?f st = (r, st1)" by (cases "on_world ?f st")
    have i1: "I (fl_world st1)" by (rule on_world_kept [OF k inv o])
    have follow: "kept I (fh_utime H host x)" if "\<not> ?n" for x
      using host that confinedD(1) [OF c] by (auto simp: follow_kept_def)
    have utime: "kept I (fh_utime H host x)" if r: "r = Inr status" and l: "\<not> (?n \<and> fh_is_link H (st_mode status))" for status x
    proof (cases ?n)
      case True
      then obtain w' where "fh_lstat H host (fl_world st) = (Inr status, w')"
        using o r by (auto simp: on_world_def split: prod.splits)
      then have "no_link L host" using agree l True unfolding lstat_agrees_def by blast
      then have "contained L (root_path (fl_paths st)) False False host" using contained_follow host True by metis
      then show ?thesis using confinedD(1) [OF c] by (auto simp: follow_kept_def)
    qed (rule follow)
    show "I (fl_world (snd (if stamps = 0 then host_call (fh_utime H host None) st
      else case on_world ?f st of
          (Inl e, st) \<Rightarrow> (Done (Translated e), st)
        | (Inr status, st) \<Rightarrow>
            if ?n \<and> fh_is_link H (st_mode status) then (Done (LinuxErr LINUX_EOPNOTSUPP), st)
            else set_times H host stamps status st)))"
    proof (cases "stamps = 0")
      case True
      then show ?thesis using set host_call_kept [OF follow inv] by simp
    next
      case False
      then show ?thesis
        unfolding o using i1 set_times_kept [OF c i1 utime] by (cases r) simp_all
    qed
  qed
qed

text \<open>
  C6 (safety). No call with a path reaches outside the guest's root. Whatever invariant of the host
  survives calls on paths that stay below the root, as described by \<open>confined\<close>, survives every path
  call of the guest, for every directory descriptor, path and flag, in every state of the tables. Two
  exceptions are stated: the host must define \<open>O_NOFOLLOW\<close>, and \<open>utimensat\<close> must not be asked
  for the current time without following links.
\<close>

theorem path_calls_contained:
  assumes fs: "static_fs (fh_fs H) (fl_world st) L R" and c: "confined H L (root_path (fl_paths st)) I"
    and inv: "I (fl_world st)" and def: "O_NOFOLLOW \<in> fh_oflags H" and agree: "lstat_agrees H (fl_world st) L"
    and call: "\<forall>d p flags. call = Utimens d p 0 flags \<longrightarrow> flags AND LINUX_AT_SYMLINK_NOFOLLOW = 0"
  shows "I (fl_world (snd (run_path_call H call st)))"
proof -
  note one = one_path_kept [where I = I, OF fs inv]
  have f: "contained L (root_path (fl_paths st)) allow False p \<Longrightarrow> follow_kept H I p" for allow p by (rule confinedD(1) [OF c])
  have n: "contained L (root_path (fl_paths st)) allow True p \<Longrightarrow> nofollow_kept H I p" for allow p by (rule confinedD(2) [OF c])
  show ?thesis
  proof (cases call)
    case (Open d p flags mode)
    then show ?thesis using open_kept [OF fs c inv def] by simp
  next
    case (Stat d p buffer follow)
    then show ?thesis using stat_kept [OF fs c inv] by simp
  next
    case (Mkdir d p mode)
    then show ?thesis by (auto simp: linux_mkdirat_def nofollow_kept_def intro!: one dest: n)
  next
    case (Unlink d p flags)
    then show ?thesis using inv by (auto simp: linux_unlinkat_def nofollow_kept_def intro!: one dest: n)
  next
    case (Rename d p e q)
    then show ?thesis using two_paths_kept [where I = I, OF fs inv, OF confinedD(4) [OF c]] by (simp add: linux_renameat_def)
  next
    case (Access d p mode)
    then show ?thesis using inv by (auto simp: linux_faccessat_def follow_kept_def intro!: one dest: f)
  next
    case (Link d p e q flags)
    then show ?thesis using inv two_paths_kept [where I = I, OF fs inv, OF confinedD(3) [OF c]] by (simp add: linux_linkat_def)
  next
    case (Symlink_to t d p)
    then show ?thesis
      using inv by (cases t) (auto simp: linux_symlinkat_def nofollow_kept_def intro!: one dest: n)
  next
    case (Chmod d p mode)
    then show ?thesis by (auto simp: linux_chmodat_def follow_kept_def intro!: one dest: f)
  next
    case (Utimens d p stamps flags)
    then show ?thesis using utimens_kept [OF fs c inv agree] call by auto
  next
    case (Readlink d p buffer len)
    then show ?thesis by (auto simp: linux_readlinkat_def nofollow_kept_def intro!: one dest: n)
  qed
qed

section \<open>Directory listings\<close>

text \<open>
  A directory stream of the host that delivers \<open>entries\<close>: \<open>position\<close> is where it stands and
  \<open>cookie\<close> how it names places. Reading advances by one, \<open>telldir\<close> looks, \<open>seekdir\<close> goes to
  a place named before; guest memory is not touched.
\<close>

definition dir_stream ::
  "'h file_host \<Rightarrow> int \<Rightarrow> dirent list \<Rightarrow> ('h \<Rightarrow> nat) \<Rightarrow> (nat \<Rightarrow> int) \<Rightarrow> bool" where
  "dir_stream H directory entries position cookie \<longleftrightarrow>
     (\<forall>w. fh_telldir H directory w = (cookie (position (w_host w)), w)) \<and>
     (\<forall>w. \<exists>w'. w_mem w' = w_mem w \<and>
        (if position (w_host w) < length entries
         then fh_readdir H directory w = (Inr (entries ! position (w_host w)), w') \<and> position (w_host w') = Suc (position (w_host w))
         else fh_readdir H directory w = (Inl NoError, w') \<and> position (w_host w') = position (w_host w))) \<and>
     (\<forall>w k. w_mem (fh_seekdir H directory (cookie k) w) = w_mem w \<and>
        position (w_host (fh_seekdir H directory (cookie k) w)) = k)"

text \<open>How a guest reads the records of a buffer.\<close>

definition char_at :: "u8 \<Rightarrow> char" where
  "char_at b = char_of (unat b)"

lemma char_at_byte: "char_at (byte_of c) = c"
proof -
  have "unat (byte_of c) = of_char c"
    using nat_of_char_less_256 [of c] by (simp add: byte_of_def unat_of_nat)
  then show ?thesis by (simp add: char_at_def)
qed

function parse_dents :: "u8 list \<Rightarrow> (u64 \<times> u64 \<times> string) list" where
  "parse_dents bs =
     (let n = unat (of_le (take 2 (drop 16 bs)) :: 16 word) in
      if n = 0 \<or> length bs < n then []
      else (of_le (take 8 bs), of_le (take 8 (drop 8 bs)),
             map char_at (takeWhile (\<lambda>b. b \<noteq> 0) (drop 19 (take n bs)))) # parse_dents (drop n bs))"
  by pat_completeness auto
termination
  by (relation "measure length") (auto simp: Let_def)

declare parse_dents.simps [simp del] dents_loop.simps [simp del]

definition name_ok :: "dirent \<Rightarrow> bool" where
  "name_ok e \<longleftrightarrow> CHR 0x00 \<notin> set (d_name e) \<and> length (d_name e) \<le> 255"

lemma length_dent: "length (dent_bytes e k) = record_length (d_name e)"
  by (simp add: dent_bytes_def record_length_def Let_def)

lemma record_length_bounds:
  assumes "name_ok e"
  shows "24 \<le> record_length (d_name e) \<and> record_length (d_name e) \<le> 280"
proof -
  have "length (d_name e) \<le> 255" using assms by (simp add: name_ok_def)
  then show ?thesis unfolding record_length_def by presburger
qed

lemma parse_dent:
  assumes "name_ok e"
  shows "parse_dents (dent_bytes e k @ bs) = (of_int (d_ino e), of_int k, d_name e) # parse_dents bs"
proof -
  let ?n = "record_length (d_name e)"
  have n: "24 \<le> ?n" "?n \<le> 280" "20 + length (d_name e) \<le> ?n"
    using record_length_bounds [OF assms] by (auto simp: record_length_def)
  have u: "unat (of_nat ?n :: 16 word) = ?n" using n by (simp add: unat_of_nat)
  let ?pad = "replicate (?n - (19 + length (d_name e))) (0 :: u8)"
  have form: "dent_bytes e k = to_le 8 (of_int (d_ino e) :: u64) @ to_le 8 (of_int k :: u64) @
      to_le 2 (of_nat ?n :: 16 word) @ [0] @ map byte_of (d_name e) @ ?pad"
    by (simp add: dent_bytes_def Let_def)
  have len: "take 2 (drop 16 (dent_bytes e k @ bs)) = to_le 2 (of_nat ?n :: 16 word)" by (simp add: form)
  have "of_le (to_le 2 (of_nat ?n :: 16 word)) = (of_nat ?n :: 16 word)" by (simp add: of_le_to_le take_bit_word_eq_self)
  then have m: "unat (of_le (take 2 (drop 16 (dent_bytes e k @ bs))) :: 16 word) = ?n" unfolding len by (simp only: u)
  have nz: "byte_of c \<noteq> 0" if "c \<in> set (d_name e)" for c
  proof
    assume "byte_of c = 0"
    then have "c = CHR 0x00" using char_at_byte [of c] by (simp add: char_at_def char_of_def)
    then show False using that assms by (simp add: name_ok_def)
  qed
  have name: "takeWhile (\<lambda>b. b \<noteq> 0) (drop 19 (take ?n (dent_bytes e k @ bs))) = map byte_of (d_name e)"
  proof -
    have "take ?n (dent_bytes e k @ bs) = dent_bytes e k" using length_dent [of e k] by simp
    then have "drop 19 (take ?n (dent_bytes e k @ bs)) = map byte_of (d_name e) @ ?pad" by (simp add: form)
    moreover have "?pad = 0 # replicate (?n - (20 + length (d_name e))) 0" using n(3) by (simp flip: replicate_Suc) 
    ultimately have "drop 19 (take ?n (dent_bytes e k @ bs)) =
        map byte_of (d_name e) @ 0 # replicate (?n - (20 + length (d_name e))) 0" by simp
    then show ?thesis using nz by (simp only:) (subst takeWhile_append2, auto)
  qed
  have rest: "drop ?n (dent_bytes e k @ bs) = bs" using length_dent [of e k] by simp
  have ge: "\<not> length (dent_bytes e k @ bs) < ?n" using length_dent [of e k] by simp
  have "parse_dents (dent_bytes e k @ bs) = (of_le (take 8 (dent_bytes e k @ bs)), of_le (take 8 (drop 8 (dent_bytes e k @ bs))),
      map char_at (map byte_of (d_name e))) # parse_dents bs"
    using n(1) ge unfolding parse_dents.simps [of "dent_bytes e k @ bs"] Let_def m name rest by simp
  also have "of_le (take 8 (dent_bytes e k @ bs)) = (of_int (d_ino e) :: u64)" by (simp add: form)
  also have "of_le (take 8 (drop 8 (dent_bytes e k @ bs))) = (of_int k :: u64)" by (simp add: form)
  also have "map char_at (map byte_of (d_name e)) = d_name e" by (simp add: comp_def char_at_byte)
  finally show ?thesis .
qed

lemma dents_loop_step:
  assumes law: "dir_stream H d es position cookie" and i: "i = position (w_host w)"
  obtains w1 where "w_mem w1 = w_mem w"
    "i < length es \<Longrightarrow> position (w_host w1) = Suc i \<and> dents_loop H d buffer c u w =
      (if record_length (d_name (es ! i)) > c - u then ((NoError, u), fh_seekdir H d (cookie i) w1)
       else dents_loop H d buffer c (u + record_length (d_name (es ! i)))
         (w1\<lparr>w_mem := store_bytes (w_mem w) (buffer + of_nat u) (dent_bytes (es ! i) (cookie (Suc i)))\<rparr>))"
    "\<not> i < length es \<Longrightarrow> position (w_host w1) = i \<and> dents_loop H d buffer c u w = ((NoError, u), w1)"
proof -
  have tell: "fh_telldir H d v = (cookie (position (w_host v)), v)" for v using law by (simp add: dir_stream_def)
  obtain w1 where w1: "w_mem w1 = w_mem w"
    "if i < length es then fh_readdir H d w = (Inr (es ! i), w1) \<and> position (w_host w1) = Suc i
     else fh_readdir H d w = (Inl NoError, w1) \<and> position (w_host w1) = i"
    using law unfolding dir_stream_def i by blast
  show ?thesis
  proof (rule that [OF w1(1)])
    assume "i < length es"
    then show "position (w_host w1) = Suc i \<and> dents_loop H d buffer c u w =
      (if record_length (d_name (es ! i)) > c - u then ((NoError, u), fh_seekdir H d (cookie i) w1)
       else dents_loop H d buffer c (u + record_length (d_name (es ! i)))
         (w1\<lparr>w_mem := store_bytes (w_mem w) (buffer + of_nat u) (dent_bytes (es ! i) (cookie (Suc i)))\<rparr>))"
      using w1 i by (subst dents_loop.simps) (simp add: tell Let_def)
  next
    assume "\<not> i < length es"
    then show "position (w_host w1) = i \<and> dents_loop H d buffer c u w = ((NoError, u), w1)"
      using w1 i by (subst dents_loop.simps) (simp add: tell)
  qed
qed

abbreviation listed :: "dirent list \<Rightarrow> (nat \<Rightarrow> int) \<Rightarrow> nat \<Rightarrow> nat \<Rightarrow> u8 list" where
  "listed es cookie i j \<equiv> concat (map (\<lambda>k. dent_bytes (es ! k) (cookie (Suc k))) [i..<j])"

lemma dents_loop_exact:
  assumes law: "dir_stream H d es position cookie" and c: "c < 4294967296"
  shows "u \<le> c \<Longrightarrow> i = position (w_host w) \<Longrightarrow> i \<le> length es \<Longrightarrow>
    \<exists>j v w'. dents_loop H d buffer c u w = ((NoError, v), w') \<and> i \<le> j \<and> j \<le> length es \<and> v \<le> c \<and>
      v = u + length (listed es cookie i j) \<and> position (w_host w') = j \<and>
      load_bytes (w_mem w') buffer v = load_bytes (w_mem w) buffer u @ listed es cookie i j \<and>
      (j < length es \<longrightarrow> record_length (d_name (es ! j)) > c - v) \<and>
      (\<forall>x. v \<le> unat (x - buffer) \<longrightarrow> w_mem w' x = w_mem w x)"
proof (induction "length es - i" arbitrary: i u w)
  case 0
  then have end_: "\<not> i < length es" by simp
  obtain w1 where "w_mem w1 = w_mem w" "position (w_host w1) = i" "dents_loop H d buffer c u w = ((NoError, u), w1)"
    using dents_loop_step [OF law 0(3), of buffer c u] end_ by metis
  then show ?case using 0 by (intro exI [of _ i] exI [of _ u] exI [of _ w1]) simp
next
  case (Suc k)
  then have lt: "i < length es" by simp
  let ?n = "record_length (d_name (es ! i))" and ?b = "dent_bytes (es ! i) (cookie (Suc i))"
  obtain w1 where w1: "w_mem w1 = w_mem w" "position (w_host w1) = Suc i" and
    run: "dents_loop H d buffer c u w =
      (if ?n > c - u then ((NoError, u), fh_seekdir H d (cookie i) w1)
       else dents_loop H d buffer c (u + ?n) (w1\<lparr>w_mem := store_bytes (w_mem w) (buffer + of_nat u) ?b\<rparr>))"
    using dents_loop_step [OF law Suc(4), of buffer c u] lt by metis
  show ?case
  proof (cases "?n > c - u")
    case True
    have "w_mem (fh_seekdir H d (cookie i) w1) = w_mem w1" "position (w_host (fh_seekdir H d (cookie i) w1)) = i"
      using law by (simp_all add: dir_stream_def)
    then show ?thesis
      using run True w1 Suc.prems lt by (intro exI [of _ i] exI [of _ u] exI [of _ "fh_seekdir H d (cookie i) w1"]) simp
  next
    case False
    let ?w = "w1\<lparr>w_mem := store_bytes (w_mem w) (buffer + of_nat u) ?b\<rparr>"
    have fits: "u + ?n \<le> c" using False Suc.prems(1) by simp
    have pre: "k = length es - Suc i" "Suc i = position (w_host ?w)" "Suc i \<le> length es" using Suc(2) lt w1(2) by simp_all
    obtain j v w' where IH: "dents_loop H d buffer c (u + ?n) ?w = ((NoError, v), w')" "Suc i \<le> j" "j \<le> length es" "v \<le> c"
      "v = u + ?n + length (listed es cookie (Suc i) j)" "position (w_host w') = j"
      "load_bytes (w_mem w') buffer v = load_bytes (w_mem ?w) buffer (u + ?n) @ listed es cookie (Suc i) j"
      "j < length es \<longrightarrow> record_length (d_name (es ! j)) > c - v"
      "\<forall>x. v \<le> unat (x - buffer) \<longrightarrow> w_mem w' x = w_mem ?w x"
      using Suc(1) [OF pre(1) fits pre(2,3)] by blast
    have split: "listed es cookie i j = ?b @ listed es cookie (Suc i) j" using IH(2) by (simp add: upt_conv_Cons)
    have "load_bytes (w_mem ?w) buffer (u + ?n) = load_bytes (w_mem w) buffer u @ ?b"
      using load_bytes_extend [of u ?b "w_mem w" buffer] fits c by (simp add: length_dent)
    moreover have "w_mem w' x = w_mem w x" if x: "v \<le> unat (x - buffer)" for x
    proof -
      have le: "u + length ?b \<le> unat (x - buffer)" using IH(5) x by (simp add: length_dent)
      have uu: "unat (of_nat u :: u32) = u" using fits c by (simp add: unat_of_nat)
      then have "of_nat u \<le> x - buffer" using le by (simp add: word_le_nat_alt)
      then have "unat (x - buffer - of_nat u) = unat (x - buffer) - u" using uu by (simp add: unat_sub)
      then have "unat (x - (buffer + of_nat u)) = unat (x - buffer) - u" by (simp add: algebra_simps)
      then have "store_bytes (w_mem w) (buffer + of_nat u) ?b x = w_mem w x" using le by (intro store_bytes_outside) simp
      then show ?thesis using IH(9) x by simp
    qed
    ultimately show ?thesis
      using run False IH split by (intro exI [of _ j] exI [of _ v] exI [of _ w']) (simp add: length_dent)
  qed
qed

lemma parse_listed:
  assumes "\<forall>e\<in>set es. name_ok e"
  shows "j \<le> length es \<Longrightarrow> parse_dents (listed es cookie i j) =
    map (\<lambda>k. (of_int (d_ino (es ! k)), of_int (cookie (Suc k)), d_name (es ! k))) [i..<j]"
proof (induction "j - i" arbitrary: i)
  case 0
  then show ?case by (subst parse_dents.simps) simp
next
  case (Suc n)
  then have lt: "i < j" and IH: "parse_dents (listed es cookie (Suc i) j) =
      map (\<lambda>k. (of_int (d_ino (es ! k)), of_int (cookie (Suc k)), d_name (es ! k))) [Suc i..<j]"
    by simp_all
  have "name_ok (es ! i)" using lt Suc.prems assms by simp
  then show ?case using lt IH parse_dent by (simp add: upt_conv_Cons)
qed

text \<open>
  C26 (roundtrip). Listing a directory loses and invents nothing. On a stream that stands at entry
  \<open>i\<close>, \<open>getdents64\<close> fills the buffer with the records of the entries from \<open>i\<close> on, as many as
  fit, and leaves the stream behind the last of them, so that the next call continues there. Read
  the way a guest reads it, the buffer gives back numbers, offsets and names; nothing behind the
  records is written. With a buffer for the longest name every call before the end delivers something.
\<close>

theorem getdents_roundtrip:
  assumes law: "dir_stream H d es position cookie" and names: "\<forall>e\<in>set es. name_ok e"
    and fd: "tracked fd" "directory_streams (fl_table st) fd = Some d"
    and i: "i = position (w_host (fl_world st))" "i \<le> length es"
    and run: "linux_getdents64 H fd buffer capacity st = (r, st')"
  shows "\<exists>j n. r = Done (Value (int n)) \<and> i \<le> j \<and> j \<le> length es \<and> n \<le> unat capacity \<and>
    position (w_host (fl_world st')) = j \<and>
    parse_dents (load_bytes (w_mem (fl_world st')) buffer n) =
      map (\<lambda>k. (of_int (d_ino (es ! k)), of_int (cookie (Suc k)), d_name (es ! k))) [i..<j] \<and>
    (j < length es \<longrightarrow> record_length (d_name (es ! j)) > unat capacity - n) \<and>
    (280 \<le> unat capacity \<and> i < length es \<longrightarrow> i < j) \<and>
    (\<forall>x. n \<le> unat (x - buffer) \<longrightarrow> w_mem (fl_world st') x = w_mem (fl_world st) x) \<and>
    fl_table st' = fl_table st"
proof -
  obtain j n w' where l: "dents_loop H d buffer (unat capacity) 0 (fl_world st) = ((NoError, n), w')"
    "i \<le> j" "j \<le> length es" "n \<le> unat capacity" "n = length (listed es cookie i j)" "position (w_host w') = j"
    "load_bytes (w_mem w') buffer n = listed es cookie i j"
    "j < length es \<longrightarrow> record_length (d_name (es ! j)) > unat capacity - n"
    "\<forall>x. n \<le> unat (x - buffer) \<longrightarrow> w_mem w' x = w_mem (fl_world st) x"
    using dents_loop_exact [OF law unat_u32_less, of 0 capacity i "fl_world st" buffer] i
    by (auto simp: load_bytes_def)
  have st': "r = Done (Value (int n))" "st' = st\<lparr>fl_world := w'\<rparr>"
    using run fd l(1) by (auto simp: linux_getdents64_def on_world_def Let_def)
  have progress: "i < j" if "280 \<le> unat capacity" "i < length es"
  proof (rule ccontr)
    assume "\<not> i < j"
    then have "j = i" "n = 0" using l(2,5) by simp_all
    then show False using l(8) that names record_length_bounds [of "es ! i"] by simp
  qed
  show ?thesis
    using st' l progress parse_listed [OF names l(3), of cookie i] by (intro exI [of _ j] exI [of _ n]) simp
qed

section \<open>Witnesses\<close>

text \<open>
  A host that records the paths it is asked to touch and holds one directory with two entries. In its
  file system \<open>/g/up\<close> is a link out of the root.
\<close>

type_synonym demo_state = "nat \<times> string list"

definition demo_links :: "string \<Rightarrow> host_errno + file_kind" where
  "demo_links p = Inr (if p = ''/g/up'' then Symlink else Directory)"

definition demo_entries :: "dirent list" where
  "demo_entries = [\<lparr>d_ino = 7, d_name = ''a''\<rparr>, \<lparr>d_ino = 8, d_name = ''bc''\<rparr>]"

definition touch :: "string list \<Rightarrow> demo_state world \<Rightarrow> (host_errno + int) \<times> demo_state world" where
  "touch ps w = (Inr 0, w\<lparr>w_host := (fst (w_host w), ps @ snd (w_host w))\<rparr>)"

definition demo_stat :: host_stat where
  "demo_stat = \<lparr>st_dev = 0, st_ino = 0, st_mode = 0, st_nlink = 1, st_uid = 0, st_gid = 0, st_rdev = 0, st_size = 0,
     st_blksize = 512, st_blocks = 0, st_atime = 0, st_mtime = 0, st_ctime = 0\<rparr>"

definition demo_files :: "demo_state file_host" where
  "demo_files = \<lparr>
     fh_fs = \<lparr>fs_lstat = (\<lambda>p w. (demo_links p, w)), fs_stat = (\<lambda>p w. (Inr Directory, w)),
       fs_readlink = (\<lambda>p n w. (Inr ''../../etc'', w)), fs_realpath = (\<lambda>p w. (Inr p, w))\<rparr>,
     fh_path_max = 1024, fh_oflags = {O_NOFOLLOW}, fh_off_t = (\<lambda>v. v), fh_is_link = (\<lambda>mode. mode = 1),
     fh_strdup = (\<lambda>p w. (Some p, w)), fh_open = (\<lambda>p fl m. touch [p]), fh_close = (\<lambda>fd w. (Inr 0, w)),
     fh_stat = (\<lambda>p w. (Inr demo_stat, w)),
     fh_lstat = (\<lambda>p w. (Inr (demo_stat\<lparr>st_mode := if p = ''/g/up'' then 1 else 0\<rparr>), w)),
     fh_fstat = (\<lambda>fd w. (Inr demo_stat, w)),
     fh_mkdir = (\<lambda>p m. touch [p]), fh_rmdir = (\<lambda>p. touch [p]), fh_unlink = (\<lambda>p. touch [p]),
     fh_rename = (\<lambda>p q. touch [p, q]), fh_access = (\<lambda>p m. touch [p]), fh_link = (\<lambda>p q. touch [p, q]),
     fh_symlink = (\<lambda>t p. touch [p]), fh_chmod = (\<lambda>p m. touch [p]), fh_utime = (\<lambda>p t. touch [p]),
     fh_time = (\<lambda>w. (Inr 0, w)), fh_readlink = (\<lambda>p b n. touch [p]),
     fh_opendir = (\<lambda>p w. (Inr 1, w)), fh_closedir = (\<lambda>k w. w), fh_telldir = (\<lambda>k w. (int (fst (w_host w)), w)),
     fh_seekdir = (\<lambda>k x w. w\<lparr>w_host := (nat x, snd (w_host w))\<rparr>),
     fh_readdir = (\<lambda>k w. if fst (w_host w) < length demo_entries
       then (Inr (demo_entries ! fst (w_host w)), w\<lparr>w_host := (Suc (fst (w_host w)), snd (w_host w))\<rparr>)
       else (Inl NoError, w)),
     fh_dup = (\<lambda>fd w. (Inl EMFILE, w)), fh_dup2 = (\<lambda>s d w. (Inl EMFILE, w)), fh_dupfd = (\<lambda>s d w. (Inl EMFILE, w)),
     fh_getfd = (\<lambda>fd w. (Inr 0, w)), fh_setfd = (\<lambda>fd fl w. (Inr 0, w)), fh_getfl = (\<lambda>fd w. (Inr {}, w)),
     fh_setfl = (\<lambda>fd fl w. (Inr 0, w)), fh_lock = (\<lambda>fd c k w. (Inr k, w)), fh_pipe = (\<lambda>w. (Inl EMFILE, w)),
     fh_read = (\<lambda>fd p n w. (Inr 0, w)), fh_write = (\<lambda>fd bs w. (Inr (int (length bs)), w))\<rparr>"

definition demo_table :: fd_table where
  "demo_table = \<lparr>directory_streams = (\<lambda>fd. if fd = 5 then Some 1 else None), fd_paths = (\<lambda>_. None), eventfd_write_peers = (\<lambda>_. 0)\<rparr>"

definition demo_state :: "demo_state files" where
  "demo_state = \<lparr>fl_world = \<lparr>w_host = (0, []), w_mem = (\<lambda>_. 0)\<rparr>, fl_table = demo_table,
     fl_paths = \<lparr>root_path = ''/g'', guest_cwd = ''/''\<rparr>\<rparr>"

definition touched_inside :: "demo_state world \<Rightarrow> bool" where
  "touched_inside w \<longleftrightarrow> (\<forall>p\<in>set (snd (w_host w)). p = ''/dev/null'' \<or> take 2 p = ''/g'')"

lemma contained_prefix: "contained L ''/g'' allow nofollow p \<Longrightarrow> p = ''/dev/null'' \<or> take 2 p = ''/g''"
  by (auto simp: contained_def)

lemma demo_confined: "confined demo_files L ''/g'' touched_inside"
  unfolding confined_def follow_kept_def nofollow_kept_def kept_def
  by (auto simp: demo_files_def touch_def touched_inside_def dest!: contained_prefix)

theorem path_calls_contained_witness:
  "touched_inside (fl_world (snd (run_path_call demo_files (Mkdir (-100) ''up/x'' 0x1FF) demo_state))) \<and>
   run_path_call demo_files (Mkdir (-100) ''up/x'' 0x1FF) demo_state =
     (Done (Value 0), demo_state\<lparr>fl_world := \<lparr>w_host = (0, [''/g/etc/x'']), w_mem = (\<lambda>_. 0)\<rparr>\<rparr>)"
proof
  have "static_fs (fh_fs demo_files) (fl_world demo_state) demo_links (\<lambda>p n. Inr ''../../etc'')"
    by (simp add: static_fs_def demo_files_def)
  moreover have "confined demo_files demo_links (root_path (fl_paths demo_state)) touched_inside"
    using demo_confined by (simp add: demo_state_def)
  moreover have "touched_inside (fl_world demo_state)" by (simp add: touched_inside_def demo_state_def)
  moreover have "O_NOFOLLOW \<in> fh_oflags demo_files" by (simp add: demo_files_def)
  moreover have "lstat_agrees demo_files (fl_world demo_state) demo_links"
    by (simp add: lstat_agrees_def no_link_def demo_links_def demo_files_def)
  ultimately show "touched_inside (fl_world (snd (run_path_call demo_files (Mkdir (-100) ''up/x'' 0x1FF) demo_state)))"
    by (rule path_calls_contained) simp
next
  show "run_path_call demo_files (Mkdir (-100) ''up/x'' 0x1FF) demo_state =
     (Done (Value 0), demo_state\<lparr>fl_world := \<lparr>w_host = (0, [''/g/etc/x'']), w_mem = (\<lambda>_. 0)\<rparr>\<rparr>)"
    by (simp add: linux_mkdirat_def resolve_at_def directory_path_def with_path_def host_call_def on_world_def
        linux_host_result_def touch_def demo_files_def demo_state_def demo_links_def guest_path_resolve_nofollow_def
        normalize_guest_path_def Let_def resolve_guest_device_def resolve_guest_symlinks_def resolve_walk.simps
        link_target_path_def finish_resolved_def split_leaf_def)
qed

lemma demo_stream: "dir_stream demo_files 1 demo_entries fst int"
  unfolding dir_stream_def
proof (intro conjI allI)
  fix w :: "demo_state world"
  show "\<exists>w'. w_mem w' = w_mem w \<and>
    (if fst (w_host w) < length demo_entries
     then fh_readdir demo_files 1 w = (Inr (demo_entries ! fst (w_host w)), w') \<and> fst (w_host w') = Suc (fst (w_host w))
     else fh_readdir demo_files 1 w = (Inl NoError, w') \<and> fst (w_host w') = fst (w_host w))"
    by (rule exI [of _ "snd (fh_readdir demo_files 1 w)"]) (simp add: demo_files_def)
qed (simp_all add: demo_files_def)

theorem getdents_roundtrip_witness:
  "\<exists>n st'. linux_getdents64 demo_files 5 512 40 demo_state = (Done (Value (int n)), st') \<and>
     parse_dents (load_bytes (w_mem (fl_world st')) 512 n) = [(7, 1, ''a'')] \<and> fst (w_host (fl_world st')) = 1"
proof -
  obtain r st' where run: "linux_getdents64 demo_files 5 512 40 demo_state = (r, st')"
    by (cases "linux_getdents64 demo_files 5 512 40 demo_state")
  have names: "\<forall>e\<in>set demo_entries. name_ok e" by (simp add: demo_entries_def name_ok_def)
  have j1: "fst (w_host (fl_world st')) = 1"
    using run by (simp add: linux_getdents64_def tracked_def demo_state_def demo_table_def on_world_def dents_loop.simps
      demo_files_def demo_entries_def record_length_def Let_def) auto
  obtain j n where "r = Done (Value (int n))" "fst (w_host (fl_world st')) = j"
    "parse_dents (load_bytes (w_mem (fl_world st')) 512 n) =
      map (\<lambda>k. (of_int (d_ino (demo_entries ! k)), of_int (int (Suc k)), d_name (demo_entries ! k))) [0..<j]"
    using getdents_roundtrip [OF demo_stream names _ _ _ _ run, of 0]
    by (auto simp: tracked_def demo_state_def demo_table_def)
  then show ?thesis using run j1 by (auto simp: demo_entries_def)
qed

end
