(* ===== verification/Descriptor_Table.thy ===== *)
theory Descriptor_Table
  imports Linux_Files
begin

text \<open>
  The descriptor tables of \<open>linux_syscall.c\<close> against the descriptors of the host. \<open>Linux_Files\<close>
  models the calls; here the recorded paths, the directory streams and the writing ends behind wake
  descriptors are shown to follow what the host has open, over every sequence of calls of a guest that
  leaves the emulator's own descriptors alone, and what happens to a guest that does not.
\<close>

unbundle bit_operations_syntax

section \<open>Descriptors and their paths\<close>

text \<open>
  What the host promises of descriptors. \<open>names\<close> tells of every number whether it is open and, if it
  was opened by a path, which; \<open>slot\<close> is the descriptor a directory stream occupies. New descriptors
  get numbers that were not open, duplicates share the path, and every other call leaves the
  descriptors alone.
\<close>

type_synonym open_files = "int \<Rightarrow> string option option"

definition same_names :: "('h \<Rightarrow> open_files) \<Rightarrow> ('h world \<Rightarrow> 'a \<times> 'h world) \<Rightarrow> bool" where
  "same_names names f \<longleftrightarrow> (\<forall>w. names (w_host (snd (f w))) = names (w_host w))"

definition opens_as ::
  "('h \<Rightarrow> open_files) \<Rightarrow> ('a \<Rightarrow> open_files \<Rightarrow> open_files \<Rightarrow> bool) \<Rightarrow> ('h world \<Rightarrow> (host_errno + 'a) \<times> 'h world) \<Rightarrow> bool" where
  "opens_as names change f \<longleftrightarrow>
     (\<forall>w r w'. f w = (r, w') \<longrightarrow>
        (case r of Inl e \<Rightarrow> names (w_host w') = names (w_host w) | Inr v \<Rightarrow> change v (names (w_host w)) (names (w_host w'))))"

definition descriptor_host :: "'h file_host \<Rightarrow> ('h \<Rightarrow> open_files) \<Rightarrow> (int \<Rightarrow> int) \<Rightarrow> bool" where
  "descriptor_host H names slot \<longleftrightarrow>
     (\<forall>p fl m. opens_as names (\<lambda>fd N N'. N fd = None \<and> N' = N(fd \<mapsto> Some p)) (fh_open H p fl m)) \<and>
     (\<forall>s. opens_as names (\<lambda>fd N N'. N fd = None \<and> N s \<noteq> None \<and> N' = N(fd := N s)) (fh_dup H s)) \<and>
     (\<forall>s n. opens_as names (\<lambda>fd N N'. N fd = None \<and> N s \<noteq> None \<and> N' = N(fd := N s)) (fh_dupfd H s n)) \<and>
     (\<forall>s d. opens_as names (\<lambda>fd N N'. fd = d \<and> N s \<noteq> None \<and> N' = N(d := N s)) (fh_dup2 H s d)) \<and>
     opens_as names (\<lambda>(a, b) N N'. 0 \<le> b \<and> a \<noteq> b \<and> N a = None \<and> N b = None \<and> N' = N(a \<mapsto> None, b \<mapsto> None)) (fh_pipe H) \<and>
     (\<forall>p. opens_as names (\<lambda>k N N'. N (slot k) = None \<and> N' = N(slot k \<mapsto> None)) (fh_opendir H p)) \<and>
     (\<forall>k w. names (w_host (fh_closedir H k w)) = (names (w_host w))(slot k := None)) \<and>
     (\<forall>fd w. names (w_host (snd (fh_close H fd w))) = (names (w_host w))(fd := None)) \<and>
     (\<forall>fd fl w. names (w_host w) fd \<noteq> None \<longrightarrow> (\<exists>v. fst (fh_setfd H fd fl w) = Inr v)) \<and>
     (\<forall>p w. fst (fh_strdup H p w) \<in> {None, Some p}) \<and> (\<forall>p. same_names names (fh_strdup H p)) \<and> (\<forall>fd. same_names names (fh_getfd H fd)) \<and>
     (\<forall>fd fl. same_names names (fh_setfd H fd fl)) \<and> (\<forall>fd. same_names names (fh_getfl H fd)) \<and>
     (\<forall>fd fl. same_names names (fh_setfl H fd fl)) \<and> (\<forall>fd c k. same_names names (fh_lock H fd c k)) \<and>
     (\<forall>k. same_names names (fh_telldir H k)) \<and> (\<forall>k. same_names names (fh_readdir H k)) \<and>
     (\<forall>k x w. names (w_host (fh_seekdir H k x w)) = names (w_host w)) \<and>
     (\<forall>p. same_names names (fs_lstat (fh_fs H) p)) \<and> (\<forall>p n. same_names names (fs_readlink (fh_fs H) p n))"

text \<open>
  Descriptors the emulator itself holds, by the guest's descriptor they belong to: the writing end
  behind a wake descriptor and the slot of a directory stream.
\<close>

datatype holder = Wake (owner: int) | Listing (owner: int)

definition held :: "(int \<Rightarrow> int) \<Rightarrow> fd_table \<Rightarrow> holder \<Rightarrow> int option" where
  "held slot t h =
     (if \<not> tracked (owner h) then None
      else case h of
        Wake fd \<Rightarrow> if eventfd_write_peers t fd = 0 then None else Some (eventfd_write_peers t fd - 1)
      | Listing fd \<Rightarrow> map_option slot (directory_streams t fd))"

definition path_at :: "fd_table \<Rightarrow> int \<Rightarrow> string option" where
  "path_at t fd = (if tracked fd then fd_paths t fd else None)"

text \<open>
  The tables agree with the host: a recorded path is the one its descriptor was opened by; what the
  emulator holds is open, nameless, held once, and neither it nor its owner is given away.
\<close>

definition agrees :: "open_files \<Rightarrow> (int \<Rightarrow> string option) \<Rightarrow> (holder \<Rightarrow> int option) \<Rightarrow> bool" where
  "agrees N P h \<longleftrightarrow>
     (\<forall>fd p. P fd = Some p \<longrightarrow> N fd = Some (Some p)) \<and>
     (\<forall>k x. h k = Some x \<longrightarrow> N x = Some None \<and> N (owner k) \<noteq> None \<and> owner k \<notin> ran h \<and> (\<forall>k'. h k' = Some x \<longrightarrow> k' = k))"

text \<open>How the tables and the host's descriptors may change together.\<close>

lemma agrees_path: "agrees N P h \<Longrightarrow> P fd = Some p \<Longrightarrow> N fd = Some (Some p)"
  by (simp add: agrees_def)

lemma agrees_held:
  assumes "agrees N P h" "h k = Some x"
  shows "N x = Some None" "N (owner k) \<noteq> None" "owner k \<notin> ran h" "h k' = Some x \<Longrightarrow> k' = k"
  using assms unfolding agrees_def by blast+

lemma agrees_open:
  assumes a: "agrees N P h" and new: "N fd = None"
  shows "agrees (N(fd \<mapsto> x)) P h"
  unfolding agrees_def
proof (intro conjI allI impI)
  fix fd' p assume "P fd' = Some p"
  then show "(N(fd \<mapsto> x)) fd' = Some (Some p)" using agrees_path [OF a] new by (cases "fd' = fd") auto
next
  fix k y assume k: "h k = Some y"
  note held = agrees_held [OF a k]
  show "(N(fd \<mapsto> x)) y = Some None" using held(1) new by (cases "y = fd") auto
  show "(N(fd \<mapsto> x)) (owner k) \<noteq> None" using held(2) by simp
  show "owner k \<notin> ran h" by (rule held(3))
  show "k' = k" if "h k' = Some y" for k' using that by (rule held(4))
qed

lemma agrees_set_path: "agrees N P h \<Longrightarrow> p = None \<or> N fd = Some p \<Longrightarrow> agrees N (P(fd := p)) h"
  unfolding agrees_def by auto

lemma agrees_close:
  assumes a: "agrees N P h" and fd: "fd \<notin> ran h" "P fd = None" "\<And>k. owner k = fd \<Longrightarrow> h k = None"
  shows "agrees (N(fd := None)) P h"
  unfolding agrees_def
proof (intro conjI allI impI)
  fix fd' p assume "P fd' = Some p"
  then show "(N(fd := None)) fd' = Some (Some p)" using agrees_path [OF a] fd(2) by auto
next
  fix k y assume k: "h k = Some y"
  note held = agrees_held [OF a k]
  show "(N(fd := None)) y = Some None" using held(1) fd(1) k by (auto simp: ran_def)
  show "(N(fd := None)) (owner k) \<noteq> None" using held(2) fd(3) [of k] k by auto
  show "owner k \<notin> ran h" by (rule held(3))
  show "k' = k" if "h k' = Some y" for k' using that by (rule held(4))
qed

lemma agrees_drop:
  assumes a: "agrees N P h" and k: "h k = Some x"
  shows "agrees (N(x := None)) P (h(k := None))"
  unfolding agrees_def
proof (intro conjI allI impI)
  fix fd p assume "P fd = Some p"
  then show "(N(x := None)) fd = Some (Some p)" using agrees_path [OF a] agrees_held(1) [OF a k] by auto
next
  fix k' y assume "(h(k := None)) k' = Some y"
  then have k': "h k' = Some y" "k' \<noteq> k" by (auto split: if_splits)
  note held = agrees_held [OF a k'(1)]
  have "y \<noteq> x" using held(4) [of k] k k'(2) by auto
  then show "(N(x := None)) y = Some None" using held(1) by simp
  show "(N(x := None)) (owner k') \<noteq> None" using held(2,3) k by (auto simp: ran_def)
  show "owner k' \<notin> ran (h(k := None))" using held(3) by (auto simp: ran_def)
  show "k'' = k'" if "(h(k := None)) k'' = Some y" for k'' using that held(4) by (auto split: if_splits)
qed

lemma agrees_hold:
  assumes a: "agrees N P h" and k: "h k = None" "N x = Some None" "x \<notin> ran h" "\<And>k'. h k' \<noteq> None \<Longrightarrow> owner k' \<noteq> x"
    and own: "N (owner k) \<noteq> None" "owner k \<notin> ran h" "owner k \<noteq> x"
  shows "agrees N P (h(k \<mapsto> x))"
  unfolding agrees_def
proof
  show "\<forall>fd p. P fd = Some p \<longrightarrow> N fd = Some (Some p)" using agrees_path [OF a] by simp
next
  have ran: "ran (h(k \<mapsto> x)) = insert x (ran h)" using k(1) by simp
  show "\<forall>k' y. (h(k \<mapsto> x)) k' = Some y \<longrightarrow> N y = Some None \<and> N (owner k') \<noteq> None \<and>
      owner k' \<notin> ran (h(k \<mapsto> x)) \<and> (\<forall>k''. (h(k \<mapsto> x)) k'' = Some y \<longrightarrow> k'' = k')"
  proof (intro allI impI)
    fix k' y assume new: "(h(k \<mapsto> x)) k' = Some y"
    show "N y = Some None \<and> N (owner k') \<noteq> None \<and> owner k' \<notin> ran (h(k \<mapsto> x)) \<and>
      (\<forall>k''. (h(k \<mapsto> x)) k'' = Some y \<longrightarrow> k'' = k')"
    proof (cases "k' = k")
      case True
      have one: "\<forall>k''. (h(k \<mapsto> x)) k'' = Some x \<longrightarrow> k'' = k" using k(3) by (auto simp: ran_def)
      have y: "y = x" using True new by simp
      have "owner k' \<notin> insert x (ran h)" using own True by simp
      then show ?thesis unfolding ran y True using k(2) own(1) one by blast
    next
      case False
      then have k': "h k' = Some y" using new by simp
      note held = agrees_held [OF a k']
      have "y \<noteq> x" using k' k(3) by (auto simp: ran_def)
      then have "\<forall>k''. (h(k \<mapsto> x)) k'' = Some y \<longrightarrow> k'' = k'" using held(4) by auto
      moreover have "owner k' \<notin> insert x (ran h)" using k(4) [of k'] k' held(3) by simp
      ultimately show ?thesis unfolding ran using held(1,2) by blast
    qed
  qed
qed

section \<open>Changes of the tables\<close>

lemma held_simps [simp]:
  "held slot (t\<lparr>fd_paths := p\<rparr>) = held slot t"
  "tracked fd \<Longrightarrow> held slot (t\<lparr>eventfd_write_peers := (eventfd_write_peers t)(fd := 0)\<rparr>) = (held slot t)(Wake fd := None)"
  "tracked fd \<Longrightarrow> b \<ge> 0 \<Longrightarrow>
    held slot (t\<lparr>eventfd_write_peers := (eventfd_write_peers t)(fd := b + 1)\<rparr>) = (held slot t)(Wake fd \<mapsto> b)"
  "tracked fd \<Longrightarrow> held slot (t\<lparr>directory_streams := (directory_streams t)(fd := None)\<rparr>) = (held slot t)(Listing fd := None)"
  "tracked fd \<Longrightarrow> held slot (t\<lparr>directory_streams := (directory_streams t)(fd := Some k)\<rparr>) = (held slot t)(Listing fd \<mapsto> slot k)"
  by (auto simp: held_def fun_eq_iff split: holder.split)

lemma path_at_simps [simp]:
  "path_at (t\<lparr>eventfd_write_peers := e\<rparr>) = path_at t" "path_at (t\<lparr>directory_streams := d\<rparr>) = path_at t"
  "tracked fd \<Longrightarrow> path_at (t\<lparr>fd_paths := (fd_paths t)(fd := p)\<rparr>) = (path_at t)(fd := p)"
  by (auto simp: path_at_def fun_eq_iff)

lemma held_untracked: "\<not> tracked (owner k) \<Longrightarrow> held slot t k = None"
  by (simp add: held_def)

lemma held_Wake: "tracked fd \<Longrightarrow> held slot t (Wake fd) = (if eventfd_write_peers t fd = 0 then None else Some (eventfd_write_peers t fd - 1))"
  by (simp add: held_def)

lemma held_Listing: "tracked fd \<Longrightarrow> held slot t (Listing fd) = map_option slot (directory_streams t fd)"
  by (simp add: held_def)

lemma owner_none: "h (Wake fd) = None \<Longrightarrow> h (Listing fd) = None \<Longrightarrow> owner k = fd \<Longrightarrow> h k = None"
  by (cases k) auto

abbreviation files_of :: "('h \<Rightarrow> open_files) \<Rightarrow> 'h files \<Rightarrow> open_files" where
  "files_of names st \<equiv> names (w_host (fl_world st))"

definition table_sound :: "('h \<Rightarrow> open_files) \<Rightarrow> (int \<Rightarrow> int) \<Rightarrow> 'h files \<Rightarrow> bool" where
  "table_sound names slot st \<longleftrightarrow> agrees (files_of names st) (path_at (fl_table st)) (held slot (fl_table st))"

lemma on_world_table [simp]: "fl_table (snd (on_world f st)) = fl_table st"
  by (simp add: on_world_def split: prod.split)

lemma on_world_result: "on_world f st = (r, st') \<Longrightarrow> fl_table st' = fl_table st \<and> f (fl_world st) = (r, fl_world st')"
  by (auto simp: on_world_def split: prod.splits)

lemma same_result:
  assumes "same_names names f" "on_world f st = (r, st')"
  shows "files_of names st' = files_of names st" "fl_table st' = fl_table st"
  using on_world_result [OF assms(2)] assms(1) unfolding same_names_def by (metis snd_conv, simp)

lemma opens_result:
  assumes "opens_as names change f" "on_world f st = (r, st')"
  shows "r = Inl e \<Longrightarrow> files_of names st' = files_of names st" "r = Inr v \<Longrightarrow> change v (files_of names st) (files_of names st')"
    "fl_table st' = fl_table st"
proof -
  have "f (fl_world st) = (r, fl_world st')" using on_world_result [OF assms(2)] by simp
  then have *: "case r of Inl e \<Rightarrow> files_of names st' = files_of names st | Inr v \<Rightarrow> change v (files_of names st) (files_of names st')"
    using assms(1) unfolding opens_as_def by blast
  show "r = Inl e \<Longrightarrow> files_of names st' = files_of names st" using * by simp
  show "r = Inr v \<Longrightarrow> change v (files_of names st) (files_of names st')" using * by simp
  show "fl_table st' = fl_table st" using on_world_result [OF assms(2)] by simp
qed

lemma sound_same:
  "same_names names f \<Longrightarrow> on_world f st = (r, st') \<Longrightarrow> table_sound names slot st \<Longrightarrow> table_sound names slot st'"
  using same_result [of names f st r st'] by (simp add: table_sound_def)

text \<open>What the host promises, one law at a time.\<close>

lemma hostD:
  assumes "descriptor_host H names slot"
  shows "opens_as names (\<lambda>fd N N'. N fd = None \<and> N' = N(fd \<mapsto> Some p)) (fh_open H p fl m)"
    "opens_as names (\<lambda>fd N N'. N fd = None \<and> N s \<noteq> None \<and> N' = N(fd := N s)) (fh_dup H s)"
    "opens_as names (\<lambda>fd N N'. N fd = None \<and> N s \<noteq> None \<and> N' = N(fd := N s)) (fh_dupfd H s n)"
    "opens_as names (\<lambda>fd N N'. fd = d \<and> N s \<noteq> None \<and> N' = N(d := N s)) (fh_dup2 H s d)"
    "opens_as names (\<lambda>(a, b) N N'. 0 \<le> b \<and> a \<noteq> b \<and> N a = None \<and> N b = None \<and> N' = N(a \<mapsto> None, b \<mapsto> None)) (fh_pipe H)"
    "opens_as names (\<lambda>k N N'. N (slot k) = None \<and> N' = N(slot k \<mapsto> None)) (fh_opendir H p)"
    "names (w_host (fh_closedir H k w)) = (names (w_host w))(slot k := None)"
    "names (w_host (snd (fh_close H fd w))) = (names (w_host w))(fd := None)"
    "names (w_host w) fd \<noteq> None \<Longrightarrow> \<exists>v. fst (fh_setfd H fd fs w) = Inr v"
    "fst (fh_strdup H p w) = None \<or> fst (fh_strdup H p w) = Some p"
    "names (w_host (fh_seekdir H k x w)) = names (w_host w)"
  using assms unfolding descriptor_host_def by simp_all

lemma hostS:
  assumes "descriptor_host H names slot"
  shows "same_names names (fh_strdup H p)" "same_names names (fh_getfd H fd)" "same_names names (fh_setfd H fd fs)"
    "same_names names (fh_getfl H fd)" "same_names names (fh_setfl H fd fl)" "same_names names (fh_lock H fd c lk)"
    "same_names names (fh_telldir H k)" "same_names names (fh_readdir H k)"
    "same_names names (fs_lstat (fh_fs H) p)" "same_names names (fs_readlink (fh_fs H) p n)"
  using assms unfolding descriptor_host_def by simp_all

section \<open>The operations\<close>

lemma close_stream_effect:
  assumes D: "descriptor_host H names slot" and fd: "tracked fd"
  shows "fd_paths (fl_table (close_stream H fd st)) = fd_paths (fl_table st)"
    "held slot (fl_table (close_stream H fd st)) = (held slot (fl_table st))(Listing fd := None)"
    "files_of names (close_stream H fd st) =
      (case held slot (fl_table st) (Listing fd) of None \<Rightarrow> files_of names st | Some x \<Rightarrow> (files_of names st)(x := None))"
proof -
  show "held slot (fl_table (close_stream H fd st)) = (held slot (fl_table st))(Listing fd := None)"
    using fd by (auto simp: close_stream_def held_Listing fun_eq_iff split: option.split)
qed (use fd hostD(7) [OF D] in \<open>auto simp: close_stream_def held_Listing split: option.split\<close>)

lemma close_stream_sound:
  assumes D: "descriptor_host H names slot" and s: "table_sound names slot st" and fd: "tracked fd"
  shows "table_sound names slot (close_stream H fd st)"
proof -
  note effect = close_stream_effect [OF D fd, of st]
  have "path_at (fl_table (close_stream H fd st)) = path_at (fl_table st)" by (simp add: path_at_def fun_eq_iff effect(1))
  then show ?thesis
    using s agrees_drop [OF s [unfolded table_sound_def]] unfolding table_sound_def effect(2,3)
    by (cases "held slot (fl_table st) (Listing fd)") (simp_all add: fun_upd_idem)
qed

lemma release_effect:
  assumes D: "descriptor_host H names slot"
  shows "fd_paths (fl_table (release_wake_eventfd H fd st)) = fd_paths (fl_table st)"
    "directory_streams (fl_table (release_wake_eventfd H fd st)) = directory_streams (fl_table st)"
    "held slot (fl_table (release_wake_eventfd H fd st)) = (held slot (fl_table st))(Wake fd := None)"
    "files_of names (release_wake_eventfd H fd st) =
      (case held slot (fl_table st) (Wake fd) of None \<Rightarrow> files_of names st | Some x \<Rightarrow> (files_of names st)(x := None))"
proof -
  have w: "held slot (fl_table st) (Wake fd) = (if is_wake_eventfd fd st then Some (eventfd_write_peers (fl_table st) fd - 1) else None)"
    by (simp add: held_def is_wake_eventfd_def)
  show "held slot (fl_table (release_wake_eventfd H fd st)) = (held slot (fl_table st))(Wake fd := None)"
    using w by (auto simp: release_wake_eventfd_def Let_def is_wake_eventfd_def fun_upd_idem)
  show "files_of names (release_wake_eventfd H fd st) =
      (case held slot (fl_table st) (Wake fd) of None \<Rightarrow> files_of names st | Some x \<Rightarrow> (files_of names st)(x := None))"
    using hostD(8) [OF D, of "eventfd_write_peers (fl_table st) fd - 1" "fl_world st"]
    by (cases "fh_close H (eventfd_write_peers (fl_table st) fd - 1) (fl_world st)")
      (simp add: w release_wake_eventfd_def Let_def on_world_def)
qed (simp_all add: release_wake_eventfd_def Let_def)

lemma release_sound:
  assumes D: "descriptor_host H names slot" and s: "table_sound names slot st"
  shows "table_sound names slot (release_wake_eventfd H fd st)"
proof -
  note effect = release_effect [OF D, of fd st]
  have "path_at (fl_table (release_wake_eventfd H fd st)) = path_at (fl_table st)" by (simp add: path_at_def fun_eq_iff effect(1))
  then show ?thesis
    using s agrees_drop [OF s [unfolded table_sound_def]] unfolding table_sound_def effect(3,4)
    by (cases "held slot (fl_table st) (Wake fd)") (simp_all add: fun_upd_idem)
qed

lemma set_path_sound:
  assumes "table_sound names slot st" "p = None \<or> files_of names st fd = Some p" "tracked fd"
  shows "table_sound names slot (st\<lparr>fl_table := (fl_table st)\<lparr>fd_paths := (fd_paths (fl_table st))(fd := p)\<rparr>\<rparr>)"
  using assms agrees_set_path unfolding table_sound_def by (simp add: agrees_set_path)

lemma track_sound:
  assumes D: "descriptor_host H names slot" and s: "table_sound names slot st" and p: "files_of names st fd = Some (Some p)"
  shows "table_sound names slot (track_path H fd p st)"
proof (cases "tracked fd")
  case True
  obtain c st1 where c: "on_world (fh_strdup H p) st = (c, st1)" by (cases "on_world (fh_strdup H p) st")
  have "c = None \<or> c = Some p" using hostD(10) [OF D, of p "fl_world st"] on_world_result [OF c] by simp
  moreover have "files_of names st1 fd = Some (Some p)" using same_result(1) [OF hostS(1) [OF D] c] p by simp
  ultimately have "c = None \<or> files_of names st1 fd = Some c" by auto
  moreover have "table_sound names slot st1" by (rule sound_same [OF hostS(1) [OF D] c s])
  ultimately show ?thesis using set_path_sound True c by (simp add: track_path_def)
qed (use s in \<open>simp add: track_path_def\<close>)

text \<open>
  Copying a path to a descriptor that the host has just opened or replaced. \<open>N\<close> are the open files
  before.
\<close>

lemma copy_sound:
  assumes D: "descriptor_host H names slot" and a: "agrees N (path_at (fl_table st)) (held slot (fl_table st))"
    and now: "files_of names st = N(d \<mapsto> y)" and d: "d \<notin> ran (held slot (fl_table st))" "held slot (fl_table st) (Wake d) = None"
    and src: "\<And>p. path_at (fl_table st) source = Some p \<Longrightarrow> y = Some p"
  shows "table_sound names slot (copy_fd_path H source d st)"
proof (cases "tracked d")
  case False
  have "agrees (N(d := None)) (path_at (fl_table st)) (held slot (fl_table st))"
    using False by (intro agrees_close [OF a d(1)]) (auto simp: path_at_def intro: held_untracked)
  from agrees_open [OF this, of d y] show ?thesis using False now by (simp add: table_sound_def copy_fd_path_def)
next
  case True
  let ?st = "close_stream H d st" and ?h = "(held slot (fl_table st))(Listing d := None)"
  note effect = close_stream_effect [OF D True, of st]
  define N1 where "N1 = (case held slot (fl_table st) (Listing d) of None \<Rightarrow> N | Some x \<Rightarrow> N(x := None))"
  have a1: "agrees N1 (path_at (fl_table st)) ?h"
    unfolding N1_def using a agrees_drop [OF a] by (cases "held slot (fl_table st) (Listing d)") (simp_all add: fun_upd_idem)
  have now1: "files_of names ?st = (N1(d := None))(d \<mapsto> y)"
    unfolding effect(3) N1_def now using d(1) by (auto simp: ran_def fun_eq_iff split: option.split)
  have "agrees (N1(d := None)) ((path_at (fl_table st))(d := None)) ?h"
  proof (rule agrees_close)
    show "agrees N1 ((path_at (fl_table st))(d := None)) ?h" by (rule agrees_set_path [OF a1]) simp
    show "d \<notin> ran ?h" using d(1) by (auto simp: ran_def)
    show "?h k = None" if "owner k = d" for k using that d(2) by (cases k) auto
  qed simp
  then have b: "agrees (files_of names ?st) ((path_at (fl_table st))(d := None)) ?h"
    unfolding now1 by (rule agrees_open) simp
  let ?none = "?st\<lparr>fl_table := (fl_table ?st)\<lparr>fd_paths := (fd_paths (fl_table ?st))(d := None)\<rparr>\<rparr>"
  have paths: "path_at (fl_table ?st) = path_at (fl_table st)" by (simp add: path_at_def fun_eq_iff effect(1))
  have none: "table_sound names slot ?none" using b True by (simp add: table_sound_def effect(2) paths)
  show ?thesis
  proof (cases "path_at (fl_table st) source")
    case None
    then have "copy_fd_path H source d st = ?none"
      using True by (auto simp: copy_fd_path_def Let_def path_at_def effect(1) split: option.split)
    then show ?thesis using none by simp
  next
    case (Some p)
    then have "copy_fd_path H source d st = track_path H d p ?st"
      using True by (auto simp: copy_fd_path_def Let_def path_at_def effect(1) split: if_splits)
    moreover have "track_path H d p ?st = track_path H d p ?none"
      using True by (simp add: track_path_def on_world_def split: prod.split)
    moreover have "files_of names ?none d = Some (Some p)" using now1 src [OF Some] by simp
    ultimately show ?thesis using track_sound [OF D none] by simp
  qed
qed

lemma open_sound:
  assumes D: "descriptor_host H names slot" and s: "table_sound names slot st"
    and o: "on_world (fh_open H p fl m) st = (Inr fd, st1)"
  shows "table_sound names slot (track_path H fd p st1)"
proof -
  have N: "files_of names st fd = None" "files_of names st1 = (files_of names st)(fd \<mapsto> Some p)" "fl_table st1 = fl_table st"
    using opens_result(2,3) [OF hostD(1) [OF D] o] by auto
  have "table_sound names slot st1" using agrees_open [OF s [unfolded table_sound_def] N(1)] N(2,3) by (simp add: table_sound_def)
  then show ?thesis using track_sound [OF D] N(2) by simp
qed

lemma close_sound:
  assumes D: "descriptor_host H names slot" and s: "table_sound names slot st" and fair: "fd \<notin> ran (held slot (fl_table st))"
  shows "table_sound names slot (snd (linux_close_fd H fd st))"
proof -
  have finish: "table_sound names slot (snd (host_call (fh_close H fd) st'))"
    if "table_sound names slot st'" "fd \<notin> ran (held slot (fl_table st'))" "path_at (fl_table st') fd = None"
      "\<And>k. owner k = fd \<Longrightarrow> held slot (fl_table st') k = None" for st'
  proof -
    obtain r st2 where o: "on_world (fh_close H fd) st' = (r, st2)" by (cases "on_world (fh_close H fd) st'")
    have "files_of names st2 = (files_of names st')(fd := None)" "fl_table st2 = fl_table st'"
      using on_world_result [OF o] hostD(8) [OF D, of fd "fl_world st'"] by simp_all
    then show ?thesis
      using agrees_close [OF that(1) [unfolded table_sound_def] that(2,3,4)] o by (simp add: host_call_def table_sound_def)
  qed
  show ?thesis
  proof (cases "tracked fd")
    case False
    then show ?thesis
      using s fair by (auto simp: linux_close_fd_def Let_def path_at_def intro!: finish intro: held_untracked)
  next
    case True
    let ?st1 = "release_wake_eventfd H fd (close_stream H fd st)"
    let ?st2 = "?st1\<lparr>fl_table := (fl_table ?st1)\<lparr>fd_paths := (fd_paths (fl_table ?st1))(fd := None)\<rparr>\<rparr>"
    have h: "held slot (fl_table ?st2) = (held slot (fl_table st))(Listing fd := None, Wake fd := None)"
      by (simp add: release_effect(3) [OF D] close_stream_effect(2) [OF D True])
    have "table_sound names slot ?st1" by (intro release_sound close_stream_sound D s True)
    then have "table_sound names slot ?st2" using True by (intro set_path_sound) simp_all
    moreover have "fd \<notin> ran (held slot (fl_table ?st2))" unfolding h using fair by (auto simp: ran_def)
    moreover have "held slot (fl_table ?st2) k = None" if "owner k = fd" for k unfolding h using that by (cases k) auto
    ultimately have "table_sound names slot (snd (host_call (fh_close H fd) ?st2))" using True by (intro finish) simp_all
    then show ?thesis using True by (simp add: linux_close_fd_def Let_def)
  qed
qed

lemma fresh_visible:
  assumes "table_sound names slot st" "files_of names st fd = None"
  shows "fd \<notin> ran (held slot (fl_table st))" "owner k = fd \<Longrightarrow> held slot (fl_table st) k = None"
  using assms agrees_held(1,2) unfolding table_sound_def ran_def by fastforce+

lemma duplicate_sound:
  assumes D: "descriptor_host H names slot" and s: "table_sound names slot st"
    and f: "opens_as names (\<lambda>fd N N'. N fd = None \<and> N source \<noteq> None \<and> N' = N(fd := N source)) f"
  shows "table_sound names slot (snd (duplicate H source f st))"
proof -
  obtain r st1 where o: "on_world f st = (r, st1)" by (cases "on_world f st")
  show ?thesis
  proof (cases r)
    case (Inl e)
    then show ?thesis using opens_result(1,3) [OF f o] o s by (simp add: duplicate_def table_sound_def)
  next
    case (Inr fd)
    note N = opens_result(2) [OF f o Inr] opens_result(3) [OF f o]
    obtain y where y: "files_of names st source = Some y" using N(1) by auto
    have "table_sound names slot (copy_fd_path H source fd st1)"
    proof (rule copy_sound [OF D])
      show "agrees (files_of names st) (path_at (fl_table st1)) (held slot (fl_table st1))"
        using s N(2) by (simp add: table_sound_def)
      show "files_of names st1 = (files_of names st)(fd \<mapsto> y)" using N(1) y by simp
      show "fd \<notin> ran (held slot (fl_table st1))" "held slot (fl_table st1) (Wake fd) = None"
        using fresh_visible [OF s, of fd] N by simp_all
      show "y = Some p" if "path_at (fl_table st1) source = Some p" for p
        using agrees_path [OF s [unfolded table_sound_def]] that N(2) y by simp
    qed
    then show ?thesis using o Inr by (simp add: duplicate_def)
  qed
qed

lemma replace_sound:
  assumes D: "descriptor_host H names slot" and s: "table_sound names slot st" and fair: "d \<notin> ran (held slot (fl_table st))"
    and o: "on_world (fh_dup2 H source d) (release_wake_eventfd H d st) = (Inr fd, st1)"
    and same: "files_of names st2 = files_of names st1" "fl_table st2 = fl_table st1"
  shows "fd = d" "table_sound names slot (copy_fd_path H source d st2)"
proof -
  let ?st = "release_wake_eventfd H d st"
  note N = opens_result(2) [OF hostD(4) [OF D] o refl] opens_result(3) [OF hostD(4) [OF D] o]
  have s': "table_sound names slot ?st" by (rule release_sound [OF D s])
  have h: "held slot (fl_table ?st) = (held slot (fl_table st))(Wake d := None)" by (rule release_effect(3) [OF D])
  obtain y where y: "files_of names ?st source = Some y" using N(1) by auto
  show "fd = d" using N(1) by simp
  show "table_sound names slot (copy_fd_path H source d st2)"
  proof (rule copy_sound [OF D])
    show "agrees (files_of names ?st) (path_at (fl_table st2)) (held slot (fl_table st2))"
      using s' N(2) same by (simp add: table_sound_def)
    show "files_of names st2 = (files_of names ?st)(d \<mapsto> y)" using N(1) y same by simp
    show "d \<notin> ran (held slot (fl_table st2))" using fair N(2) same h by (auto simp: ran_def)
    show "held slot (fl_table st2) (Wake d) = None" using N(2) same h by simp
    show "y = Some p" if "path_at (fl_table st2) source = Some p" for p
      using agrees_path [OF s' [unfolded table_sound_def]] that N(2) same y by simp
  qed
qed

lemma dup2_sound:
  assumes D: "descriptor_host H names slot" and s: "table_sound names slot st" and fair: "d \<notin> ran (held slot (fl_table st))"
  shows "table_sound names slot (snd (linux_dup2 H source d st))"
proof -
  obtain r st1 where g: "on_world (fh_getfd H source) st = (r, st1)" by (cases "on_world (fh_getfd H source) st")
  have s1: "table_sound names slot st1" by (rule sound_same [OF hostS(2) [OF D] g s])
  have fair1: "d \<notin> ran (held slot (fl_table st1))" using fair same_result(2) [OF hostS(2) [OF D] g] by simp
  obtain q st2 where o: "on_world (fh_dup2 H source d) (release_wake_eventfd H d st1) = (q, st2)"
    by (cases "on_world (fh_dup2 H source d) (release_wake_eventfd H d st1)")
  have failed: "table_sound names slot st2" if "q = Inl e" for e
    using opens_result(1,3) [OF hostD(4) [OF D] o] that release_sound [OF D s1, of d] by (simp add: table_sound_def)
  have ok: "fd = d" "table_sound names slot (copy_fd_path H source d st2)" if "q = Inr fd" for fd
    using replace_sound [OF D s1 fair1 o [unfolded that], of st2] by simp_all
  show ?thesis
  proof (cases "source = d")
    case True
    then show ?thesis using s1 g by (simp add: linux_dup2_def split: sum.split)
  next
    case False
    then show ?thesis
      using s s1 failed ok by (cases q) (simp_all add: linux_dup2_def g o split: sum.split)
  qed
qed

lemma dup3_sound:
  assumes D: "descriptor_host H names slot" and s: "table_sound names slot st" and fair: "d \<notin> ran (held slot (fl_table st))"
  shows "table_sound names slot (snd (linux_dup3 H source d flags st))"
proof -
  obtain r st1 where g: "on_world (fh_getfd H source) st = (r, st1)" by (cases "on_world (fh_getfd H source) st")
  have s1: "table_sound names slot st1" by (rule sound_same [OF hostS(2) [OF D] g s])
  have fair1: "d \<notin> ran (held slot (fl_table st1))" using fair same_result(2) [OF hostS(2) [OF D] g] by simp
  obtain q st2 where o: "on_world (fh_dup2 H source d) (release_wake_eventfd H d st1) = (q, st2)"
    by (cases "on_world (fh_dup2 H source d) (release_wake_eventfd H d st1)")
  have failed: "table_sound names slot st2" if "q = Inl e" for e
    using opens_result(1,3) [OF hostD(4) [OF D] o] that release_sound [OF D s1, of d] by (simp add: table_sound_def)
  let ?c = "if flags AND LINUX_O_CLOEXEC \<noteq> 0 then on_world (fh_setfd H d {FD_CLOEXEC}) st2 else (Inr 0, st2)"
  obtain x st3 where c: "?c = (x, st3)" by (cases ?c)
  have same: "files_of names st3 = files_of names st2" "fl_table st3 = fl_table st2"
    using c same_result [OF hostS(3) [OF D], of d "{FD_CLOEXEC}" st2 x st3] by (auto split: if_splits)
  have ok: "\<exists>v. x = Inr v" "table_sound names slot (copy_fd_path H source d st3)" if q: "q = Inr fd" for fd
  proof -
    have "files_of names st2 d \<noteq> None" using opens_result(2) [OF hostD(4) [OF D] o q] by auto
    then have "\<exists>v. fst (fh_setfd H d {FD_CLOEXEC} (fl_world st2)) = Inr v" by (rule hostD(9) [OF D])
    then show "\<exists>v. x = Inr v" using c by (auto simp: on_world_def split: if_splits prod.splits)
    show "table_sound names slot (copy_fd_path H source d st3)" using replace_sound(2) [OF D s1 fair1 o [unfolded q] same] .
  qed
  show ?thesis
  proof (cases q)
    case (Inl e)
    then show ?thesis using s s1 failed by (simp add: linux_dup3_def g o split: sum.split)
  next
    case (Inr fd)
    then obtain v where "x = Inr v" using ok(1) by blast
    then show ?thesis
      using s s1 ok(2) [OF Inr] c Inr
      by (cases "flags AND LINUX_O_CLOEXEC = 0") (simp_all add: linux_dup3_def g o split: sum.split)
  qed
qed

lemma dup_above_opens:
  assumes D: "descriptor_host H names slot"
  shows "opens_as names (\<lambda>fd N N'. N fd = None \<and> N source \<noteq> None \<and> N' = N(fd := N source)) (dup_above H source argument cloexec)"
  unfolding opens_as_def
proof (intro allI impI)
  fix w r w' assume run: "dup_above H source argument cloexec w = (r, w')"
  obtain x w1 where d: "fh_dupfd H source (sint argument) w = (x, w1)" by (cases "fh_dupfd H source (sint argument) w")
  have law: "case x of Inl e \<Rightarrow> names (w_host w1) = names (w_host w)
    | Inr v \<Rightarrow> names (w_host w) v = None \<and> names (w_host w) source \<noteq> None \<and> names (w_host w1) = (names (w_host w))(v := names (w_host w) source)"
    using hostD(3) [OF D, of source "sint argument"] d unfolding opens_as_def by blast
  show "case r of Inl e \<Rightarrow> names (w_host w') = names (w_host w)
    | Inr v \<Rightarrow> names (w_host w) v = None \<and> names (w_host w) source \<noteq> None \<and> names (w_host w') = (names (w_host w))(v := names (w_host w) source)"
  proof (cases x)
    case (Inl e)
    then show ?thesis using law run d by (auto simp: dup_above_def)
  next
    case (Inr v)
    obtain y w2 where f: "fh_setfd H v {FD_CLOEXEC} w1 = (y, w2)" by (cases "fh_setfd H v {FD_CLOEXEC} w1")
    have w2: "names (w_host w2) = names (w_host w1)" using hostS(3) [OF D, of v "{FD_CLOEXEC}"] f unfolding same_names_def by (metis snd_conv)
    have close: "names (w_host (snd (fh_close H v w2))) = (names (w_host w2))(v := None)" by (rule hostD(8) [OF D])
    show ?thesis
      using law run d Inr f w2 close by (cases y) (auto simp: dup_above_def fun_upd_idem split: if_splits)
  qed
qed

lemma host_call_sound:
  assumes "same_names names f" "table_sound names slot st"
  shows "table_sound names slot (snd (host_call f st))"
  using sound_same [OF assms(1) _ assms(2)] by (cases "on_world f st") (simp add: host_call_def)

lemma store_sound: "table_sound names slot st \<Longrightarrow> table_sound names slot (st\<lparr>fl_world := (fl_world st)\<lparr>w_mem := m\<rparr>\<rparr>)"
  by (simp add: table_sound_def)

lemma fcntl_sound:
  assumes D: "descriptor_host H names slot" and s: "table_sound names slot st"
  shows "table_sound names slot (snd (linux_fcntl64 H fd command argument st))"
proof -
  have getfl: "table_sound names slot st1" if "on_world (fh_getfl H fd) st = (r, st1)" for r st1
    using sound_same [OF hostS(4) [OF D] that s] .
  have status: "table_sound names slot (snd (set_status H fd argument st))"
  proof (cases "on_world (fh_getfl H fd) st")
    case (Pair r st1)
    then show ?thesis
      using getfl [OF Pair] host_call_sound [OF hostS(5) [OF D]] by (simp add: set_status_def split: sum.split option.split)
  qed
  have lock: "table_sound names slot (snd (lock_call H fd c argument st))" for c
  proof (cases "map_of [(0, F_RDLCK), (1, F_WRLCK), (2, F_UNLCK)] (sint (lk_type (load_flock (w_mem (fl_world st)) argument)))")
    case None
    then show ?thesis using s unfolding lock_call_def Let_def None by simp
  next
    case (Some type)
    let ?g = "load_flock (w_mem (fl_world st)) argument"
    let ?k = "\<lparr>l_type = type, l_whence = sint (lk_whence ?g), l_start = fh_off_t H (sint (lk_start ?g)),
      l_len = fh_off_t H (sint (lk_length ?g)), l_pid = 0\<rparr>"
    obtain r st1 where o: "on_world (fh_lock H fd c ?k) st = (r, st1)" by (cases "on_world (fh_lock H fd c ?k) st")
    have "table_sound names slot st1" by (rule sound_same [OF hostS(6) [OF D] o s])
    then show ?thesis
      using s unfolding lock_call_def Let_def Some option.case o by (simp add: store_sound split: sum.split)
  qed
  show ?thesis
    using s duplicate_sound [OF D s dup_above_opens [OF D]] host_call_sound [OF hostS(2) [OF D] s] host_call_sound [OF hostS(3) [OF D] s]
      getfl status lock by (auto simp: linux_fcntl64_def split: sum.split prod.split)
qed

lemma copy_none_effect:
  assumes D: "descriptor_host H names slot"
  shows "held slot (fl_table (copy_fd_path H (-1) d st)) =
      (if tracked d then (held slot (fl_table st))(Listing d := None) else held slot (fl_table st))"
    "files_of names (copy_fd_path H (-1) d st) =
      (case held slot (fl_table st) (Listing d) of None \<Rightarrow> files_of names st | Some x \<Rightarrow> (files_of names st)(x := None))"
proof -
  have "\<not> tracked (-1)" by (simp add: tracked_def)
  then have run: "tracked d \<Longrightarrow> copy_fd_path H (-1) d st = (close_stream H d st)\<lparr>fl_table := (fl_table (close_stream H d st))
      \<lparr>fd_paths := (fd_paths (fl_table (close_stream H d st)))(d := None)\<rparr>\<rparr>"
    "\<not> tracked d \<Longrightarrow> copy_fd_path H (-1) d st = st"
    by (simp_all add: copy_fd_path_def Let_def)
  show "held slot (fl_table (copy_fd_path H (-1) d st)) =
      (if tracked d then (held slot (fl_table st))(Listing d := None) else held slot (fl_table st))"
    using run close_stream_effect(2) [OF D, of d st] by (cases "tracked d") simp_all
  show "files_of names (copy_fd_path H (-1) d st) =
      (case held slot (fl_table st) (Listing d) of None \<Rightarrow> files_of names st | Some x \<Rightarrow> (files_of names st)(x := None))"
    using run close_stream_effect(3) [OF D, of d st] held_untracked [of "Listing d" slot "fl_table st"]
    by (cases "tracked d") simp_all
qed

lemma first_error_names:
  assumes "\<And>f. f \<in> set fs \<Longrightarrow> same_names names f" "first_error fs w = (r, w')"
  shows "names (w_host w') = names (w_host w)"
  using assms
proof (induction fs arbitrary: w)
  case (Cons f fs)
  obtain x w1 where f: "f w = (x, w1)" by (cases "f w")
  have "same_names names f" using Cons.prems(1) by simp
  then have "names (w_host w1) = names (w_host w)" using f unfolding same_names_def by (metis snd_conv)
  then show ?case using Cons.IH [of w1] Cons.prems f by (cases x) auto
qed simp

lemma configure_names:
  assumes D: "descriptor_host H names slot" and run: "configure_pipe H flags a b w = (r, w')"
  shows "names (w_host w') = (if r = None then names (w_host w) else (names (w_host w))(a := None, b := None))"
proof -
  let ?fs = "(if flags AND LINUX_O_NONBLOCK \<noteq> 0 then [fh_setfl H a {O_NONBLOCK}, fh_setfl H b {O_NONBLOCK}] else []) @
    (if flags AND LINUX_O_CLOEXEC \<noteq> 0 then [fh_setfd H a {FD_CLOEXEC}, fh_setfd H b {FD_CLOEXEC}] else [])"
  obtain x w1 where f: "first_error ?fs w = (x, w1)" by (cases "first_error ?fs w")
  have "same_names names g" if "g \<in> set ?fs" for g using that hostS(3,5) [OF D] by (auto split: if_splits)
  then have "names (w_host w1) = names (w_host w)" by (rule first_error_names [OF _ f])
  then show ?thesis using run hostD(8) [OF D] unfolding configure_pipe_def f by (cases x) auto
qed

text \<open>A pipe of the host, configured or closed again.\<close>

lemma pipe_opens:
  assumes D: "descriptor_host H names slot" and s: "table_sound names slot st"
    and o: "on_world (fh_pipe H) st = (Inr (a, b), st1)" and c: "on_world (configure_pipe H flags a b) st1 = (r, st2)"
  shows "0 \<le> b" "a \<noteq> b" "files_of names st a = None" "files_of names st b = None"
    "fl_table st1 = fl_table st" "fl_table st2 = fl_table st" "files_of names st1 = (files_of names st)(a \<mapsto> None, b \<mapsto> None)"
    "r = None \<Longrightarrow> files_of names st2 = (files_of names st)(a \<mapsto> None, b \<mapsto> None)"
    "r \<noteq> None \<Longrightarrow> files_of names st2 = files_of names st"
proof -
  note N = opens_result(2) [OF hostD(5) [OF D] o refl] opens_result(3) [OF hostD(5) [OF D] o]
  show N1: "0 \<le> b" "a \<noteq> b" "files_of names st a = None" "files_of names st b = None" "fl_table st1 = fl_table st"
    "files_of names st1 = (files_of names st)(a \<mapsto> None, b \<mapsto> None)" using N by auto
  have w: "configure_pipe H flags a b (fl_world st1) = (r, fl_world st2)" and t: "fl_table st2 = fl_table st1"
    using on_world_result [OF c] by auto
  show "fl_table st2 = fl_table st" using t N1(5) by simp
  show "r = None \<Longrightarrow> files_of names st2 = (files_of names st)(a \<mapsto> None, b \<mapsto> None)"
    using configure_names [OF D w] N1(6) by simp
  show "r \<noteq> None \<Longrightarrow> files_of names st2 = files_of names st"
    using configure_names [OF D w] N1 by (auto simp: fun_eq_iff)
qed

lemma pipe_sound:
  assumes D: "descriptor_host H names slot" and s: "table_sound names slot st"
  shows "table_sound names slot (snd (linux_pipe H guest flags st))"
proof -
  obtain x st1 where o: "on_world (fh_pipe H) st = (x, st1)" by (cases "on_world (fh_pipe H) st")
  show ?thesis
  proof (cases x)
    case (Inl e)
    then show ?thesis using s opens_result(1,3) [OF hostD(5) [OF D] o] o by (simp add: linux_pipe_def table_sound_def)
  next
    case (Inr v)
    then obtain a b where v: "x = Inr (a, b)" by (cases v) simp
    obtain r st2 where c: "on_world (configure_pipe H flags a b) st1 = (r, st2)" by (cases "on_world (configure_pipe H flags a b) st1")
    note P = pipe_opens [OF D s o [unfolded v] c]
    show ?thesis
    proof (cases r)
      case (Some e)
      then show ?thesis using s P(6,9) o v c by (simp add: linux_pipe_def table_sound_def)
    next
      case None
      let ?N = "(files_of names st)(b \<mapsto> None)"
      have h: "a \<notin> ran (held slot (fl_table st))" "b \<notin> ran (held slot (fl_table st))"
        "held slot (fl_table st) (Wake a) = None" "held slot (fl_table st) (Wake b) = None"
        using fresh_visible [OF s] P(3,4) by simp_all
      have agree: "agrees ?N (path_at (fl_table st2)) (held slot (fl_table st2))"
        using agrees_open [OF s [unfolded table_sound_def] P(4)] P(6) by simp
      let ?st3 = "copy_fd_path H (-1) a st2" and ?st4 = "copy_fd_path H (-1) b (copy_fd_path H (-1) a st2)"
      have s3: "table_sound names slot ?st3"
        by (rule copy_sound [OF D agree, where y = None])
          (use P h None in \<open>auto simp: path_at_def tracked_def fun_upd_twist\<close>)
      have open_b: "files_of names ?st3 b = Some None \<and> b \<notin> ran (held slot (fl_table ?st3)) \<and> held slot (fl_table ?st3) (Wake b) = None"
        using P h None copy_none_effect [OF D, of a st2] by (auto simp: ran_def split: option.splits if_splits)
      have "table_sound names slot ?st4"
        by (rule copy_sound [OF D s3 [unfolded table_sound_def], where y = None])
          (use open_b in \<open>auto simp: path_at_def tracked_def fun_upd_idem\<close>)
      then show ?thesis using s o v c None by (simp add: linux_pipe_def Let_def store_sound)
    qed
  qed
qed

lemma eventfd_sound:
  assumes D: "descriptor_host H names slot" and s: "table_sound names slot st"
  shows "table_sound names slot (snd (linux_eventfd2 H initial flags st))"
proof -
  obtain x st1 where o: "on_world (fh_pipe H) st = (x, st1)" by (cases "on_world (fh_pipe H) st")
  show ?thesis
  proof (cases x)
    case (Inl e)
    then show ?thesis using s opens_result(1,3) [OF hostD(5) [OF D] o] o by (simp add: linux_eventfd2_def table_sound_def)
  next
    case (Inr v)
    then obtain a b where v: "x = Inr (a, b)" by (cases v) simp
    obtain r st2 where c: "on_world (configure_pipe H flags a b) st1 = (r, st2)" by (cases "on_world (configure_pipe H flags a b) st1")
    note P = pipe_opens [OF D s o [unfolded v] c]
    let ?closed = "snd (on_world (fh_close H b) (snd (on_world (fh_close H a) st1)))"
    have "files_of names (snd (on_world (fh_close H fd) t)) = (files_of names t)(fd := None)" for fd t
      using hostD(8) [OF D, of fd "fl_world t"] by (cases "fh_close H fd (fl_world t)") (simp add: on_world_def)
    then have "files_of names ?closed = files_of names st" using P(2,3,4,7) by (auto simp: fun_eq_iff)
    then have closed: "table_sound names slot ?closed" using s P(5) by (simp add: table_sound_def)
    have failed: "table_sound names slot st2" if "r \<noteq> None" using s P(6,9) that by (simp add: table_sound_def)
    have done_: "table_sound names slot (copy_fd_path H (-1) a (st2\<lparr>fl_table := (fl_table st2)
        \<lparr>eventfd_write_peers := (eventfd_write_peers (fl_table st2))(a := b + 1)\<rparr>\<rparr>))" if r: "r = None" and a: "tracked a"
    proof -
      let ?st = "st2\<lparr>fl_table := (fl_table st2)\<lparr>eventfd_write_peers := (eventfd_write_peers (fl_table st2))(a := b + 1)\<rparr>\<rparr>"
      let ?N = "(files_of names st)(a \<mapsto> None, b \<mapsto> None)"
      have fresh: "a \<notin> ran (held slot (fl_table st))" "b \<notin> ran (held slot (fl_table st))"
        "\<And>k. owner k = a \<or> owner k = b \<Longrightarrow> held slot (fl_table st) k = None"
        using fresh_visible [OF s] P(3,4) by auto
      have b: "((files_of names st)(a \<mapsto> None)) b = None" using P(2,4) by simp
      have "agrees ?N (path_at (fl_table st)) (held slot (fl_table st))"
        by (rule agrees_open [OF agrees_open [OF s [unfolded table_sound_def] P(3)] b])
      then have "agrees ?N (path_at (fl_table st)) ((held slot (fl_table st))(Wake a \<mapsto> b))"
        by (rule agrees_hold) (use fresh P(2) in auto)
      then have s': "table_sound names slot ?st" using P(1,6,8) r a by (simp add: table_sound_def)
      have "directory_streams (fl_table ?st) a = None" using fresh(3) [of "Listing a"] a P(6) by (simp add: held_Listing)
      then have "copy_fd_path H (-1) a ?st = ?st\<lparr>fl_table := (fl_table ?st)\<lparr>fd_paths := (fd_paths (fl_table ?st))(a := None)\<rparr>\<rparr>"
        using a by (simp add: copy_fd_path_def close_stream_def tracked_def)
      then show ?thesis using set_path_sound [OF s', of None a] a by simp
    qed
    show ?thesis
      unfolding linux_eventfd2_def o v prod.case sum.case c
      using s closed failed done_ by (cases r) (simp_all add: Let_def)
  qed
qed

lemma dents_names:
  assumes D: "descriptor_host H names slot"
  shows "names (w_host (snd (dents_loop H k buffer capacity used w))) = names (w_host w)"
proof (induction "capacity - used" arbitrary: used w rule: less_induct)
  case less
  obtain x w1 where t: "fh_telldir H k w = (x, w1)" by (cases "fh_telldir H k w")
  obtain e w2 where r: "fh_readdir H k w1 = (e, w2)" by (cases "fh_readdir H k w1")
  obtain y w3 where u: "fh_telldir H k w2 = (y, w3)" by (cases "fh_telldir H k w2")
  have "names (w_host w1) = names (w_host w)" "names (w_host w2) = names (w_host w1)" "names (w_host w3) = names (w_host w2)"
    using hostS(7,8) [OF D, of k] t r u unfolding same_names_def by (metis snd_conv)+
  then have w: "names (w_host w2) = names (w_host w)" "names (w_host w3) = names (w_host w)" by simp_all
  show ?case
  proof (cases e)
    case (Inl e')
    then show ?thesis using w t r by (subst dents_loop.simps) simp
  next
    case (Inr d)
    let ?n = "record_length (d_name d)"
    have "0 < ?n" by (simp add: record_length_def)
    then show ?thesis
      using Inr w t r u less [of "used + ?n"] hostD(11) [OF D] by (subst dents_loop.simps) (simp add: Let_def)
  qed
qed

lemma getdents_sound:
  assumes D: "descriptor_host H names slot" and s: "table_sound names slot st"
  shows "table_sound names slot (snd (linux_getdents64 H fd buffer capacity st))"
proof -
  have list: "table_sound names slot st2"
    if "table_sound names slot st1" "on_world (dents_loop H k buffer c 0) st1 = (r, st2)" for k c st1 r st2
    using sound_same [OF _ that(2,1)] dents_names [OF D] by (simp add: same_names_def)
  show ?thesis
  proof (cases "tracked fd")
    case False
    then show ?thesis using s by (simp add: linux_getdents64_def)
  next
    case True
    show ?thesis
    proof (cases "directory_streams (fl_table st) fd")
      case (Some k)
      obtain e u st2 where r: "on_world (dents_loop H k buffer (unat capacity) 0) st = ((e, u), st2)" by (metis surj_pair)
      then show ?thesis using list [OF s r] True Some by (simp add: linux_getdents64_def)
    next
      case none: None
      show ?thesis
      proof (cases "fd_paths (fl_table st) fd")
        case None
        then show ?thesis using s True none by (simp add: linux_getdents64_def)
      next
        case (Some p)
        obtain x st1 where o: "on_world (fh_opendir H p) st = (x, st1)" by (cases "on_world (fh_opendir H p) st")
        show ?thesis
        proof (cases x)
          case (Inl e)
          then show ?thesis
            using s True none Some o opens_result(1,3) [OF hostD(6) [OF D] o] by (simp add: linux_getdents64_def table_sound_def)
        next
          case (Inr k)
          note N = opens_result(2) [OF hostD(6) [OF D] o Inr] opens_result(3) [OF hostD(6) [OF D] o]
          let ?st = "st1\<lparr>fl_table := (fl_table st1)\<lparr>directory_streams := (directory_streams (fl_table st1))(fd := Some k)\<rparr>\<rparr>"
          have fd: "files_of names st fd = Some (Some p)"
            using agrees_path [OF s [unfolded table_sound_def], of fd p] True Some by (simp add: path_at_def)
          have visible: "fd \<notin> ran (held slot (fl_table st))"
            using agrees_held(1) [OF s [unfolded table_sound_def]] fd by (fastforce simp: ran_def)
          have fresh: "slot k \<notin> ran (held slot (fl_table st))" "\<And>h. owner h = slot k \<Longrightarrow> held slot (fl_table st) h = None"
            using fresh_visible [OF s, of "slot k"] N(1) by auto
          have "agrees (files_of names st1) (path_at (fl_table st)) (held slot (fl_table st))"
            using agrees_open [OF s [unfolded table_sound_def], of "slot k" None] N(1) by simp
          then have "agrees (files_of names st1) (path_at (fl_table st)) ((held slot (fl_table st))(Listing fd \<mapsto> slot k))"
            by (rule agrees_hold) (use N fd visible fresh none True in \<open>auto simp: held_Listing\<close>)
          then have s1: "table_sound names slot ?st" using N(2) True by (simp add: table_sound_def)
          obtain e u st2 where r: "on_world (dents_loop H k buffer (unat capacity) 0) ?st = ((e, u), st2)" by (metis surj_pair)
          then show ?thesis using list [OF s1 r] True none Some o Inr by (simp add: linux_getdents64_def)
        qed
      qed
    qed
  qed
qed

text \<open>Resolving a path looks at files only.\<close>

lemma walk_names:
  assumes l: "\<And>p. same_names names (fs_lstat F p)" and r: "\<And>p n. same_names names (fs_readlink F p n)"
  shows "names (w_host (snd (resolve_walk F pm gp allow sz lc current parent cursor w))) = names (w_host w)"
  using l r
proof (induction F pm gp allow sz lc current parent cursor w rule: resolve_walk.induct)
  case (1 F pm gp allow sz lc current parent cursor w)
  let ?c = "root_path gp @ parent @ ''/'' @ takeWhile (\<lambda>x. x \<noteq> slash) cursor"
  obtain x w1 where x: "fs_lstat F ?c w = (x, w1)" by (cases "fs_lstat F ?c w")
  obtain y w2 where y: "fs_readlink F ?c (pm - 1) w1 = (y, w2)" by (cases "fs_readlink F ?c (pm - 1) w1")
  have "names (w_host w1) = names (w_host w)" "names (w_host w2) = names (w_host w1)"
    using 1(3) [of ?c] 1(4) [of ?c "pm - 1"] x y unfolding same_names_def by (metis snd_conv)+
  then show ?case
    by (subst resolve_walk.simps) (use 1 x y in \<open>auto simp: Let_def split: sum.split outcome.split\<close>)
qed

lemma resolve_names:
  assumes D: "descriptor_host H names slot"
  shows "same_names names (guest_path_resolve (fh_fs H) pm gp p allow sz)"
    "same_names names (guest_path_resolve_nofollow (fh_fs H) pm gp p sz)"
    "same_names names (guest_path_resolve_at (fh_fs H) pm gp base p allow nofollow sz)"
proof -
  have sym: "names (w_host (snd (resolve_guest_symlinks (fh_fs H) pm gp q b n w))) = names (w_host w)" for q b n w
    using walk_names [of names "fh_fs H"] hostS(9,10) [OF D] by (simp add: resolve_guest_symlinks_def)
  have f: "names (w_host (snd (guest_path_resolve (fh_fs H) pm gp p allow sz w))) = names (w_host w)" for p w
  proof (cases "normalize_guest_path pm (guest_cwd gp) p pm")
    case (Done g)
    obtain r w1 where r: "resolve_guest_symlinks (fh_fs H) pm gp g allow pm w = (r, w1)"
      by (cases "resolve_guest_symlinks (fh_fs H) pm gp g allow pm w")
    then show ?thesis
      using sym [of g allow pm w] Done by (simp add: guest_path_resolve_def split: outcome.split option.split)
  qed (simp_all add: guest_path_resolve_def)
  have n: "names (w_host (snd (guest_path_resolve_nofollow (fh_fs H) pm gp p sz w))) = names (w_host w)" for p w
  proof (cases "normalize_guest_path pm (guest_cwd gp) p pm")
    case (Done g)
    obtain before leaf where l: "split_leaf g = (before, leaf)" by (cases "split_leaf g")
    let ?p = "if before = [] then ''/'' else before"
    obtain r w1 where r: "resolve_guest_symlinks (fh_fs H) pm gp ?p False pm w = (r, w1)"
      by (cases "resolve_guest_symlinks (fh_fs H) pm gp ?p False pm w")
    then have "names (w_host w1) = names (w_host w)" using sym [of ?p False pm w] by simp
    then show ?thesis
      using Done l r unfolding guest_path_resolve_nofollow_def Done outcome.case l Let_def prod.case r
      by (simp split: outcome.split option.split)
  qed (simp_all add: guest_path_resolve_nofollow_def)
  show "same_names names (guest_path_resolve (fh_fs H) pm gp p allow sz)"
    "same_names names (guest_path_resolve_nofollow (fh_fs H) pm gp p sz)" by (simp_all add: same_names_def f n)
  show "same_names names (guest_path_resolve_at (fh_fs H) pm gp base p allow nofollow sz)"
    by (simp add: same_names_def guest_path_resolve_at_def Let_def f n split: option.split)
qed

lemma resolve_at_sound:
  assumes D: "descriptor_host H names slot" and s: "table_sound names slot st" and run: "resolve_at H d p allow nofollow st = (r, st')"
  shows "table_sound names slot st'"
proof (cases "directory_path d p (fl_table st)")
  case (Inl e)
  then show ?thesis using run s by (simp add: resolve_at_def)
next
  case (Inr base)
  let ?f = "case base of Some b \<Rightarrow> guest_path_resolve_at (fh_fs H) (fh_path_max H) (fl_paths st) (Some b) p allow nofollow (fh_path_max H)
    | None \<Rightarrow> if nofollow then guest_path_resolve_nofollow (fh_fs H) (fh_path_max H) (fl_paths st) p (fh_path_max H)
        else guest_path_resolve (fh_fs H) (fh_path_max H) (fl_paths st) p allow (fh_path_max H)"
  have "same_names names ?f" using resolve_names [OF D] by (cases base) simp_all
  moreover have "on_world ?f st = (r, st')" using run Inr by (cases base) (simp_all add: resolve_at_def Let_def)
  ultimately show ?thesis using s by (rule sound_same)
qed

lemma open_path_sound:
  assumes D: "descriptor_host H names slot" and s: "table_sound names slot st"
  shows "table_sound names slot (snd (linux_open_path H d p flags mode st))"
proof (cases "linux_open_flags (fh_oflags H) flags")
  case None
  then show ?thesis using s by (simp add: linux_open_path_def)
next
  case (Some hf)
  let ?n = "flags AND LINUX_O_NOFOLLOW \<noteq> 0 \<or> flags AND (LINUX_O_CREAT OR LINUX_O_EXCL) = LINUX_O_CREAT OR LINUX_O_EXCL"
  obtain r st1 where r: "resolve_at H d p (O_CREAT \<in> hf) ?n st = (r, st1)" by (cases "resolve_at H d p (O_CREAT \<in> hf) ?n st")
  note run = linux_open_path_def [of H d p flags mode st, unfolded Some option.case r]
  have s1: "table_sound names slot st1" by (rule resolve_at_sound [OF D s r])
  show ?thesis
  proof (cases r)
    case (Done host)
    obtain q st2 where o: "on_world (fh_open H host hf (mode AND 0xFFF)) st1 = (q, st2)"
      by (cases "on_world (fh_open H host hf (mode AND 0xFFF)) st1")
    show ?thesis
    proof (cases q)
      case (Inl e)
      then have "table_sound names slot st2" using s1 opens_result(1,3) [OF hostD(1) [OF D] o] by (simp add: table_sound_def)
      then show ?thesis using Inl o Done unfolding run with_path_def by simp
    next
      case (Inr fd)
      then show ?thesis
        using open_sound [OF D s1] o Done unfolding run with_path_def by simp
    qed
  qed (use s1 in \<open>simp_all add: run with_path_def\<close>)
qed

section \<open>Sequences of calls\<close>

datatype fd_call =
    OpenAt int string u32 u32 | CloseFd int | Dup int | Dup2 int int | Dup3 int int u32
  | Fcntl int int u32 | Pipe u32 u32 | Eventfd u32 u32 | Getdents int u32 u32

fun run_fd_call :: "'h file_host \<Rightarrow> fd_call \<Rightarrow> 'h files \<Rightarrow> sysret outcome \<times> 'h files" where
  "run_fd_call H (OpenAt d p flags mode) = linux_open_path H d p flags mode"
| "run_fd_call H (CloseFd fd) = linux_close_fd H fd"
| "run_fd_call H (Dup fd) = linux_dup H fd"
| "run_fd_call H (Dup2 s d) = linux_dup2 H s d"
| "run_fd_call H (Dup3 s d flags) = linux_dup3 H s d flags"
| "run_fd_call H (Fcntl fd command argument) = linux_fcntl64 H fd command argument"
| "run_fd_call H (Pipe guest flags) = linux_pipe H guest flags"
| "run_fd_call H (Eventfd v flags) = linux_eventfd2 H v flags"
| "run_fd_call H (Getdents fd buffer capacity) = linux_getdents64 H fd buffer capacity"

text \<open>A guest that leaves alone the descriptors the emulator holds.\<close>

fun fair :: "(int \<Rightarrow> int) \<Rightarrow> fd_call \<Rightarrow> 'h files \<Rightarrow> bool" where
  "fair slot (CloseFd fd) st \<longleftrightarrow> fd \<notin> ran (held slot (fl_table st))"
| "fair slot (Dup2 s d) st \<longleftrightarrow> d \<notin> ran (held slot (fl_table st))"
| "fair slot (Dup3 s d flags) st \<longleftrightarrow> d \<notin> ran (held slot (fl_table st))"
| "fair slot _ st \<longleftrightarrow> True"

fun fair_run :: "'h file_host \<Rightarrow> (int \<Rightarrow> int) \<Rightarrow> fd_call list \<Rightarrow> 'h files \<Rightarrow> bool" where
  "fair_run H slot [] st \<longleftrightarrow> True"
| "fair_run H slot (c # cs) st \<longleftrightarrow> fair slot c st \<and> fair_run H slot cs (snd (run_fd_call H c st))"

lemma fd_call_sound:
  assumes D: "descriptor_host H names slot" and s: "table_sound names slot st" and f: "fair slot c st"
  shows "table_sound names slot (snd (run_fd_call H c st))"
proof (cases c)
  case (Dup fd)
  then show ?thesis using s duplicate_sound [OF D s hostD(2) [OF D]] by (simp add: linux_dup_def)
qed (use f open_path_sound [OF D s] close_sound [OF D s] dup2_sound [OF D s] dup3_sound [OF D s] fcntl_sound [OF D s]
    pipe_sound [OF D s] eventfd_sound [OF D s] getdents_sound [OF D s] in simp_all)


lemma close_other_peer:
  "fd \<noteq> h \<Longrightarrow> eventfd_write_peers (fl_table (snd (linux_close_fd H h st))) fd = eventfd_write_peers (fl_table st) fd"
  by (simp add: linux_close_fd_def host_call_def close_stream_def release_wake_eventfd_def Let_def
      split: prod.split option.split) (auto simp: on_world_def split: prod.splits)

lemma track_peers: "eventfd_write_peers (fl_table (track_path H fd p st)) = eventfd_write_peers (fl_table st)"
  by (simp add: track_path_def on_world_def split: prod.split)

lemma resolve_at_table: "resolve_at H d p allow nofollow st = (r, st') \<Longrightarrow> fl_table st' = fl_table st"
  by (auto simp: resolve_at_def Let_def dest: on_world_result split: sum.splits option.splits)

lemma opened_by_path:
  assumes D: "descriptor_host H names slot" and run: "linux_open_path H d p flags mode st = (Done (Value fd), st')"
  shows "files_of names st' fd \<noteq> None" "eventfd_write_peers (fl_table st') = eventfd_write_peers (fl_table st)"
proof -
  obtain hf where hf: "linux_open_flags (fh_oflags H) flags = Some hf"
    using run by (cases "linux_open_flags (fh_oflags H) flags") (simp_all add: linux_open_path_def)
  let ?n = "flags AND LINUX_O_NOFOLLOW \<noteq> 0 \<or> flags AND (LINUX_O_CREAT OR LINUX_O_EXCL) = LINUX_O_CREAT OR LINUX_O_EXCL"
  obtain r st1 where r: "resolve_at H d p (O_CREAT \<in> hf) ?n st = (r, st1)" by (cases "resolve_at H d p (O_CREAT \<in> hf) ?n st")
  note run = run [unfolded linux_open_path_def hf option.case r with_path_def prod.case]
  obtain host where host: "r = Done host" using run by (cases r) simp_all
  obtain q st2 where o: "on_world (fh_open H host hf (mode AND 0xFFF)) st1 = (q, st2)"
    by (cases "on_world (fh_open H host hf (mode AND 0xFFF)) st1")
  have q: "q = Inr fd" "st' = track_path H fd host st2" using run host o by (cases q; auto)+
  note N = opens_result(2) [OF hostD(1) [OF D] o q(1)] opens_result(3) [OF hostD(1) [OF D] o]
  have "files_of names (track_path H fd host st2) = files_of names st2"
    using same_result(1) [OF hostS(1) [OF D], of host st2]
    by (cases "on_world (fh_strdup H host) st2") (simp add: track_path_def)
  then show "files_of names st' fd \<noteq> None" using N(1) q(2) by simp
  show "eventfd_write_peers (fl_table st') = eventfd_write_peers (fl_table st)"
    using N(2) q(2) resolve_at_table [OF r] by (simp add: track_peers)
qed

text \<open>
  C40 (safety). Why the guest must leave the emulator's own descriptors alone: they are ordinary numbers.
  If a guest closes the writing end behind one of its wake descriptors and then opens a file that gets
  the freed number, closing the wake descriptor closes that file.
\<close>

theorem wake_peer_stolen:
  assumes D: "descriptor_host H names slot"
    and wake: "is_wake_eventfd fd st" "eventfd_write_peers (fl_table st) fd = h + 1" "fd \<noteq> h"
    and close: "linux_close_fd H h st = (r1, st1)" and open': "linux_open_path H d p flags mode st1 = (Done (Value h), st2)"
    and close': "linux_close_fd H fd st2 = (r3, st3)"
  shows "names (w_host (fl_world st2)) h \<noteq> None \<and> names (w_host (fl_world st3)) h = None"
proof
  show "names (w_host (fl_world st2)) h \<noteq> None" by (rule opened_by_path(1) [OF D open'])
  have fd: "tracked fd" using wake(1) by (simp add: is_wake_eventfd_def)
  have "eventfd_write_peers (fl_table st2) fd = h + 1"
    using close_other_peer [OF wake(3), of H st] opened_by_path(2) [OF D open'] close wake(2) by simp
  moreover have "eventfd_write_peers (fl_table (close_stream H fd st2)) = eventfd_write_peers (fl_table st2)"
    by (simp add: close_stream_def split: option.split)
  ultimately have peer: "held slot (fl_table (close_stream H fd st2)) (Wake fd) = Some h"
    using fd wake(1,2) by (simp add: held_Wake is_wake_eventfd_def)
  let ?st = "release_wake_eventfd H fd (close_stream H fd st2)"
  let ?st' = "?st\<lparr>fl_table := (fl_table ?st)\<lparr>fd_paths := (fd_paths (fl_table ?st))(fd := None)\<rparr>\<rparr>"
  have "files_of names ?st' h = None" using release_effect(4) [OF D, of fd "close_stream H fd st2"] peer by simp
  moreover have "st3 = snd (on_world (fh_close H fd) ?st')"
    using close' fd by (auto simp: linux_close_fd_def host_call_def Let_def split: prod.splits)
  moreover have "names (w_host (fl_world (snd (on_world (fh_close H fd) ?st')))) = (files_of names ?st')(fd := None)"
    using hostD(8) [OF D, of fd "fl_world ?st'"] by (cases "fh_close H fd (fl_world ?st')") (simp add: on_world_def)
  ultimately show "names (w_host (fl_world st3)) h = None" by simp
qed

section \<open>Witnesses\<close>

text \<open>A host that hands out the number 4 when it is free and otherwise numbers upwards.\<close>

type_synonym fd_state = "int \<times> open_files"

definition fd_names :: "fd_state \<Rightarrow> open_files" where
  "fd_names s fd = (if fd < fst s then snd s fd else None)"

definition next_fd :: "fd_state \<Rightarrow> int" where
  "next_fd s = (if 4 < fst s \<and> snd s 4 = None then 4 else fst s)"

definition give :: "(fd_state \<Rightarrow> string option) \<Rightarrow> fd_state world \<Rightarrow> (host_errno + int) \<times> fd_state world" where
  "give file w =
     (let s = w_host w; fd = next_fd s in (Inr fd, w\<lparr>w_host := (max (fst s) (fd + 1), (snd s)(fd \<mapsto> file s))\<rparr>))"

definition copy_of :: "int \<Rightarrow> fd_state world \<Rightarrow> (host_errno + int) \<times> fd_state world" where
  "copy_of s w = (case fd_names (w_host w) s of None \<Rightarrow> (Inl EBADF, w) | Some file \<Rightarrow> give (\<lambda>_. file) w)"

definition put_at :: "int \<Rightarrow> int \<Rightarrow> fd_state world \<Rightarrow> (host_errno + int) \<times> fd_state world" where
  "put_at s d w =
     (case fd_names (w_host w) s of
        None \<Rightarrow> (Inl EBADF, w)
      | Some file \<Rightarrow>
          if d < fst (w_host w) then (Inr d, w\<lparr>w_host := (fst (w_host w), (snd (w_host w))(d \<mapsto> file))\<rparr>) else (Inl EMFILE, w))"

definition drop_fd :: "int \<Rightarrow> fd_state world \<Rightarrow> fd_state world" where
  "drop_fd fd w = w\<lparr>w_host := (fst (w_host w), (snd (w_host w))(fd := None))\<rparr>"

definition fd_demo :: "fd_state file_host" where
  "fd_demo = \<lparr>
     fh_fs = \<lparr>fs_lstat = (\<lambda>p w. (Inr Directory, w)), fs_stat = (\<lambda>p w. (Inr Directory, w)),
       fs_readlink = (\<lambda>p n w. (Inl EINVAL, w)), fs_realpath = (\<lambda>p w. (Inr p, w))\<rparr>,
     fh_path_max = 1024, fh_oflags = {}, fh_off_t = (\<lambda>v. v), fh_is_link = (\<lambda>mode. False),
     fh_strdup = (\<lambda>p w. (Some p, w)), fh_open = (\<lambda>p fl m. give (\<lambda>_. Some p)), fh_close = (\<lambda>fd w. (Inr 0, drop_fd fd w)),
     fh_stat = (\<lambda>p w. (Inr demo_stat, w)), fh_lstat = (\<lambda>p w. (Inr demo_stat, w)), fh_fstat = (\<lambda>fd w. (Inr demo_stat, w)),
     fh_mkdir = (\<lambda>p m w. (Inr 0, w)), fh_rmdir = (\<lambda>p w. (Inr 0, w)), fh_unlink = (\<lambda>p w. (Inr 0, w)),
     fh_rename = (\<lambda>p q w. (Inr 0, w)), fh_access = (\<lambda>p m w. (Inr 0, w)), fh_link = (\<lambda>p q w. (Inr 0, w)),
     fh_symlink = (\<lambda>t p w. (Inr 0, w)), fh_chmod = (\<lambda>p m w. (Inr 0, w)), fh_utime = (\<lambda>p t w. (Inr 0, w)),
     fh_time = (\<lambda>w. (Inr 0, w)), fh_readlink = (\<lambda>p b n w. (Inl EINVAL, w)),
     fh_opendir = (\<lambda>p. give (\<lambda>_. None)), fh_closedir = drop_fd, fh_telldir = (\<lambda>k w. (0, w)),
     fh_seekdir = (\<lambda>k x w. w), fh_readdir = (\<lambda>k w. (Inl NoError, w)),
     fh_dup = copy_of, fh_dup2 = put_at, fh_dupfd = (\<lambda>s n. copy_of s),
     fh_getfd = (\<lambda>fd w. (Inr 0, w)), fh_setfd = (\<lambda>fd fl w. (Inr 0, w)), fh_getfl = (\<lambda>fd w. (Inr {}, w)),
     fh_setfl = (\<lambda>fd fl w. (Inr 0, w)), fh_lock = (\<lambda>fd c k w. (Inr k, w)),
     fh_pipe = (\<lambda>w. let n = max 0 (fst (w_host w)) in
       (Inr (n, n + 1), w\<lparr>w_host := (n + 2, \<lambda>fd. if fd = n \<or> fd = n + 1 then Some None else if fst (w_host w) \<le> fd then None else snd (w_host w) fd)\<rparr>)),
     fh_read = (\<lambda>fd p n w. (Inr 0, w)), fh_write = (\<lambda>fd bs w. (Inr (int (length bs)), w))\<rparr>"

lemma next_fresh: "fd_names s (next_fd s) = None"
  by (simp add: fd_names_def next_fd_def)

lemma give_names: "give file w = (Inr fd, w') \<Longrightarrow> fd = next_fd (w_host w) \<and> fd_names (w_host w') = (fd_names (w_host w))(fd \<mapsto> file (w_host w))"
  by (auto simp: give_def Let_def fd_names_def next_fd_def fun_eq_iff max_def split: if_splits)

lemma fd_demo_laws: "descriptor_host fd_demo fd_names (\<lambda>k. k)"
proof -
  have give: "opens_as fd_names (\<lambda>fd N N'. N fd = None \<and> N' = N(fd \<mapsto> x)) (give (\<lambda>_. x))" for x
    unfolding opens_as_def using give_names next_fresh by (auto simp: give_def Let_def split: sum.split)
  have copy: "opens_as fd_names (\<lambda>fd N N'. N fd = None \<and> N s \<noteq> None \<and> N' = N(fd := N s)) (copy_of s)" for s
    unfolding opens_as_def
  proof (intro allI impI)
    fix w r w' assume run: "copy_of s w = (r, w')"
    show "case r of Inl e \<Rightarrow> fd_names (w_host w') = fd_names (w_host w)
      | Inr fd \<Rightarrow> fd_names (w_host w) fd = None \<and> fd_names (w_host w) s \<noteq> None \<and> fd_names (w_host w') = (fd_names (w_host w))(fd := fd_names (w_host w) s)"
    proof (cases "fd_names (w_host w) s")
      case None
      then show ?thesis using run by (auto simp: copy_of_def)
    next
      case (Some name)
      then have "give (\<lambda>_. name) w = (r, w')" using run by (simp add: copy_of_def)
      then show ?thesis using give [of name] Some unfolding opens_as_def by (fastforce split: sum.splits)
    qed
  qed
  have put: "opens_as fd_names (\<lambda>fd N N'. fd = d \<and> N s \<noteq> None \<and> N' = N(d := N s)) (put_at s d)" for s d
    unfolding opens_as_def by (auto simp: put_at_def fd_names_def fun_eq_iff split: option.splits if_splits)
  have pipe: "opens_as fd_names (\<lambda>(a, b) N N'. 0 \<le> b \<and> a \<noteq> b \<and> N a = None \<and> N b = None \<and> N' = N(a \<mapsto> None, b \<mapsto> None)) (fh_pipe fd_demo)"
    unfolding opens_as_def by (auto simp: fd_demo_def Let_def fd_names_def fun_eq_iff)
  have drop: "fd_names (w_host (drop_fd fd w)) = (fd_names (w_host w))(fd := None)" for fd w
    by (simp add: drop_fd_def fd_names_def fun_eq_iff)
  show ?thesis
    unfolding descriptor_host_def using give copy put pipe drop by (auto simp: fd_demo_def same_names_def)
qed

definition fd_at :: "int \<Rightarrow> open_files \<Rightarrow> (int \<Rightarrow> string option) \<Rightarrow> (int \<Rightarrow> int) \<Rightarrow> fd_state files" where
  "fd_at n N paths peers = \<lparr>fl_world = \<lparr>w_host = (n, N), w_mem = (\<lambda>_. 0)\<rparr>,
     fl_table = \<lparr>directory_streams = (\<lambda>_. None), fd_paths = paths, eventfd_write_peers = peers\<rparr>,
     fl_paths = \<lparr>root_path = ''/g'', guest_cwd = ''/''\<rparr>\<rparr>"

definition fd_start :: "fd_state files" where
  "fd_start = fd_at 3 (\<lambda>_. Some None) (\<lambda>_. None) (\<lambda>_. 0)"

lemma fd_start_sound: "table_sound fd_names (\<lambda>k. k) fd_start"
  by (auto simp: table_sound_def agrees_def fd_start_def fd_at_def path_at_def held_def split: holder.splits if_splits)


lemma fd_demo_fields:
  "fh_path_max fd_demo = 1024" "fh_oflags fd_demo = {}" "fh_strdup fd_demo p w = (Some p, w)"
  "fh_open fd_demo p fl m = give (\<lambda>_. Some p)" "fh_close fd_demo fd w = (Inr 0, drop_fd fd w)"
  "fh_dup2 fd_demo = put_at" "fh_getfd fd_demo fd w = (Inr 0, w)" "fh_setfd fd_demo fd flags w = (Inr 0, w)"
  "fh_setfl fd_demo fd fl w = (Inr 0, w)"
  "fh_pipe fd_demo \<lparr>w_host = (3, \<lambda>_. Some None), w_mem = mem\<rparr> =
     (Inr (3, 4), \<lparr>w_host = (5, \<lambda>fd. if fd = 3 \<or> fd = 4 then Some None else if 3 \<le> fd then None else Some None), w_mem = mem\<rparr>)"
  by (simp_all add: fd_demo_def fun_eq_iff)

lemma fd_demo_resolve: "resolve_at fd_demo (-100) ''/d'' False False (fd_at n N P E) = (Done ''/g/d'', fd_at n N P E)"
  by (simp add: resolve_at_def directory_path_def fd_at_def on_world_def fd_demo_def guest_path_resolve_def
      normalize_guest_path_def Let_def resolve_guest_device_def resolve_guest_symlinks_def resolve_walk.simps
      link_target_path_def finish_resolved_def host_path_of_def)

lemma fd_demo_open:
  "fd = next_fd (n, N) \<Longrightarrow> tracked fd \<Longrightarrow>
   linux_open_path fd_demo (-100) ''/d'' 0 0 (fd_at n N P E) =
     (Done (Value fd), fd_at (max n (fd + 1)) (N(fd \<mapsto> Some ''/g/d'')) (P(fd \<mapsto> ''/g/d'')) E)"
  by (simp add: linux_open_path_def linux_open_flags_def fd_demo_fields fd_demo_resolve with_path_def)
     (simp add: fd_at_def on_world_def give_def Let_def track_path_def fd_demo_fields)

lemma fd_demo_dup2:
  "N s = Some f \<Longrightarrow> s < n \<Longrightarrow> d < n \<Longrightarrow> s \<noteq> d \<Longrightarrow> tracked s \<Longrightarrow> tracked d \<Longrightarrow> P s = Some p \<Longrightarrow>
   linux_dup2 fd_demo s d (fd_at n N P (\<lambda>_. 0)) = (Done (Value d), fd_at n (N(d \<mapsto> f)) (P(d \<mapsto> p)) (\<lambda>_. 0))"
  by (simp add: linux_dup2_def is_wake_eventfd_def release_wake_eventfd_def fd_at_def on_world_def fd_demo_fields
      put_at_def fd_names_def copy_fd_path_def close_stream_def track_path_def)

lemma fd_demo_close:
  "tracked fd \<Longrightarrow>
   linux_close_fd fd_demo fd (fd_at n N P E) =
     (Done (Value 0), fd_at n ((if E fd = 0 then N else N(E fd - 1 := None))(fd := None)) (P(fd := None)) (E(fd := 0)))"
  by (auto simp: linux_close_fd_def is_wake_eventfd_def release_wake_eventfd_def fd_at_def on_world_def fd_demo_fields
      close_stream_def drop_fd_def host_call_def linux_host_result_def Let_def)

lemma fd_demo_wake:
  "linux_eventfd2 fd_demo 0 0x80800 fd_start =
     (Done (Value 3), fd_at 5 (\<lambda>fd. if fd = 3 \<or> fd = 4 then Some None else if 3 \<le> fd then None else Some None)
        (\<lambda>_. None) ((\<lambda>_. 0)(3 := 5)))"
  by (simp add: linux_eventfd2_def configure_pipe_def first_error.simps copy_fd_path_def fd_start_def fd_at_def on_world_def fd_demo_fields
      close_stream_def Let_def tracked_def)

lemma fd_demo_holds_nothing: "held slot (fl_table (fd_at n N P (\<lambda>_. 0))) = Map.empty"
  by (simp add: fun_eq_iff held_def fd_at_def split: holder.split)


theorem wake_peer_stolen_witness:
  "let st = snd (linux_eventfd2 fd_demo 0 0x80800 fd_start);
       st1 = snd (linux_close_fd fd_demo 4 st);
       st2 = snd (linux_open_path fd_demo (-100) ''/d'' 0 0 st1);
       st3 = snd (linux_close_fd fd_demo 3 st2)
   in fd_names (w_host (fl_world st2)) 4 \<noteq> None \<and> fd_names (w_host (fl_world st3)) 4 = None"
proof -
  let ?st = "snd (linux_eventfd2 fd_demo 0 0x80800 fd_start)"
  let ?st1 = "snd (linux_close_fd fd_demo 4 ?st)"
  let ?st2 = "snd (linux_open_path fd_demo (-100) ''/d'' 0 0 ?st1)"
  have wake: "is_wake_eventfd 3 ?st" "eventfd_write_peers (fl_table ?st) 3 = 4 + 1"
    by (simp_all add: fd_demo_wake) (simp_all add: is_wake_eventfd_def fd_at_def tracked_def)
  have opened: "linux_open_path fd_demo (-100) ''/d'' 0 0 ?st1 = (Done (Value 4), ?st2)"
    by (simp add: fd_demo_wake fd_demo_close tracked_def) (simp add: fd_demo_open [where fd = 4] tracked_def next_fd_def)
  have "(3::int) \<noteq> 4" by simp
  from wake_peer_stolen [OF fd_demo_laws wake this prod.collapse [symmetric] opened prod.collapse [symmetric]]
  show ?thesis unfolding Let_def .
qed

end
