(* ===== verification/Guest_Process.thy ===== *)
theory Guest_Process
  imports Guest_Path
begin

text \<open>
  \<open>src/src/guest_process.c\<close>: starting another program. The guest's \<open>execve\<close> becomes an
  \<open>execve\<close> of the emulator itself, with the root, the working directory and the host path of the
  program in front of the guest's arguments; a script is replaced by its interpreter. A load
  that failed because its addresses were taken is tried again in a fresh process, a bounded
  number of times.
\<close>

section \<open>State and host\<close>

abbreviation (input) MAX_EXEC_VECTOR :: nat where "MAX_EXEC_VECTOR \<equiv> 4096"

type_synonym environment = "string \<Rightarrow> string option"

text \<open>
  The host's calls. The process image is replaced when \<open>execve\<close> does not fail; \<open>sigprocmask\<close>
  with \<open>SIG_UNBLOCK\<close> on \<open>SIGILL\<close> and \<open>SIGSEGV\<close> delivers the old mask.
\<close>

record 'h proc_host =
  ph_fs :: "'h host_fs"
  ph_path_max :: nat
  ph_open :: "string \<Rightarrow> 'h world \<Rightarrow> (host_errno + int) \<times> 'h world"
  ph_read :: "int \<Rightarrow> nat \<Rightarrow> 'h world \<Rightarrow> (host_errno + string) \<times> 'h world"
  ph_close :: "int \<Rightarrow> 'h world \<Rightarrow> 'h world"
  ph_unblock_traps :: "'h world \<Rightarrow> (host_errno + int set) \<times> 'h world"
  ph_set_mask :: "int set \<Rightarrow> 'h world \<Rightarrow> 'h world"
  ph_execve :: "string \<Rightarrow> string list \<Rightarrow> string list \<Rightarrow> 'h world \<Rightarrow> host_errno option \<times> 'h world"
  ph_setenv_ok :: "'h world \<Rightarrow> host_errno option"
  ph_reexec :: "string \<Rightarrow> string list \<Rightarrow> environment \<Rightarrow> 'h world \<Rightarrow> host_errno option \<times> 'h world"

definition starts_with :: "string \<Rightarrow> string \<Rightarrow> bool" where
  "starts_with prefix s \<longleftrightarrow> take (length prefix) s = prefix"

definition hidden_environment :: "string \<Rightarrow> bool" where
  "hidden_environment value \<longleftrightarrow>
     starts_with ''LINUXEMU_ROOT='' value \<or> starts_with ''LINUXEMU_GUEST_'' value \<or>
     starts_with ''LD_LIBRARY_PATH='' value"

text \<open>\<open>guest_process_initialize\<close> delivers the new \<open>emulator_path\<close>.\<close>

definition guest_process_initialize ::
  "'h proc_host \<Rightarrow> string option \<Rightarrow> 'h world \<Rightarrow> string outcome \<times> 'h world" where
  "guest_process_initialize H emulator w =
     (case emulator of None \<Rightarrow> (FailStale, w)
      | Some e \<Rightarrow>
          (case fs_realpath (ph_fs H) e w of
             (Inl err, w) \<Rightarrow> (Fail err, w)
           | (Inr path, w) \<Rightarrow> (Done path, w)))"

section \<open>Retrying a load\<close>

text \<open>\<open>strtoul\<close> in base 10 on a 32-bit \<open>unsigned long\<close>: the value and the rest of the string, or
  \<open>None\<close> when there is no number.\<close>

definition is_space :: "char \<Rightarrow> bool" where
  "is_space c \<longleftrightarrow> c = CHR '' '' \<or> of_char c \<in> {9..13 :: nat}"

definition is_digit :: "char \<Rightarrow> bool" where
  "is_digit c \<longleftrightarrow> of_char c \<in> {48..57 :: nat}"

definition digits_value :: "string \<Rightarrow> nat" where
  "digits_value s = foldl (\<lambda>v c. v * 10 + (of_char c - 48)) 0 s"

definition strtoul :: "string \<Rightarrow> (nat \<times> string) option" where
  "strtoul s =
     (let t = dropWhile is_space s;
          negative = (t \<noteq> [] \<and> hd t = CHR ''-'');
          u = (if t \<noteq> [] \<and> (hd t = CHR ''-'' \<or> hd t = CHR ''+'') then tl t else t);
          digits = takeWhile is_digit u;
          n = digits_value digits
      in if digits = [] then None
         else Some (if n \<ge> 2 ^ 32 then 2 ^ 32 - 1 else if negative then (2 ^ 32 - n) mod 2 ^ 32 else n,
                    dropWhile is_digit u))"

text \<open>\<open>snprintf\<close> with \<open>%lu\<close>.\<close>

fun decimal :: "nat \<Rightarrow> string" where
  "decimal n = (if n < 10 then [char_of (48 + n)] else decimal (n div 10) @ [char_of (48 + n mod 10)])"

declare decimal.simps [simp del]

text \<open>
  \<open>Done\<close> is a process image replaced by the emulator with the given arguments and environment.
  The buffer of 16 bytes holds every value below \<open>2 ^ 32\<close>.
\<close>

definition guest_process_retry_load ::
  "'h proc_host \<Rightarrow> string \<Rightarrow> string list \<Rightarrow> environment \<Rightarrow> 'h world \<Rightarrow>
    (string \<times> string list \<times> environment) outcome \<times> environment \<times> 'h world" where
  "guest_process_retry_load H emulator_path arguments env w =
     (let value = env ''LINUXEMU_LOAD_RETRY'';
          parsed = (case value of None \<Rightarrow> Some (0, []) | Some v \<Rightarrow> strtoul v)
      in case parsed of
           None \<Rightarrow> (Fail EEXIST, env, w)
         | Some (attempt, rest) \<Rightarrow>
             if rest \<noteq> [] \<or> attempt \<ge> 31 then (Fail EEXIST, env, w)
             else
               (case ph_setenv_ok H w of
                  Some e \<Rightarrow> (Fail e, env, w)
                | None \<Rightarrow>
                    let env1 = env(''LINUXEMU_LOAD_RETRY'' \<mapsto> decimal (attempt + 1)) in
                    (case ph_reexec H emulator_path arguments env1 w of
                       (None, w) \<Rightarrow> (Done (emulator_path, arguments, env1), env1, w)
                     | (Some e, w) \<Rightarrow> (Fail e, env1(''LINUXEMU_LOAD_RETRY'' := None), w))))"

section \<open>Scripts\<close>

record shebang =
  sb_interpreter :: string
  sb_option :: string
  sb_host_path :: string

abbreviation (input) tab :: char where "tab \<equiv> CHR 0x09"
abbreviation (input) newline :: char where "newline \<equiv> CHR 0x0A"
abbreviation (input) creturn :: char where "creturn \<equiv> CHR 0x0D"

definition blank :: "char \<Rightarrow> bool" where
  "blank c \<longleftrightarrow> c = CHR '' '' \<or> c = tab"

text \<open>The parse of the first line, from the two characters after \<open>#!\<close> on: interpreter and option.\<close>

definition parse_shebang :: "string \<Rightarrow> string \<times> string" where
  "parse_shebang buffer =
     (let text = takeWhile (\<lambda>c. c \<noteq> CHR 0x00) buffer;
          cursor = dropWhile blank text;
          interpreter = takeWhile (\<lambda>c. c \<noteq> newline \<and> \<not> blank c) cursor;
          option = takeWhile (\<lambda>c. c \<noteq> newline) (dropWhile blank (drop (length interpreter) cursor))
      in (interpreter, rev (dropWhile (\<lambda>c. blank c \<or> c = creturn) (rev option))))"

text \<open>\<open>read_shebang\<close>: \<open>Done None\<close> is the return value 0, the file is not a script.\<close>

definition read_shebang ::
  "'h proc_host \<Rightarrow> guest_paths \<Rightarrow> string \<Rightarrow> 'h world \<Rightarrow> shebang option outcome \<times> 'h world" where
  "read_shebang H gp host_executable w =
     (case ph_open H host_executable w of
        (Inl e, w) \<Rightarrow> (Fail e, w)
      | (Inr descriptor, w) \<Rightarrow>
          (case ph_read H descriptor 255 w of
             (r, w) \<Rightarrow>
               let w = ph_close H descriptor w in
               (case r of
                  Inl e \<Rightarrow> (Fail e, w)
                | Inr buffer \<Rightarrow>
                    if length buffer < 2 \<or> buffer ! 0 \<noteq> CHR ''#'' \<or> buffer ! 1 \<noteq> CHR ''!'' then (Done None, w)
                    else
                      (case parse_shebang (drop 2 buffer) of
                         (interpreter, option) \<Rightarrow>
                           if interpreter = [] then (Fail ENOEXEC, w)
                           else if length interpreter \<ge> ph_path_max H then (Fail ENAMETOOLONG, w)
                           else if length option \<ge> 256 then (Fail E2BIG, w)
                           else (case guest_path_resolve (ph_fs H) (ph_path_max H) gp interpreter False (ph_path_max H) w of
                               (Done host_path, w) \<Rightarrow>
                                 (Done (Some \<lparr>sb_interpreter = interpreter, sb_option = option,
                                    sb_host_path = host_path\<rparr>), w)
                             | (Fail e, w) \<Rightarrow> (Fail e, w) | (FailStale, w) \<Rightarrow> (FailStale, w)
                             | (Fault, w) \<Rightarrow> (Fault, w) | (Hang, w) \<Rightarrow> (Hang, w))))))"

section \<open>Replacing the program\<close>

text \<open>The vector \<open>host_arguments\<close>, without its terminating null pointer.\<close>

definition exec_arguments ::
  "string \<Rightarrow> guest_paths \<Rightarrow> string \<Rightarrow> string \<Rightarrow> string list \<Rightarrow> shebang option \<Rightarrow> string list" where
  "exec_arguments emulator_path gp host_executable guest_executable guest_argv sb =
     [emulator_path, ''--linuxemu-exec'', root_path gp, guest_cwd gp,
      case sb of Some s \<Rightarrow> sb_host_path s | None \<Rightarrow> host_executable] @
     (case sb of
        Some s \<Rightarrow> sb_interpreter s # (if sb_option s \<noteq> [] then [sb_option s] else []) @
          guest_executable # tl guest_argv
      | None \<Rightarrow> guest_argv)"

definition exec_environment :: "bool \<Rightarrow> string list \<Rightarrow> string list" where
  "exec_environment trace guest_envp =
     filter (\<lambda>v. \<not> hidden_environment v) guest_envp @ (if trace then [''LINUXEMU_SYSTRACE=1''] else [])"

text \<open>Null pointers among the arguments are \<open>None\<close>; a vector is the list before its null pointer.\<close>

definition guest_process_exec ::
  "'h proc_host \<Rightarrow> bool \<Rightarrow> string \<Rightarrow> guest_paths \<Rightarrow> string option \<Rightarrow> string option \<Rightarrow>
    string list option \<Rightarrow> string list option \<Rightarrow> 'h world \<Rightarrow>
    (string \<times> string list \<times> string list) outcome \<times> 'h world" where
  "guest_process_exec H trace emulator_path gp host_executable guest_executable guest_argv guest_envp w =
     (case (host_executable, guest_executable, guest_argv, guest_envp) of
        (Some hx, Some gx, Some argv, Some envp) \<Rightarrow>
          if argv = [] \<or> root_path gp = [] then (Fail EINVAL, w)
          else if length argv > MAX_EXEC_VECTOR then (Fail E2BIG, w)
          else
            (case read_shebang H gp hx w of
               (Done sb, w) \<Rightarrow>
                 if (case sb of None \<Rightarrow> False
                     | Some s \<Rightarrow> length argv + (if sb_option s \<noteq> [] then 2 else 1) > MAX_EXEC_VECTOR)
                 then (Fail E2BIG, w)
                 else if length (filter (\<lambda>v. \<not> hidden_environment v) envp) > MAX_EXEC_VECTOR then (Fail E2BIG, w)
                 else
                   (case ph_unblock_traps H w of
                      (Inl e, w) \<Rightarrow> (Fail e, w)
                    | (Inr old_mask, w) \<Rightarrow>
                        let args = exec_arguments emulator_path gp hx gx argv sb;
                            env = exec_environment trace envp
                        in (case ph_execve H emulator_path args env w of
                              (None, w) \<Rightarrow> (Done (emulator_path, args, env), w)
                            | (Some e, w) \<Rightarrow> (Fail e, ph_set_mask H old_mask w)))
             | (Fail e, w) \<Rightarrow> (Fail e, w) | (FailStale, w) \<Rightarrow> (FailStale, w)
             | (Fault, w) \<Rightarrow> (Fault, w) | (Hang, w) \<Rightarrow> (Hang, w))
      | _ \<Rightarrow> (Fail EINVAL, w))"


section \<open>Numbers\<close>

lemma of_digit_char: "d < 10 \<Longrightarrow> of_char (char_of (48 + d :: nat)) = 48 + d"
  by simp

lemma is_digit_char: "d < 10 \<Longrightarrow> is_digit (char_of (48 + d :: nat))"
  by (simp add: is_digit_def)

lemma digits_value_snoc: "digits_value (s @ [c]) = digits_value s * 10 + (of_char c - 48)"
  by (simp add: digits_value_def)

lemma decimal_facts: "decimal n \<noteq> [] \<and> (\<forall>c\<in>set (decimal n). is_digit c) \<and> digits_value (decimal n) = n"
proof (induction n rule: decimal.induct)
  case (1 n)
  show ?case
  proof (cases "n < 10")
    case True
    then show ?thesis by (subst (1 2 3) decimal.simps) (simp add: is_digit_char digits_value_def)
  next
    case False
    have "n mod 10 < 10" by simp
    then show ?thesis
      using 1 [OF False] False
      by (subst (1 2 3) decimal.simps) (auto simp: is_digit_char digits_value_snoc)
  qed
qed

lemma digit_not_special: "is_digit c \<Longrightarrow> \<not> is_space c \<and> c \<noteq> CHR ''-'' \<and> c \<noteq> CHR ''+''"
  by (auto simp: is_digit_def is_space_def)

lemma strtoul_decimal:
  assumes "n < 2 ^ 32"
  shows "strtoul (decimal n) = Some (n, [])"
proof -
  obtain c s where s: "decimal n = c # s" using decimal_facts [of n] by (cases "decimal n") auto
  have d: "is_digit c" "\<forall>c\<in>set (decimal n). is_digit c" "digits_value (decimal n) = n"
    using decimal_facts [of n] s by auto
  have w: "dropWhile is_space (decimal n) = decimal n" "takeWhile is_digit (decimal n) = decimal n"
    "dropWhile is_digit (decimal n) = []"
    using d digit_not_special [OF d(1)] by (simp_all add: s)
  show ?thesis using digit_not_special [OF d(1)] assms d(3) w unfolding strtoul_def Let_def
    by (simp add: s)
qed

section \<open>Properties\<close>

text \<open>The processes of a chain of retries: each starts with the environment its predecessor left.\<close>

fun retry_chain ::
  "'h proc_host \<Rightarrow> string \<Rightarrow> string list \<Rightarrow> nat \<Rightarrow> environment \<Rightarrow> 'h world \<Rightarrow> environment option" where
  "retry_chain H emulator_path arguments 0 env w = Some env"
| "retry_chain H emulator_path arguments (Suc n) env w =
     (case guest_process_retry_load H emulator_path arguments env w of
        (Done (_, _, env1), _, w) \<Rightarrow> retry_chain H emulator_path arguments n env1 w
      | _ \<Rightarrow> None)"

definition attempts :: "environment \<Rightarrow> nat option" where
  "attempts env = (case env ''LINUXEMU_LOAD_RETRY'' of None \<Rightarrow> Some 0
     | Some v \<Rightarrow> (case strtoul v of Some (n, []) \<Rightarrow> Some n | _ \<Rightarrow> None))"

lemma retry_load_done:
  assumes "guest_process_retry_load H e args env w = (Done (e', args', env'), env'', w')"
  obtains k where "attempts env = Some k" "k < 31" "attempts env' = Some (Suc k)" "e' = e" "args' = args"
proof -
  obtain k where k: "attempts env = Some k" "k < 31"
    and env': "env' = env(''LINUXEMU_LOAD_RETRY'' \<mapsto> decimal (Suc k))" and "e' = e" "args' = args"
    using assms
    by (auto simp: guest_process_retry_load_def attempts_def Let_def not_le split: option.splits prod.splits if_splits)
  then show thesis using that [OF k] by (simp add: attempts_def strtoul_decimal)
qed

lemma retry_chain_attempts:
  "retry_chain H e args n env w = Some env' \<Longrightarrow> n \<noteq> 0 \<Longrightarrow>
    \<exists>k. attempts env = Some k \<and> attempts env' = Some (k + n) \<and> k + n \<le> 31"
proof (induction n arbitrary: env w)
  case (Suc n)
  obtain r env2 w2 where run: "guest_process_retry_load H e args env w = (r, env2, w2)"
    by (cases "guest_process_retry_load H e args env w")
  then obtain e1 args1 env1 where r: "r = Done (e1, args1, env1)"
    and rest: "retry_chain H e args n env1 w2 = Some env'"
    using Suc.prems(1) by (cases r) (auto split: prod.splits)
  obtain k where k: "attempts env = Some k" "k < 31" "attempts env1 = Some (Suc k)"
    using retry_load_done [OF run [unfolded r]] by metis
  show ?case
  proof (cases "n = 0")
    case True
    then show ?thesis using k rest by simp
  next
    case False
    then show ?thesis using Suc.IH [OF rest] k by auto
  qed
qed simp

text \<open>
  C32 (termination). A program whose load keeps failing on occupied addresses is retried at most 31
  times: whatever the environment holds at the start, no chain of re-executed emulators is
  longer, and the process with 31 attempts behind it gives up with \<open>EEXIST\<close>.
\<close>

theorem load_retry_bounded:
  "(retry_chain H emulator_path arguments n env w \<noteq> None \<longrightarrow> n \<le> 31) \<and>
   (retry_chain H emulator_path arguments 31 env w = Some env' \<longrightarrow>
     guest_process_retry_load H emulator_path arguments env' w' = (Fail EEXIST, env', w'))"
proof (intro conjI impI)
  assume "retry_chain H emulator_path arguments n env w \<noteq> None"
  then show "n \<le> 31" using retry_chain_attempts [of H emulator_path arguments n env w] by (cases "n = 0") auto
next
  assume "retry_chain H emulator_path arguments 31 env w = Some env'"
  then have "attempts env' = Some 31" using retry_chain_attempts [of H emulator_path arguments 31 env w env'] by auto
  then show "guest_process_retry_load H emulator_path arguments env' w' = (Fail EEXIST, env', w')"
    by (auto simp: attempts_def guest_process_retry_load_def Let_def split: option.splits list.splits)
qed

text \<open>The line of a script: the parse recovers the interpreter and the option it was written from.\<close>

lemma takeWhile_stop: "\<forall>x\<in>set xs. P x \<Longrightarrow> ys = [] \<or> \<not> P (hd ys) \<Longrightarrow> takeWhile P (xs @ ys) = xs"
  by (cases ys) (simp_all add: takeWhile_append2)

lemma dropWhile_stop: "\<forall>x\<in>set xs. P x \<Longrightarrow> ys = [] \<or> \<not> P (hd ys) \<Longrightarrow> dropWhile P (xs @ ys) = ys"
  by (cases ys) (simp_all add: dropWhile_append2)

lemma parse_shebang_line:
  assumes gap: "\<forall>c\<in>set lead. blank c" "\<forall>c\<in>set gap. blank c" "gap \<noteq> []"
    "\<forall>c\<in>set trail. blank c \<or> c = creturn"
    and int: "interpreter \<noteq> []" "\<forall>c\<in>set interpreter. c \<noteq> newline \<and> c \<noteq> CHR 0x00 \<and> \<not> blank c"
    and opt: "\<forall>c\<in>set option. c \<noteq> newline \<and> c \<noteq> CHR 0x00"
      "option \<noteq> [] \<longrightarrow> \<not> blank (hd option) \<and> \<not> (blank (last option) \<or> last option = creturn)"
    and trail: "option = [] \<longrightarrow> trail = []"
  shows "parse_shebang (lead @ interpreter @ gap @ option @ trail @ newline # rest) = (interpreter, option)"
proof -
  have nul: "c \<noteq> CHR 0x00" if "blank c \<or> c = creturn" for c using that by (auto simp: blank_def)
  have nl: "c \<noteq> newline" if "blank c \<or> c = creturn" for c using that by (auto simp: blank_def)
  define rest' where "rest' = takeWhile (\<lambda>c. c \<noteq> CHR 0x00) rest"
  have line: "takeWhile (\<lambda>c. c \<noteq> CHR 0x00) (lead @ interpreter @ gap @ option @ trail @ newline # rest) =
      lead @ interpreter @ gap @ option @ trail @ newline # rest'"
    using gap int opt nul by (simp add: takeWhile_append2 rest'_def)
  have "\<not> blank (hd interpreter)" using int by simp
  then have cur: "dropWhile blank (lead @ interpreter @ gap @ option @ trail @ newline # rest') =
      interpreter @ gap @ option @ trail @ newline # rest'"
    using gap(1) int(1) by (intro dropWhile_stop) auto
  have itp: "takeWhile (\<lambda>c. c \<noteq> newline \<and> \<not> blank c) (interpreter @ gap @ option @ trail @ newline # rest') = interpreter"
    using gap(2,3) int by (intro takeWhile_stop) (auto simp: hd_append)
  have "\<not> blank (hd (option @ trail @ newline # rest'))"
    using opt(2) trail by (cases "option = []") (auto simp: blank_def)
  then have o1: "dropWhile blank (gap @ option @ trail @ newline # rest') = option @ trail @ newline # rest'"
    using gap(2) by (intro dropWhile_stop) auto
  have o2: "takeWhile (\<lambda>c. c \<noteq> newline) ((option @ trail) @ newline # rest') = option @ trail"
    using opt(1) gap(4) nl by (intro takeWhile_stop) auto
  have o3: "dropWhile (\<lambda>c. blank c \<or> c = creturn) (rev trail @ rev option) = rev option"
    using gap(4) opt(2) by (intro dropWhile_stop) (auto simp: hd_rev)
  show ?thesis using o2 by (simp add: parse_shebang_def line cur itp o1 o3)
qed

text \<open>What an \<open>execve\<close> that replaces the process has gone through.\<close>

lemma exec_done:
  assumes "guest_process_exec H trace emulator_path gp hx gx argv envp w = (Done (path, args, env), w')"
  obtains a b c d sh w1 where "hx = Some a" "gx = Some b" "argv = Some c" "envp = Some d" "c \<noteq> []" "length c \<le> 4096"
    "read_shebang H gp a w = (Done sh, w1)"
    "\<forall>s. sh = Some s \<longrightarrow> length c + (if sb_option s \<noteq> [] then 2 else 1) \<le> 4096"
    "length (filter (\<lambda>v. \<not> hidden_environment v) d) \<le> 4096"
    "path = emulator_path" "args = exec_arguments emulator_path gp a b c sh" "env = exec_environment trace d"
proof -
  from assms obtain a b c d where ptr: "hx = Some a" "gx = Some b" "argv = Some c" "envp = Some d"
    by (cases hx; cases gx; cases argv; cases envp) (simp_all add: guest_process_exec_def)
  have c: "c \<noteq> []" "length c \<le> 4096" using assms ptr by (auto simp: guest_process_exec_def split: if_splits)
  obtain r w1 where sb: "read_shebang H gp a w = (r, w1)" by (cases "read_shebang H gp a w")
  obtain sh where r: "r = Done sh" using assms ptr sb by (cases r) (auto simp: guest_process_exec_def split: if_splits)
  note run = assms [unfolded ptr guest_process_exec_def, simplified, unfolded sb r]
  have fit: "\<forall>s. sh = Some s \<longrightarrow> length c + (if sb_option s \<noteq> [] then 2 else 1) \<le> 4096"
    "length (filter (\<lambda>v. \<not> hidden_environment v) d) \<le> 4096"
    and res: "path = emulator_path" "args = exec_arguments emulator_path gp a b c sh" "env = exec_environment trace d"
    using run by (auto simp: Let_def not_less split: if_splits sum.splits prod.splits option.splits)
  from that [OF ptr c sb [unfolded r] fit res] show thesis .
qed

text \<open>
  The vectors of a guest's \<open>execve\<close> fit the static arrays: when the emulator is
  executed, its argument vector with the closing null pointer has at most \<open>MAX_EXEC_VECTOR + 6\<close>
  entries and its environment at most \<open>MAX_EXEC_VECTOR + 2\<close>, with or without a script's
  interpreter and option. The vector names the root, the directory and at least one guest argument, and
  none of the variables that configure the emulator reaches the new process.
\<close>

theorem exec_vectors_fit:
  assumes "guest_process_exec H trace emulator_path gp hx gx argv envp w = (Done (path, args, env), w')"
  shows "path = emulator_path \<and> length args + 1 \<le> 4096 + 6 \<and> length env + 1 \<le> 4096 + 2 \<and>
    take 4 args = [emulator_path, ''--linuxemu-exec'', root_path gp, guest_cwd gp] \<and> 6 \<le> length args \<and>
    (\<forall>v\<in>set env. \<not> hidden_environment v)"
proof -
  obtain a b c d sh w1 where c: "c \<noteq> []" "length c \<le> 4096"
    and fit: "\<forall>s. sh = Some s \<longrightarrow> length c + (if sb_option s \<noteq> [] then 2 else 1) \<le> 4096"
      "length (filter (\<lambda>v. \<not> hidden_environment v) d) \<le> 4096"
    and res: "path = emulator_path" "args = exec_arguments emulator_path gp a b c sh" "env = exec_environment trace d"
    by (rule exec_done [OF assms])
  have "length args + 1 \<le> 4096 + 6 \<and> 6 \<le> length args"
    using fit(1) c by (cases sh; cases c) (auto simp: res exec_arguments_def split: if_splits)
  moreover have "length env + 1 \<le> 4096 + 2" using fit(2) by (simp add: res exec_environment_def)
  moreover have "\<not> hidden_environment ''LINUXEMU_SYSTRACE=1''" by (simp add: hidden_environment_def starts_with_def)
  then have "\<forall>v\<in>set env. \<not> hidden_environment v" by (auto simp: res exec_environment_def)
  moreover have "take 4 args = [emulator_path, ''--linuxemu-exec'', root_path gp, guest_cwd gp]"
    by (simp add: res exec_arguments_def)
  ultimately show ?thesis using res(1) by blast
qed

section \<open>Witnesses\<close>

text \<open>A host on which every file is a script and \<open>execve\<close> succeeds.\<close>

definition script_host :: "unit proc_host" where
  "script_host = \<lparr>ph_fs = linked_fs, ph_path_max = 1024, ph_open = (\<lambda>p w. (Inr 3, w)),
     ph_read = (\<lambda>fd n w. (Inr (''#!/bin/sh -e'' @ [newline] @ ''echo''), w)), ph_close = (\<lambda>fd w. w),
     ph_unblock_traps = (\<lambda>w. (Inr {}, w)), ph_set_mask = (\<lambda>m w. w), ph_execve = (\<lambda>p a e w. (None, w)),
     ph_setenv_ok = (\<lambda>w. None), ph_reexec = (\<lambda>p a e w. (None, w))\<rparr>"

lemma script_shebang:
  "read_shebang script_host \<lparr>root_path = ''/g'', guest_cwd = ''/''\<rparr> ''/g/run'' nowhere =
   (Done (Some \<lparr>sb_interpreter = ''/bin/sh'', sb_option = ''-e'', sb_host_path = ''/g/bin/sh''\<rparr>), nowhere)"
proof -
  have "parse_shebang (''/bin/sh -e'' @ newline # ''echo'') = (''/bin/sh'', ''-e'')"
    by (simp add: parse_shebang_def blank_def)
  moreover have "guest_path_resolve linked_fs 1024 \<lparr>root_path = ''/g'', guest_cwd = ''/''\<rparr> ''/bin/sh'' False 1024 nowhere =
      (Done ''/g/bin/sh'', nowhere)"
    by (simp add: guest_path_resolve_def normalize_guest_path_def Let_def resolve_guest_symlinks_def resolve_guest_device_def
        resolve_walk.simps linked_fs_def link_target_path_def finish_resolved_def host_path_of_def)
  ultimately show ?thesis by (simp add: read_shebang_def script_host_def)
qed

lemma script_exec:
  "guest_process_exec script_host False ''/emu'' \<lparr>root_path = ''/g'', guest_cwd = ''/''\<rparr> (Some ''/g/run'') (Some ''/run'')
     (Some [''run'', ''x'']) (Some [''A=1'', ''LD_LIBRARY_PATH=/x'']) nowhere =
   (Done (''/emu'', [''/emu'', ''--linuxemu-exec'', ''/g'', ''/'', ''/g/bin/sh'', ''/bin/sh'', ''-e'', ''/run'', ''x''],
      [''A=1'']), nowhere)"
proof -
  have "\<not> hidden_environment ''A=1''" "hidden_environment ''LD_LIBRARY_PATH=/x''"
    by (simp_all add: hidden_environment_def starts_with_def)
  moreover have "ph_unblock_traps script_host w = (Inr {}, w)" "ph_execve script_host p a e w = (None, w)" for p a e w
    by (simp_all add: script_host_def)
  ultimately show ?thesis
    by (simp add: guest_process_exec_def script_shebang exec_arguments_def exec_environment_def)
qed

theorem exec_vectors_fit_witness:
  "length [''/emu'', ''--linuxemu-exec'', ''/g'', ''/'', ''/g/bin/sh'', ''/bin/sh'', ''-e'', ''/run'', ''x''] + 1 \<le> 4096 + 6"
  using exec_vectors_fit [OF script_exec] by blast

theorem load_retry_bounded_witness:
  "retry_chain script_host ''/emu'' [''/emu'', ''prog''] 2 (\<lambda>_. None) nowhere \<noteq> None \<and> (2 :: nat) \<le> 31"
proof -
  have one: "strtoul (decimal (Suc 0)) = Some (1, [])" using strtoul_decimal [of 1] by simp
  have "retry_chain script_host ''/emu'' [''/emu'', ''prog''] 2 (\<lambda>_. None) nowhere \<noteq> None"
    by (simp add: numeral_2_eq_2 guest_process_retry_load_def script_host_def one Let_def)
  then show ?thesis using load_retry_bounded by blast
qed

end
