(* ===== verification/Elf_Loader.thy ===== *)
theory Elf_Loader
  imports Arm_Patch Guest_Memory Guest_Path
begin

text \<open>
  \<open>src/src/elf_loader.c\<close>: validation of the ELF headers, mapping of the load segments at
  one of several biases, patching of the executable sections, and the rollback of a load
  that fails. The loader's decisions depend on \<open>errno\<close> (it keeps an earlier value where
  nothing set one, and retries only on \<open>EEXIST\<close>), so \<open>errno\<close> is part of the state.
\<close>

unbundle bit_operations_syntax

section \<open>State\<close>

text \<open>
  What a function of this file does: it returns a value, it returns -1 with \<open>errno\<close> in the
  state, or it does not return (\<open>Stuck\<close>) because a read never ends or a path overruns the
  component array of the path resolver.
\<close>

datatype 'a cret = Ret 'a | Err | Stuck

record 'h loader =
  ld_patches :: patch_table
  ld_memory :: guest_memory
  ld_world :: "'h world"
  ld_errno :: host_errno

record elf_object =
  ob_entry :: u32
  ob_load_bias :: u32
  ob_program_headers :: u32
  ob_program_header_size :: u32
  ob_program_header_count :: u32
  ob_data_end :: u32

record guest_image =
  im_entry :: u32
  im_start_entry :: u32
  im_interpreter_base :: u32
  im_program_headers :: u32
  im_program_header_size :: u32
  im_program_header_count :: u32
  im_initial_brk :: u32

text \<open>\<open>if (errno == 0) errno = ENOEXEC\<close>\<close>

definition errno_default :: "'h loader \<Rightarrow> 'h loader" where
  "errno_default s = (if ld_errno s = NoError then s\<lparr>ld_errno := ENOEXEC\<rparr> else s)"

definition ld_read :: "'h host_file \<Rightarrow> int \<Rightarrow> nat \<Rightarrow> int \<Rightarrow> 'h loader \<Rightarrow> u8 list cret \<times> 'h loader" where
  "ld_read F fd n off s =
     (case read_exact_at (f_pread F) fd n off (ld_world s) of
        (Done bs, w) \<Rightarrow> (Ret bs, s\<lparr>ld_world := w\<rparr>)
      | (Fail e, w) \<Rightarrow> (Err, s\<lparr>ld_world := w, ld_errno := e\<rparr>)
      | (_, w) \<Rightarrow> (Stuck, s\<lparr>ld_world := w\<rparr>))"

definition ld_rollback :: "'h host_mm \<Rightarrow> nat \<Rightarrow> nat \<Rightarrow> 'h loader \<Rightarrow> 'h loader" where
  "ld_rollback M patches_before loads_before s =
     (let (ps, m) = arm_patch_rollback patches_before (ld_patches s, w_mem (ld_world s));
          (g, w) = guest_memory_rollback M loads_before (ld_memory s, (ld_world s)\<lparr>w_mem := m\<rparr>)
      in s\<lparr>ld_patches := ps, ld_memory := g, ld_world := w\<rparr>)"

section \<open>Validation\<close>

definition range_in_file :: "u32 \<Rightarrow> u32 \<Rightarrow> int \<Rightarrow> bool" where
  "range_in_file offset len file_size \<longleftrightarrow>
     file_size \<ge> 0 \<and> int (unat offset) \<le> file_size \<and> int (unat len) \<le> file_size - int (unat offset)"

definition valid_alignment :: "u32 \<Rightarrow> bool" where
  "valid_alignment alignment \<longleftrightarrow>
     alignment = 0 \<or> alignment = 1 \<or> alignment AND (alignment - 1) = 0"

definition validate_program_header :: "elf32_phdr \<Rightarrow> int \<Rightarrow> bool" where
  "validate_program_header header file_size \<longleftrightarrow>
     (if p_type header = PT_LOAD \<and> p_memsz header \<noteq> 0 then
        \<not> (p_memsz header < p_filesz header \<or>
           (p_filesz header \<noteq> 0 \<and> \<not> range_in_file (p_offset header) (p_filesz header) file_size) \<or>
           \<not> valid_alignment (p_align header) \<or>
           (p_align header > 1 \<and>
             (p_vaddr header - p_offset header) AND (p_align header - 1) \<noteq> 0) \<or>
           p_flags header AND NOT (PF_R OR PF_W OR PF_X) \<noteq> 0 \<or>
           p_flags header AND (PF_W OR PF_X) = PF_W OR PF_X)
      else \<not> (p_type header = PT_INTERP \<and>
              \<not> range_in_file (p_offset header) (p_filesz header) file_size))"

text \<open>The component loop of \<open>safe_interpreter_path\<close> on the rest of the path.\<close>

function safe_components :: "string \<Rightarrow> bool" where
  "safe_components p =
     (if p = [] then True
      else let component = takeWhile (\<lambda>x. x \<noteq> slash) p in
        if component = [] \<or> component = ''.'' \<or> component = ''..'' then False
        else if length component = length p then True
        else safe_components (drop (Suc (length component)) p))"
  by pat_completeness auto
termination
  by (relation "measure length") auto

declare safe_components.simps [simp del]

definition safe_interpreter_path :: "string \<Rightarrow> bool" where
  "safe_interpreter_path path \<longleftrightarrow>
     \<not> (path = [] \<or> hd path \<noteq> slash \<or> tl path = [] \<or> last path = slash) \<and> safe_components (tl path)"

definition section_in_executable_load :: "elf32_shdr \<Rightarrow> elf32_phdr list \<Rightarrow> bool" where
  "section_in_executable_load sec headers \<longleftrightarrow>
     list_ex (\<lambda>h.
       \<not> (p_type h \<noteq> PT_LOAD \<or> p_flags h AND PF_X = 0 \<or>
          sh_addr sec < p_vaddr h \<or> sh_offset sec < p_offset h) \<and>
       (let address_delta = sh_addr sec - p_vaddr h; file_delta = sh_offset sec - p_offset h
        in address_delta = file_delta \<and> file_delta \<le> p_filesz h \<and>
           sh_size sec \<le> p_filesz h - file_delta)) headers"

section \<open>Patching the sections\<close>

text \<open>\<open>Ret False\<close>: the section has no code and is skipped.\<close>

definition patch_section ::
  "elf32_phdr list \<Rightarrow> u32 \<Rightarrow> int \<Rightarrow> elf32_shdr \<Rightarrow> 'h loader \<Rightarrow> bool cret \<times> 'h loader" where
  "patch_section headers load_bias file_size sec s =
     (if sh_flags sec AND SHF_EXECINSTR = 0 \<or> sh_size sec = 0 then (Ret False, s)
      else if sh_type sec \<noteq> SHT_PROGBITS \<or>
        \<not> range_in_file (sh_offset sec) (sh_size sec) file_size \<or>
        \<not> valid_alignment (sh_addralign sec) \<or> sh_flags sec AND SHF_WRITE \<noteq> 0 \<or>
        \<not> section_in_executable_load sec headers \<or> load_bias > UINTPTR_MAX - sh_addr sec
      then (Err, s\<lparr>ld_errno := ENOEXEC\<rparr>)
      else let start = load_bias + sh_addr sec in
        if start AND 3 \<noteq> 0 \<or> sh_size sec AND 3 \<noteq> 0 \<or>
           \<not> guest_memory_is_executable start (sh_size sec) (ld_memory s)
        then (Err, errno_default s)
        else case arm_patch_range start (sh_size sec) (ld_patches s, w_mem (ld_world s)) of
          (r, ps, m) \<Rightarrow>
            let s1 = s\<lparr>ld_patches := ps, ld_world := (ld_world s)\<lparr>w_mem := m\<rparr>\<rparr> in
            if is_done r then (Ret True, s1)
            else (Err, errno_default (s1\<lparr>ld_errno := errno_after (ld_errno s) r\<rparr>)))"

primrec patch_sections ::
  "elf32_phdr list \<Rightarrow> u32 \<Rightarrow> int \<Rightarrow> elf32_shdr list \<Rightarrow> nat \<Rightarrow> 'h loader \<Rightarrow> nat cret \<times> 'h loader" where
  "patch_sections headers load_bias file_size [] count s = (Ret count, s)"
| "patch_sections headers load_bias file_size (sec # rest) count s =
     (case patch_section headers load_bias file_size sec s of
        (Ret patched, s) \<Rightarrow>
          patch_sections headers load_bias file_size rest (if patched then Suc count else count) s
      | (Err, s) \<Rightarrow> (Err, s)
      | (Stuck, s) \<Rightarrow> (Stuck, s))"

definition patch_executable_sections ::
  "'h host_file \<Rightarrow> int \<Rightarrow> elf32_ehdr \<Rightarrow> elf32_phdr list \<Rightarrow> u32 \<Rightarrow> int \<Rightarrow> 'h loader \<Rightarrow> unit cret \<times> 'h loader" where
  "patch_executable_sections F fd header headers load_bias file_size s =
     (let table_size = unat (e_shnum header) * sizeof_Shdr in
      if e_shnum header = 0 \<or> unat (e_shentsize header) \<noteq> sizeof_Shdr \<or>
         int (unat (e_shoff header)) > file_size \<or>
         int table_size > file_size - int (unat (e_shoff header))
      then (Err, s\<lparr>ld_errno := ENOEXEC\<rparr>)
      else if \<not> f_malloc_ok F table_size (ld_world s) then (Err, s\<lparr>ld_errno := ENOMEM\<rparr>)
      else case ld_read F fd table_size (int (unat (e_shoff header))) s of
        (Ret tbs, s) \<Rightarrow>
          (case patch_sections headers load_bias file_size
                  (decode_table decode_shdr sizeof_Shdr (unat (e_shnum header)) tbs) 0 s of
             (Ret count, s) \<Rightarrow> if count = 0 then (Err, s\<lparr>ld_errno := ENOEXEC\<rparr>) else (Ret (), s)
           | (Err, s) \<Rightarrow> (Err, s)
           | (Stuck, s) \<Rightarrow> (Stuck, s))
      | (Err, s) \<Rightarrow> (Err, s)
      | (Stuck, s) \<Rightarrow> (Stuck, s))"

section \<open>Loading an object\<close>

primrec map_headers ::
  "'h host_mm \<Rightarrow> 'h host_file \<Rightarrow> int \<Rightarrow> u32 \<Rightarrow> int \<Rightarrow> elf32_phdr list \<Rightarrow> u32 \<Rightarrow> 'h loader \<Rightarrow>
    u32 cret \<times> 'h loader" where
  "map_headers M F fd load_bias file_size [] data_end s = (Ret data_end, s)"
| "map_headers M F fd load_bias file_size (h # rest) data_end s =
     (if p_type h = PT_LOAD \<and> p_memsz h \<noteq> 0 then
        (case guest_memory_map_load_segment M (f_pread F) fd h load_bias file_size (ld_memory s, ld_world s) of
           (r, g, w) \<Rightarrow>
             let s1 = s\<lparr>ld_memory := g, ld_world := w, ld_errno := errno_after (ld_errno s) r\<rparr>;
                 segment_end = load_bias + p_vaddr h + p_memsz h
             in case r of
                  Done _ \<Rightarrow> map_headers M F fd load_bias file_size rest
                    (if segment_end > data_end then segment_end else data_end) s1
                | Fail _ \<Rightarrow> (Err, s1) | FailStale \<Rightarrow> (Err, s1)
                | Fault \<Rightarrow> (Stuck, s1) | Hang \<Rightarrow> (Stuck, s1))
      else map_headers M F fd load_bias file_size rest data_end s)"

text \<open>One pass of the attempt loop: \<open>Err\<close> is a failed attempt, already rolled back.\<close>

definition load_at_bias ::
  "'h host_mm \<Rightarrow> 'h host_file \<Rightarrow> int \<Rightarrow> elf32_ehdr \<Rightarrow> elf32_phdr list \<Rightarrow> int \<Rightarrow> u32 \<Rightarrow> 'h loader \<Rightarrow>
    u32 cret \<times> 'h loader" where
  "load_at_bias M F fd header headers file_size load_bias s =
     (let loads_before = guest_memory_segment_count (ld_memory s);
          patches_before = arm_patch_count (ld_patches s);
          failed = (\<lambda>s. (Err, ld_rollback M patches_before loads_before (errno_default s)))
      in case map_headers M F fd load_bias file_size headers 0 s of
           (Stuck, s) \<Rightarrow> (Stuck, s)
         | (Err, s) \<Rightarrow> failed s
         | (Ret data_end, s) \<Rightarrow>
             if guest_memory_segment_count (ld_memory s) = loads_before then failed s
             else case patch_executable_sections F fd header headers load_bias file_size s of
                 (Stuck, s) \<Rightarrow> (Stuck, s)
               | (Err, s) \<Rightarrow> failed s
               | (Ret _, s) \<Rightarrow>
                   if load_bias \<le> UINTPTR_MAX - e_entry header then (Ret data_end, s) else failed s)"

primrec try_biases ::
  "'h host_mm \<Rightarrow> 'h host_file \<Rightarrow> int \<Rightarrow> elf32_ehdr \<Rightarrow> elf32_phdr list \<Rightarrow> int \<Rightarrow> u32 list \<Rightarrow> 'h loader \<Rightarrow>
    (u32 \<times> u32) cret \<times> 'h loader" where
  "try_biases M F fd header headers file_size [] s = (Err, s\<lparr>ld_errno := EEXIST\<rparr>)"
| "try_biases M F fd header headers file_size (bias # rest) s =
     (case load_at_bias M F fd header headers file_size bias s of
        (Ret data_end, s) \<Rightarrow> (Ret (bias, data_end), s)
      | (Stuck, s) \<Rightarrow> (Stuck, s)
      | (Err, s) \<Rightarrow>
          if e_type header \<noteq> ET_DYN \<or> ld_errno s \<noteq> EEXIST then (Err, s)
          else try_biases M F fd header headers file_size rest s)"

abbreviation MAIN_ET_DYN_BIAS :: u32 where "MAIN_ET_DYN_BIAS \<equiv> 0x20000000"
abbreviation INTERPRETER_BIAS :: u32 where "INTERPRETER_BIAS \<equiv> 0x60000000"

definition object_biases :: "elf32_ehdr \<Rightarrow> u32 \<Rightarrow> u32 list" where
  "object_biases header dynamic_bias =
     (if e_type header \<noteq> ET_DYN then [0]
      else if dynamic_bias = INTERPRETER_BIAS then [0x60000000, 0x50000000, 0x40000000, 0x30000000]
      else [0x20000000, 0x30000000, 0x40000000, 0x50000000])"

definition elf_header_ok :: "elf32_ehdr \<Rightarrow> bool \<Rightarrow> int \<Rightarrow> bool" where
  "elf_header_ok h allow_executable st_size \<longleftrightarrow>
     \<not> (take 4 (e_ident h) \<noteq> ELFMAG \<or> e_ident h ! 4 \<noteq> ELFCLASS32 \<or> e_ident h ! 5 \<noteq> ELFDATA2LSB \<or>
        unat (e_ident h ! 6) \<noteq> EV_CURRENT \<or> unat (e_version h) \<noteq> EV_CURRENT \<or> e_machine h \<noteq> EM_ARM \<or>
        (e_type h \<noteq> ET_DYN \<and> \<not> (allow_executable \<and> e_type h = ET_EXEC)) \<or>
        unat (e_ehsize h) \<noteq> sizeof_Ehdr \<or> unat (e_phentsize h) \<noteq> sizeof_Phdr \<or>
        e_phnum h = 0 \<or> unat (e_phnum h) > MAX_LOAD_SEGMENTS \<or>
        int (unat (e_phoff h)) > st_size \<or> e_entry h AND 1 \<noteq> 0) \<and>
     \<not> int (unat (e_phnum h) * sizeof_Phdr) > st_size - int (unat (e_phoff h))"

definition string_of_bytes :: "u8 list \<Rightarrow> string" where
  "string_of_bytes bs = map (\<lambda>b. char_of (unat b)) bs"

text \<open>
  The second loop over the headers: the path of the interpreter, read into a buffer of
  \<open>capacity\<close> bytes, with its terminating NUL. Every failure is \<open>ENOEXEC\<close>.
\<close>

primrec read_interpreter ::
  "'h host_file \<Rightarrow> int \<Rightarrow> nat \<Rightarrow> elf32_phdr list \<Rightarrow> string \<Rightarrow> 'h loader \<Rightarrow> string cret \<times> 'h loader" where
  "read_interpreter F fd capacity [] interpreter s = (Ret interpreter, s)"
| "read_interpreter F fd capacity (h # rest) interpreter s =
     (if p_type h = PT_INTERP then
        if p_filesz h < 2 \<or> unat (p_filesz h) > capacity then (Err, s\<lparr>ld_errno := ENOEXEC\<rparr>)
        else case ld_read F fd (unat (p_filesz h)) (int (unat (p_offset h))) s of
            (Ret bs, s) \<Rightarrow>
              if last bs \<noteq> 0 \<or> 0 \<in> set (butlast bs) \<or> \<not> safe_interpreter_path (string_of_bytes (butlast bs))
              then (Err, s\<lparr>ld_errno := ENOEXEC\<rparr>)
              else read_interpreter F fd capacity rest (string_of_bytes (butlast bs)) s
          | (Err, s) \<Rightarrow> (Err, s\<lparr>ld_errno := ENOEXEC\<rparr>)
          | (Stuck, s) \<Rightarrow> (Stuck, s)
      else read_interpreter F fd capacity rest interpreter s)"

text \<open>The first segment that holds the whole program header table.\<close>

definition program_headers_address :: "elf32_ehdr \<Rightarrow> elf32_phdr list \<Rightarrow> u32 \<Rightarrow> u32" where
  "program_headers_address header headers load_bias =
     (case find (\<lambda>h. \<not> (p_type h \<noteq> PT_LOAD \<or> e_phoff header < p_offset h) \<and>
          (let delta = e_phoff header - p_offset h
           in delta \<le> p_filesz h \<and>
              unat (e_phnum header) * sizeof_Phdr \<le> unat (p_filesz h - delta))) headers of
        None \<Rightarrow> 0
      | Some h \<Rightarrow> load_bias + p_vaddr h + (e_phoff header - p_offset h))"

text \<open>
  \<open>load_elf_object\<close> after the file is open. The interpreter buffer is an optional capacity;
  without a buffer the object must not ask for an interpreter.
\<close>

definition load_open_object ::
  "'h host_mm \<Rightarrow> 'h host_file \<Rightarrow> int \<Rightarrow> u32 \<Rightarrow> bool \<Rightarrow> nat option \<Rightarrow> 'h loader \<Rightarrow>
    (elf_object \<times> string) cret \<times> 'h loader" where
  "load_open_object M F fd dynamic_bias allow_executable capacity s =
     (case f_size F fd (ld_world s) of
        Inl e \<Rightarrow> (Err, s\<lparr>ld_errno := e\<rparr>)
      | Inr st_size \<Rightarrow>
          if st_size < 0 \<or> st_size > 2 ^ 32 - 1 then (Err, s)
          else case ld_read F fd sizeof_Ehdr 0 s of
            (Stuck, s) \<Rightarrow> (Stuck, s)
          | (Err, s) \<Rightarrow> (Err, s)
          | (Ret ebs, s) \<Rightarrow>
              let header = decode_ehdr ebs; headers_size = unat (e_phnum header) * sizeof_Phdr in
              if \<not> elf_header_ok header allow_executable st_size then (Err, s\<lparr>ld_errno := ENOEXEC\<rparr>)
              else if \<not> f_malloc_ok F headers_size (ld_world s) then (Err, s\<lparr>ld_errno := ENOMEM\<rparr>)
              else (case ld_read F fd headers_size (int (unat (e_phoff header))) s of
                  (Stuck, s) \<Rightarrow> (Stuck, s)
                | (Err, s) \<Rightarrow> (Err, s)
                | (Ret pbs, s) \<Rightarrow>
                    let headers = decode_table decode_phdr sizeof_Phdr (unat (e_phnum header)) pbs;
                        interpreters = length (filter (\<lambda>h. p_type h = PT_INTERP) headers)
                    in if \<not> list_all (\<lambda>h. validate_program_header h st_size) headers
                       then (Err, s\<lparr>ld_errno := ENOEXEC\<rparr>)
                       else if interpreters > 1 \<or> (interpreters \<noteq> 0 \<and> capacity = None)
                       then (Err, s\<lparr>ld_errno := ENOEXEC\<rparr>)
                       else (case read_interpreter F fd (case capacity of None \<Rightarrow> 0 | Some n \<Rightarrow> n) headers '''' s of
                           (Stuck, s) \<Rightarrow> (Stuck, s)
                         | (Err, s) \<Rightarrow> (Err, s)
                         | (Ret interpreter, s) \<Rightarrow>
                             (case try_biases M F fd header headers st_size (object_biases header dynamic_bias) s of
                                (Stuck, s) \<Rightarrow> (Stuck, s)
                              | (Err, s) \<Rightarrow> (Err, s)
                              | (Ret (load_bias, data_end), s) \<Rightarrow>
                                  (Ret (\<lparr>ob_entry = load_bias + e_entry header, ob_load_bias = load_bias,
                                     ob_program_headers = program_headers_address header headers load_bias,
                                     ob_program_header_size = ucast (e_phentsize header),
                                     ob_program_header_count = ucast (e_phnum header),
                                     ob_data_end = data_end\<rparr>, interpreter), s)))))"

definition load_elf_object ::
  "'h host_mm \<Rightarrow> 'h host_file \<Rightarrow> string \<Rightarrow> u32 \<Rightarrow> bool \<Rightarrow> nat option \<Rightarrow> 'h loader \<Rightarrow>
    (elf_object \<times> string) cret \<times> 'h loader" where
  "load_elf_object M F path dynamic_bias allow_executable capacity s =
     (case f_open F path (ld_world s) of
        (Inl e, w) \<Rightarrow> (Err, s\<lparr>ld_world := w, ld_errno := e\<rparr>)
      | (Inr fd, w) \<Rightarrow>
          (case load_open_object M F fd dynamic_bias allow_executable capacity (s\<lparr>ld_world := w\<rparr>) of
             (Stuck, s) \<Rightarrow> (Stuck, s)
           | (r, s) \<Rightarrow> (r, s\<lparr>ld_world := f_close F fd (ld_world s)\<rparr>)))"

section \<open>Loading the guest image\<close>

definition finish_image ::
  "'h host_mm \<Rightarrow> guest_image \<Rightarrow> 'h loader \<Rightarrow> guest_image cret \<times> 'h loader" where
  "finish_image M img s =
     (if arm_patch_count (ld_patches s) = 0 \<or>
         \<not> guest_memory_is_executable (im_entry img) 4 (ld_memory s) \<or>
         \<not> guest_memory_is_executable (im_start_entry img) 4 (ld_memory s)
      then (Err, errno_default s)
      else case guest_brk_initialize (im_initial_brk img) (ld_memory s) of
        (r, g) \<Rightarrow>
          let s = s\<lparr>ld_memory := g, ld_errno := errno_after (ld_errno s) r\<rparr> in
          if \<not> is_done r then (Err, errno_default s)
          else case guest_memory_finalize M (ld_memory s, ld_world s) of
            (q, w) \<Rightarrow>
              let s = s\<lparr>ld_world := w, ld_errno := errno_after (ld_errno s) q\<rparr> in
              if is_done q then (Ret img, s) else (Err, errno_default s))"

definition load_image_objects ::
  "'h host_mm \<Rightarrow> 'h host_file \<Rightarrow> 'h host_fs \<Rightarrow> nat \<Rightarrow> guest_paths \<Rightarrow> string \<Rightarrow> 'h loader \<Rightarrow>
    guest_image cret \<times> 'h loader" where
  "load_image_objects M F D pm gp path s =
     (case load_elf_object M F path MAIN_ET_DYN_BIAS True (Some pm) s of
        (Stuck, s) \<Rightarrow> (Stuck, s)
      | (Err, s) \<Rightarrow> (Err, s)
      | (Ret (main_object, interpreter), s) \<Rightarrow>
          let img = \<lparr>im_entry = ob_entry main_object, im_start_entry = ob_entry main_object,
                im_interpreter_base = 0, im_program_headers = ob_program_headers main_object,
                im_program_header_size = ob_program_header_size main_object,
                im_program_header_count = ob_program_header_count main_object,
                im_initial_brk = ob_data_end main_object\<rparr>
          in if interpreter = [] then finish_image M img s
             else case guest_path_resolve D pm gp interpreter False pm (ld_world s) of
               (r, w) \<Rightarrow>
                 let s = s\<lparr>ld_world := w, ld_errno := errno_after (ld_errno s) r\<rparr> in
                 case r of
                   Done interpreter_path \<Rightarrow>
                     (case load_elf_object M F interpreter_path INTERPRETER_BIAS False None s of
                        (Stuck, s) \<Rightarrow> (Stuck, s)
                      | (Err, s) \<Rightarrow> (Err, s)
                      | (Ret (object, _), s) \<Rightarrow>
                          finish_image M (img\<lparr>im_start_entry := ob_entry object,
                            im_interpreter_base := ob_load_bias object\<rparr>) s)
                 | Fail _ \<Rightarrow> (Err, s) | FailStale \<Rightarrow> (Err, s)
                 | Fault \<Rightarrow> (Stuck, s) | Hang \<Rightarrow> (Stuck, s))"

definition load_guest_image ::
  "'h host_mm \<Rightarrow> 'h host_file \<Rightarrow> 'h host_fs \<Rightarrow> nat \<Rightarrow> guest_paths \<Rightarrow> string \<Rightarrow> 'h loader \<Rightarrow>
    guest_image cret \<times> 'h loader" where
  "load_guest_image M F D pm gp path s =
     (case load_image_objects M F D pm gp path s of
        (Err, s') \<Rightarrow>
          (Err, ld_rollback M (arm_patch_count (ld_patches s))
             (guest_memory_segment_count (ld_memory s)) s')
      | r \<Rightarrow> r)"

section \<open>What a step of the loader may change\<close>

definition w_xor_x :: "load_segment \<Rightarrow> bool" where
  "w_xor_x s \<longleftrightarrow> \<not> {PROT_WRITE, PROT_EXEC} \<subseteq> final_protection s"

text \<open>
  A step only appends records and segments; the new segments are never both writable and
  executable, and the tables stay sound.
\<close>

definition extends :: "'h loader \<Rightarrow> 'h loader \<Rightarrow> bool" where
  "extends s t \<longleftrightarrow>
     (\<exists>new. ld_patches t = ld_patches s @ new) \<and>
     (\<exists>new. load_segments (ld_memory t) = load_segments (ld_memory s) @ new \<and> (\<forall>x\<in>set new. w_xor_x x)) \<and>
     page_size (ld_memory t) = page_size (ld_memory s) \<and>
     runtime_mappings (ld_memory t) = runtime_mappings (ld_memory s) \<and>
     (length (ld_patches s) \<le> MAX_PATCHES \<longrightarrow> length (ld_patches t) \<le> MAX_PATCHES) \<and>
     (page_ok (ld_memory s) \<longrightarrow> segments_ok (ld_memory s) \<longrightarrow> segments_ok (ld_memory t))"

lemma extends_refl [simp]: "extends s s"
  by (simp add: extends_def)

lemma extends_trans: "extends s t \<Longrightarrow> extends t u \<Longrightarrow> extends s u"
  unfolding extends_def page_ok_def by (elim conjE exE) (intro conjI; auto)

lemma extends_same [simp]:
  "ld_patches t = ld_patches s \<Longrightarrow> ld_memory t = ld_memory s \<Longrightarrow> extends s t"
  by (simp add: extends_def)

lemma extends_errno_default [simp]: "extends s (errno_default t) = extends s t"
  by (simp add: extends_def errno_default_def)

lemma extends_update [simp]:
  "extends s (t\<lparr>ld_errno := e\<rparr>) = extends s t" "extends s (t\<lparr>ld_world := w\<rparr>) = extends s t"
  "extends (s\<lparr>ld_errno := e\<rparr>) t = extends s t" "extends (s\<lparr>ld_world := w\<rparr>) t = extends s t"
  by (simp_all add: extends_def)

lemma rollback_table: "fst (arm_patch_rollback k (ps, m)) = take k ps"
proof (induction "length ps" arbitrary: ps m)
  case (Suc n)
  then show ?case
    by (subst arm_patch_rollback.simps) (auto simp: take_butlast not_less)
qed (simp add: rollback_stop)

lemma ld_rollback_tables:
  "ld_patches (ld_rollback M k n s) = take k (ld_patches s)"
  "ld_memory (ld_rollback M k n s) = (ld_memory s)\<lparr>load_segments := take n (load_segments (ld_memory s))\<rparr>"
  "ld_errno (ld_rollback M k n s) = ld_errno s"
  using rollback_table [of k "ld_patches s" "w_mem (ld_world s)"]
  by (auto simp: ld_rollback_def guest_memory_rollback_def Let_def split: prod.split)

definition undo_to :: "'h host_mm \<Rightarrow> 'h loader \<Rightarrow> 'h loader \<Rightarrow> 'h loader" where
  "undo_to M s t = ld_rollback M (arm_patch_count (ld_patches s)) (guest_memory_segment_count (ld_memory s)) t"

lemma undo_to_tables:
  assumes "extends s t"
  shows "ld_patches (undo_to M s t) = ld_patches s"
    and "load_segments (ld_memory (undo_to M s t)) = load_segments (ld_memory s)"
    and "extends s (undo_to M s t)"
    and "ld_errno (undo_to M s t) = ld_errno t"
proof -
  show tables: "ld_patches (undo_to M s t) = ld_patches s"
    "load_segments (ld_memory (undo_to M s t)) = load_segments (ld_memory s)"
    using assms
    by (auto simp: undo_to_def ld_rollback_tables extends_def arm_patch_count_def guest_memory_segment_count_def)
  have "page_size (ld_memory (undo_to M s t)) = page_size (ld_memory s)"
    "runtime_mappings (ld_memory (undo_to M s t)) = runtime_mappings (ld_memory s)"
    using assms by (simp_all add: undo_to_def ld_rollback_tables extends_def)
  then show "extends s (undo_to M s t)"
    using tables by (simp add: extends_def segments_ok_def segment_ok_def)
  show "ld_errno (undo_to M s t) = ld_errno t" by (simp add: undo_to_def ld_rollback_tables)
qed

text \<open>
  The contract every fallible step of the loader keeps, and what its caller gets from it:
  sequences of steps keep it, and going back to the counts saved before the step gives the
  tables of before the step.
\<close>

locale loader_step =
  fixes step :: "'h loader \<Rightarrow> 'a cret \<times> 'h loader"
  assumes step_extends: "extends s (snd (step s))"
begin

lemma after: "step s = (r, t) \<Longrightarrow> extends s t"
  using step_extends [of s] by simp

lemma after_trans: "extends s t \<Longrightarrow> step t = (r, u) \<Longrightarrow> extends s u"
  using after extends_trans by blast

lemma undone:
  assumes "step s = (r, t)"
  shows "ld_patches (undo_to M s t) = ld_patches s"
    and "load_segments (ld_memory (undo_to M s t)) = load_segments (ld_memory s)"
    and "runtime_mappings (ld_memory (undo_to M s t)) = runtime_mappings (ld_memory s)"
    and "ld_errno (undo_to M s t) = ld_errno t"
  using undo_to_tables [OF after [OF assms], of M] by (auto simp: extends_def)

end

lemma ld_read_extends: "extends s (snd (ld_read F fd n off s))"
  by (auto simp: ld_read_def split: prod.split outcome.split)

interpretation rd: loader_step "ld_read F fd n off" for F fd n off
  by unfold_locales (rule ld_read_extends)

lemma patch_section_extends: "extends s (snd (patch_section headers bias file_size sec s))"
proof -
  have "extends s (s\<lparr>ld_patches := ps, ld_world := (ld_world s)\<lparr>w_mem := m\<rparr>\<rparr>)"
    if run: "arm_patch_range start len (ld_patches s, w_mem (ld_world s)) = (r, ps, m)" for r start len ps m
  proof (cases "length (ld_patches s) \<le> MAX_PATCHES \<and> word_aligned start \<and> word_aligned len \<and> len \<le> UINTPTR_MAX - start")
    case True
    then have "patched_within start len (ld_patches s, w_mem (ld_world s)) (ps, m)"
      using patch_range_effect(2) [OF _ run] by simp
    then show ?thesis by (auto simp: patched_within_def extends_def)
  next
    case False
    show ?thesis using run
    proof (cases rule: arm_patch_range_cases)
      case run
      have "\<exists>new. fst (snd (patch_words as (ps, m))) = ps @ new" for as ps m
        by (induction as "(ps, m)" arbitrary: ps m rule: patch_words.induct) (auto simp: Let_def)
      from this [of "word_addresses start (unat len div 4)" "ld_patches s" "w_mem (ld_world s)"]
      show ?thesis using run False by (auto simp: extends_def)
    qed (simp add: extends_def)
  qed
  then show ?thesis
    by (auto simp: patch_section_def Let_def split: prod.split)
qed

interpretation ps: loader_step "patch_section headers bias file_size sec" for headers bias file_size sec
  by unfold_locales (rule patch_section_extends)

lemma patch_sections_extends: "extends s (snd (patch_sections headers bias file_size secs n s))"
proof (induction secs arbitrary: n s)
  case (Cons sec rest)
  obtain r t where run: "patch_section headers bias file_size sec s = (r, t)" by fastforce
  then have "extends s t" by (rule ps.after)
  then show ?case using extends_trans [OF _ Cons.IH] run by (cases r) auto
qed simp

interpretation pss: loader_step "patch_sections headers bias file_size secs n" for headers bias file_size secs n
  by unfold_locales (rule patch_sections_extends)

lemma patch_executable_sections_extends:
  "extends s (snd (patch_executable_sections F fd header headers bias file_size s))"
  by (auto simp: patch_executable_sections_def Let_def split: prod.split cret.split
      dest: rd.after elim: pss.after_trans)

interpretation pes: loader_step "patch_executable_sections F fd header headers bias file_size"
  for F fd header headers bias file_size
  by unfold_locales (rule patch_executable_sections_extends)

lemma validated_w_xor_x:
  assumes "validate_program_header h file_size" "p_type h = PT_LOAD" "p_memsz h \<noteq> 0"
  shows "\<not> {PROT_WRITE, PROT_EXEC} \<subseteq> protection_from_flags (p_flags h)"
proof
  assume both: "{PROT_WRITE, PROT_EXEC} \<subseteq> protection_from_flags (p_flags h)"
  have bits: "v AND PF_W \<noteq> 0 \<longleftrightarrow> bit v 1" "v AND PF_X \<noteq> 0 \<longleftrightarrow> bit v 0" for v :: u32
    by (simp_all add: and_exp_eq_0_iff_not_bit [of _ 1, simplified] and_exp_eq_0_iff_not_bit [of _ 0, simplified])
  have "bit (p_flags h) 1" "bit (p_flags h) 0"
    using both bits [of "p_flags h"] by (auto simp: protection_from_flags_def split: if_splits)
  then have "p_flags h AND mask 2 = mask 2"
    by (intro bit_word_eqI) (auto simp: bit_simps less_2_cases_iff)
  moreover have "mask 2 = (PF_W OR PF_X :: u32)" by (simp add: mask_eq_exp_minus_1)
  ultimately have "p_flags h AND (PF_W OR PF_X) = PF_W OR PF_X" by metis
  then show False using assms by (simp add: validate_program_header_def)
qed

lemma map_headers_extends:
  "list_all (\<lambda>h. validate_program_header h file_size) headers \<Longrightarrow>
    extends s (snd (map_headers M F fd bias file_size headers data_end s))"
proof (induction headers arbitrary: data_end s)
  case (Cons h rest)
  have IH: "extends t (snd (map_headers M F fd bias file_size rest d t))" for d t
    using Cons by simp
  show ?case
  proof (cases "p_type h = PT_LOAD \<and> p_memsz h \<noteq> 0")
    case True
    obtain r g w where run: "guest_memory_map_load_segment M (f_pread F) fd h bias file_size
        (ld_memory s, ld_world s) = (r, g, w)" by (metis surj_pair)
    let ?t = "s\<lparr>ld_memory := g, ld_world := w, ld_errno := errno_after (ld_errno s) r\<rparr>"
    have "extends s ?t" using run
    proof (cases rule: map_load_segment_cases)
      case (added ss ms me)
      moreover have "w_xor_x \<lparr>map_start = ms, map_length = me - ms, final_protection = protection_from_flags (p_flags h)\<rparr>"
        using validated_w_xor_x [of h file_size] Cons.prems True by (simp add: w_xor_x_def)
      ultimately show ?thesis
        using new_segment_ok [OF _ _ added(1)] by (simp add: extends_def)
    qed (simp add: extends_def)
    then show ?thesis using True run extends_trans [OF _ IH] by (cases r) (simp_all add: Let_def)
  qed (use IH in auto)
qed simp

lemma load_at_bias_alt:
  "load_at_bias M F fd header headers file_size bias s =
     (case map_headers M F fd bias file_size headers 0 s of
        (Stuck, t) \<Rightarrow> (Stuck, t)
      | (Err, t) \<Rightarrow> (Err, undo_to M s (errno_default t))
      | (Ret data_end, t) \<Rightarrow>
          if guest_memory_segment_count (ld_memory t) = guest_memory_segment_count (ld_memory s)
          then (Err, undo_to M s (errno_default t))
          else case patch_executable_sections F fd header headers bias file_size t of
              (Stuck, t) \<Rightarrow> (Stuck, t)
            | (Err, t) \<Rightarrow> (Err, undo_to M s (errno_default t))
            | (Ret _, t) \<Rightarrow>
                if bias \<le> UINTPTR_MAX - e_entry header then (Ret data_end, t)
                else (Err, undo_to M s (errno_default t)))"
  unfolding load_at_bias_def undo_to_def by (simp add: Let_def)

lemma load_at_bias_cases:
  assumes valid: "list_all (\<lambda>h. validate_program_header h file_size) headers"
    and run: "load_at_bias M F fd header headers file_size bias s = (r, t)"
  obtains (ok) data_end u where "r = Ret data_end" "extends s t"
      "map_headers M F fd bias file_size headers 0 s = (Ret data_end, u)" "extends s u"
      "guest_memory_segment_count (ld_memory u) \<noteq> guest_memory_segment_count (ld_memory s)"
      "patch_executable_sections F fd header headers bias file_size u = (Ret (), t)"
      "bias \<le> UINTPTR_MAX - e_entry header"
  | (stuck) "r = Stuck" "extends s t"
  | (failed) u where "r = Err" "extends s u" "t = undo_to M s (errno_default u)"
proof -
  obtain q u where map: "map_headers M F fd bias file_size headers 0 s = (q, u)" by fastforce
  then have u: "extends s u"
    using map_headers_extends [OF valid, of s M F fd bias 0] by simp
  obtain q' v where patch: "patch_executable_sections F fd header headers bias file_size u = (q', v)" by fastforce
  then have v: "extends s v" by (rule pes.after_trans [OF u])
  show ?thesis
    using run u v map patch unfolding load_at_bias_alt
    by (auto split: cret.splits if_splits intro: ok stuck failed)
qed

lemma load_at_bias_extends:
  assumes "list_all (\<lambda>h. validate_program_header h file_size) headers"
  shows "extends s (snd (load_at_bias M F fd header headers file_size bias s))"
proof -
  obtain r t where run: "load_at_bias M F fd header headers file_size bias s = (r, t)" by fastforce
  from load_at_bias_cases [OF assms run] show ?thesis
    by cases (auto simp: run intro: undo_to_tables(3))
qed

lemma try_biases_extends:
  assumes "list_all (\<lambda>h. validate_program_header h file_size) headers"
  shows "extends s (snd (try_biases M F fd header headers file_size biases s))"
proof (induction biases arbitrary: s)
  case (Cons bias rest)
  obtain r t where run: "load_at_bias M F fd header headers file_size bias s = (r, t)" by fastforce
  have "extends s t" using load_at_bias_extends [OF assms, of s M F fd header bias] run by simp
  then show ?case using extends_trans [OF _ Cons.IH] run by (cases r) auto
qed simp

lemma read_interpreter_extends: "extends s (snd (read_interpreter F fd capacity headers path s))"
proof (induction headers arbitrary: path s)
  case (Cons h rest)
  then show ?case
    by (auto split: prod.split cret.split dest: rd.after intro: extends_trans [OF _ Cons.IH])
qed simp

interpretation ri: loader_step "read_interpreter F fd capacity headers path" for F fd capacity headers path
  by unfold_locales (rule read_interpreter_extends)

lemma try_biases_after:
  "try_biases M F fd header headers file_size biases s = (r, t) \<Longrightarrow>
    list_all (\<lambda>h. validate_program_header h file_size) headers \<Longrightarrow> extends s t"
  using try_biases_extends by (metis snd_conv)

lemma load_open_object_extends: "extends s (snd (load_open_object M F fd bias allow capacity s))"
proof -
  have "extends s t" if "load_open_object M F fd bias allow capacity s = (r, t)" for r t
    using that unfolding load_open_object_def Let_def
    by (auto split: sum.splits if_splits cret.splits prod.splits
        dest!: rd.after ri.after try_biases_after) (blast intro: extends_trans)+
  then show ?thesis by (metis surj_pair snd_conv)
qed

interpretation oo: loader_step "load_open_object M F fd bias allow capacity" for M F fd bias allow capacity
  by unfold_locales (rule load_open_object_extends)

lemma load_elf_object_extends: "extends s (snd (load_elf_object M F path bias allow capacity s))"
proof -
  have "extends s t" if "load_open_object M F fd bias allow capacity (s\<lparr>ld_world := w\<rparr>) = (r, t)" for fd w r t
    using oo.after [OF that] by simp
  then show ?thesis by (auto simp: load_elf_object_def split: sum.split prod.split cret.split)
qed

interpretation lo: loader_step "load_elf_object M F path bias allow capacity" for M F path bias allow capacity
  by unfold_locales (rule load_elf_object_extends)

lemma extends_break:
  "extends s (s\<lparr>ld_memory := ld_memory s\<lparr>current_break := a, minimum_break := b, break_mapping_end := c\<rparr>\<rparr>)"
  by (simp add: extends_def segments_ok_def segment_ok_def)

lemma brk_initialize_extends:
  "guest_brk_initialize b (ld_memory s) = (r, g) \<Longrightarrow> extends s (s\<lparr>ld_memory := g\<rparr>)"
  using extends_break [of s] by (auto simp: guest_brk_initialize_def split: if_splits)

lemma finish_image_extends: "extends s (snd (finish_image M img s))"
  by (auto simp: finish_image_def Let_def brk_initialize_extends split: prod.split)

interpretation fi: loader_step "finish_image M img" for M img
  by unfold_locales (rule finish_image_extends)

lemma load_image_objects_extends: "extends s (snd (load_image_objects M F D pm gp path s))"
proof -
  have "extends s t" if "load_image_objects M F D pm gp path s = (r, t)" for r t
    using that unfolding load_image_objects_def Let_def
    by (auto split: outcome.splits if_splits cret.splits prod.splits
        dest!: lo.after fi.after) (blast intro: extends_trans)+
  then show ?thesis by (metis surj_pair snd_conv)
qed

interpretation io: loader_step "load_image_objects M F D pm gp path" for M F D pm gp path
  by unfold_locales (rule load_image_objects_extends)

lemma executable_after_brk:
  "guest_brk_initialize b g = (r, g') \<Longrightarrow>
    guest_memory_is_executable a n g' = guest_memory_is_executable a n g"
  by (auto simp: guest_brk_initialize_def guest_memory_is_executable_def split: if_splits)

lemma brk_initialize_break:
  "guest_brk_initialize b g = (Done (), g') \<Longrightarrow> current_break g' = b"
  by (auto simp: guest_brk_initialize_def split: if_splits)

lemma finish_image_done:
  assumes "finish_image M img s = (Ret img', t)"
  shows "img' = img \<and> ld_patches t = ld_patches s \<and> ld_patches s \<noteq> [] \<and>
    guest_memory_is_executable (im_entry img) 4 (ld_memory t) \<and>
    guest_memory_is_executable (im_start_entry img) 4 (ld_memory t) \<and>
    guest_brk_initialize (im_initial_brk img) (ld_memory s) = (Done (), ld_memory t)"
proof -
  obtain r g where brk: "guest_brk_initialize (im_initial_brk img) (ld_memory s) = (r, g)" by fastforce
  show ?thesis
    using assms executable_after_brk [OF brk] unfolding finish_image_def brk
    by (auto simp: Let_def arm_patch_count_def is_done_iff split: if_splits prod.splits)
qed

lemma load_guest_image_alt:
  "load_guest_image M F D pm gp path s =
     (case load_image_objects M F D pm gp path s of (Err, t) \<Rightarrow> (Err, undo_to M s t) | r \<Rightarrow> r)"
  unfolding load_guest_image_def undo_to_def ..

lemma load_image_objects_done:
  assumes "load_image_objects M F D pm gp path s = (Ret img, t)"
  obtains img0 u where "extends s u" "finish_image M img0 u = (Ret img, t)"
  using assms unfolding load_image_objects_def Let_def
  by (auto split: outcome.splits if_splits cret.splits prod.splits dest!: lo.after)
    (blast intro: extends_trans)+

text \<open>
  C7 (safety). A failed \<open>load_guest_image\<close>, whatever the file holds and wherever the load
  stopped, leaves the patch table, the segment table and the runtime registry as they were
  before the call, and reports the \<open>errno\<close> of the failure, not of the rollback.
\<close>

theorem failed_load_undone:
  assumes "load_guest_image M F D pm gp path s = (Err, t)"
  shows "ld_patches t = ld_patches s \<and> load_segments (ld_memory t) = load_segments (ld_memory s) \<and>
    runtime_mappings (ld_memory t) = runtime_mappings (ld_memory s) \<and>
    ld_errno t = ld_errno (snd (load_image_objects M F D pm gp path s))"
proof -
  obtain u where u: "load_image_objects M F D pm gp path s = (Err, u)" "t = undo_to M s u"
    using assms by (auto simp: load_guest_image_alt split: prod.splits cret.splits)
  show ?thesis using io.undone [OF u(1), of M] by (simp add: u)
qed

lemma loaded_image_facts:
  assumes "load_guest_image M F D pm gp path s = (Ret img, t)"
    and "page_ok (ld_memory s)" "segments_ok (ld_memory s)" "registry_ok (runtime_mappings (ld_memory s))"
    and "length (ld_patches s) \<le> MAX_PATCHES"
  shows "(\<exists>new. ld_patches t = ld_patches s @ new) \<and> ld_patches t \<noteq> [] \<and> length (ld_patches t) \<le> MAX_PATCHES \<and>
    segments_ok (ld_memory t) \<and>
    (\<exists>new. load_segments (ld_memory t) = load_segments (ld_memory s) @ new \<and> (\<forall>x\<in>set new. w_xor_x x)) \<and>
    guest_memory_is_executable (im_entry img) 4 (ld_memory t) \<and>
    guest_memory_is_executable (im_start_entry img) 4 (ld_memory t) \<and>
    brk_ok (ld_memory t) \<and> current_break (ld_memory t) = im_initial_brk img"
proof -
  have run: "load_image_objects M F D pm gp path s = (Ret img, t)"
    using assms(1) by (auto simp: load_guest_image_alt split: prod.splits cret.splits)
  then have ext: "extends s t" by (rule io.after)
  from run obtain img0 u where u: "extends s u" "finish_image M img0 u = (Ret img, t)"
    by (rule load_image_objects_done)
  note fin = finish_image_done [OF u(2)]
  have "page_ok (ld_memory u)" "registry_ok (runtime_mappings (ld_memory u))"
    using u(1) assms(2,4) by (simp_all add: extends_def page_ok_def)
  then have "brk_ok (ld_memory t)" using fin brk_initialize_ok by blast
  moreover have "current_break (ld_memory t) = im_initial_brk img"
    using fin brk_initialize_break by blast
  ultimately show ?thesis using ext fin assms(2,3,5) by (simp add: extends_def)
qed

lemma loaded_image_mappings:
  assumes "load_guest_image M F D pm gp path s = (Ret img, t)"
  shows "runtime_mappings (ld_memory t) = runtime_mappings (ld_memory s)"
proof -
  have "load_image_objects M F D pm gp path s = (Ret img, t)"
    using assms by (auto simp: load_guest_image_alt split: prod.splits cret.splits)
  then show ?thesis by (simp add: io.after [unfolded extends_def])
qed


section \<open>No sensitive instruction survives\<close>

definition code_section :: "elf32_shdr \<Rightarrow> bool" where
  "code_section sec \<longleftrightarrow> sh_flags sec AND SHF_EXECINSTR \<noteq> 0 \<and> sh_size sec \<noteq> 0"

definition clean_at :: "mem \<Rightarrow> u32 \<Rightarrow> u32 \<Rightarrow> bool" where
  "clean_at m start len \<longleftrightarrow>
     (\<forall>a. word_aligned a \<and> start \<le> a \<and> a < start + len \<longrightarrow> \<not> sensitive (load32 m a))"

lemma patch_section_clean:
  assumes table: "length (ld_patches s) \<le> MAX_PATCHES"
    and run: "patch_section headers bias file_size sec s = (Ret b, t)"
  shows "b \<longleftrightarrow> code_section sec"
    and "code_section sec \<Longrightarrow> clean_at (w_mem (ld_world t)) (bias + sh_addr sec) (sh_size sec)"
    and "code_section sec \<Longrightarrow> guest_memory_is_executable (bias + sh_addr sec) (sh_size sec) (ld_memory t)"
    and "clean_at (w_mem (ld_world s)) a n \<Longrightarrow> clean_at (w_mem (ld_world t)) a n"
    and "ld_memory t = ld_memory s" and "length (ld_patches t) \<le> MAX_PATCHES"
proof -
  have "(b \<longleftrightarrow> code_section sec) \<and> (code_section sec \<longrightarrow>
      clean_at (w_mem (ld_world t)) (bias + sh_addr sec) (sh_size sec) \<and>
      guest_memory_is_executable (bias + sh_addr sec) (sh_size sec) (ld_memory t)) \<and>
    (clean_at (w_mem (ld_world s)) a n \<longrightarrow> clean_at (w_mem (ld_world t)) a n) \<and>
    ld_memory t = ld_memory s \<and> length (ld_patches t) \<le> MAX_PATCHES"
  proof (cases "code_section sec")
    case False
    then show ?thesis using run table by (auto simp: patch_section_def code_section_def)
  next
    case True
    let ?start = "bias + sh_addr sec"
    obtain r ps m where patch: "arm_patch_range ?start (sh_size sec) (ld_patches s, w_mem (ld_world s)) = (r, ps, m)"
      by (metis surj_pair)
    have ok: "word_aligned ?start" "word_aligned (sh_size sec)"
      and exec: "guest_memory_is_executable ?start (sh_size sec) (ld_memory s)"
      and res: "b" "r = Done ()" "t = s\<lparr>ld_patches := ps, ld_world := (ld_world s)\<lparr>w_mem := m\<rparr>\<rparr>"
      using run True patch
      by (auto simp: patch_section_def code_section_def word_aligned_def Let_def is_done_iff split: if_splits)
    have room: "sh_size sec \<le> UINTPTR_MAX - ?start"
      using exec by (simp add: guest_memory_is_executable_def not_less)
    note eff = patch_range_effect [OF _ patch ok room, simplified]
    show ?thesis
      using eff [OF table] patched_within_not_sensitive [of ?start "sh_size sec"] patched_within_count
        True res exec unfolding clean_at_def by fastforce
  qed
  then show "b \<longleftrightarrow> code_section sec"
    and "code_section sec \<Longrightarrow> clean_at (w_mem (ld_world t)) (bias + sh_addr sec) (sh_size sec)"
    and "code_section sec \<Longrightarrow> guest_memory_is_executable (bias + sh_addr sec) (sh_size sec) (ld_memory t)"
    and "clean_at (w_mem (ld_world s)) a n \<Longrightarrow> clean_at (w_mem (ld_world t)) a n"
    and "ld_memory t = ld_memory s" and "length (ld_patches t) \<le> MAX_PATCHES"
    by blast+
qed

lemma patch_sections_clean:
  assumes "length (ld_patches s) \<le> MAX_PATCHES"
    and "patch_sections headers bias file_size secs n s = (Ret k, t)"
  shows "(clean_at (w_mem (ld_world s)) a l \<longrightarrow> clean_at (w_mem (ld_world t)) a l) \<and>
    (\<forall>sec\<in>set secs. code_section sec \<longrightarrow>
      clean_at (w_mem (ld_world t)) (bias + sh_addr sec) (sh_size sec) \<and>
      guest_memory_is_executable (bias + sh_addr sec) (sh_size sec) (ld_memory t)) \<and>
    k = n + length (filter code_section secs) \<and> ld_memory t = ld_memory s"
  using assms
proof (induction secs arbitrary: n s a l)
  case (Cons sec rest)
  obtain r u where step: "patch_section headers bias file_size sec s = (r, u)" by fastforce
  then obtain b where r: "r = Ret b" using Cons.prems(2) by (cases r) auto
  note one = patch_section_clean [OF Cons.prems(1) step [unfolded r]]
  have run: "patch_sections headers bias file_size rest (if b then Suc n else n) u = (Ret k, t)"
    using Cons.prems(2) step r by simp
  note IH = Cons.IH [OF one(6) run]
  show ?case
    using IH [of a l] IH [of "bias + sh_addr sec" "sh_size sec"] one(1-5) by auto
qed simp

text \<open>
  When \<open>patch_executable_sections\<close> succeeds, every section of the table with
  the executable flag lies in executable guest memory and holds no \<open>svc #0\<close> and no read of
  the thread register any more, and there is at least one such section.
\<close>

theorem patched_sections_clean:
  assumes "length (ld_patches s) \<le> MAX_PATCHES"
    and "ld_read F fd (unat (e_shnum header) * 40) (int (unat (e_shoff header))) s = (Ret bs, s1)"
    and "patch_executable_sections F fd header headers bias file_size s = (Ret (), t)"
  shows "(\<forall>sec\<in>set (decode_table decode_shdr 40 (unat (e_shnum header)) bs). code_section sec \<longrightarrow>
      clean_at (w_mem (ld_world t)) (bias + sh_addr sec) (sh_size sec) \<and>
      guest_memory_is_executable (bias + sh_addr sec) (sh_size sec) (ld_memory t)) \<and>
    (\<exists>sec\<in>set (decode_table decode_shdr 40 (unat (e_shnum header)) bs). code_section sec)"
proof -
  let ?secs = "decode_table decode_shdr 40 (unat (e_shnum header)) bs"
  have s1: "length (ld_patches s1) \<le> MAX_PATCHES"
    using rd.after [OF assms(2)] assms(1) by (simp add: extends_def)
  obtain k where run: "patch_sections headers bias file_size ?secs 0 s1 = (Ret k, t)" "k \<noteq> 0"
    using assms(2,3) by (auto simp: patch_executable_sections_def Let_def split: if_splits prod.splits cret.splits)
  note eff = patch_sections_clean [OF s1 run(1), of 0 0]
  then have "filter code_section ?secs \<noteq> []" using run(2) by auto
  then have "\<exists>sec\<in>set ?secs. code_section sec" by (auto simp: filter_empty_conv)
  then show ?thesis using eff by blast
qed

section \<open>Interpreter paths\<close>

lemma takeWhile_slash_free: "slash \<notin> set (takeWhile (\<lambda>x. x \<noteq> slash) p)"
  using set_takeWhileD [of slash "\<lambda>x. x \<noteq> slash" p] by auto

lemma safe_components_sound:
  "safe_components p \<Longrightarrow> p \<noteq> [] \<Longrightarrow> last p \<noteq> slash \<Longrightarrow>
    \<exists>w ws. (\<forall>v\<in>set (w # ws). plain v) \<and> p = w @ joined ws"
proof (induction p rule: safe_components.induct)
  case (1 p)
  let ?w = "takeWhile (\<lambda>x. x \<noteq> slash) p" and ?rest = "dropWhile (\<lambda>x. x \<noteq> slash) p"
  have w: "plain ?w"
    using "1.prems"(1,2) takeWhile_slash_free [of p] by (subst (asm) safe_components.simps)
      (auto simp: plain_def Let_def split: if_splits)
  have split: "p = ?w @ ?rest" by simp
  show ?case
  proof (cases "?rest")
    case Nil
    then have "p = ?w" using takeWhile_dropWhile_id by (metis append_Nil2)
    then show ?thesis using w by (intro exI [of _ ?w] exI [of _ "[]"]) (auto simp: joined_simps)
  next
    case (Cons c q)
    then have c: "c = slash" using dropWhile_eq_Cons_conv [of "\<lambda>x. x \<noteq> slash" p c q] by simp
    have q: "q = drop (Suc (length ?w)) p" using split Cons by (metis append_eq_conv_conj drop_Suc tl_drop list.sel(3))
    have "q \<noteq> []" "last q \<noteq> slash" using "1.prems"(3) split Cons c
      by (metis last_append last_ConsL list.distinct(1), metis last_append last_ConsR last_ConsL list.distinct(1))
    moreover have "length ?w \<noteq> length p" using split Cons by (metis length_append add_cancel_left_right list.size(3) length_0_conv list.distinct(1) add.right_neutral)
    ultimately obtain v vs where v: "\<forall>x\<in>set (v # vs). plain x" "q = v @ joined vs"
      using "1.IH" [OF "1.prems"(2) refl] "1.prems"(1,2) q
      by (subst (asm) (2) safe_components.simps) (auto simp: Let_def split: if_splits)
    have "p = ?w @ joined (v # vs)" using split Cons c v(2) by (simp add: joined_simps)
    then show ?thesis using w v(1) by (intro exI [of _ ?w] exI [of _ "v # vs"]) auto
  qed
qed

lemma safe_components_complete:
  "\<forall>v\<in>set (w # ws). plain v \<Longrightarrow> safe_components (w @ joined ws)"
proof (induction ws arbitrary: w)
  case Nil
  then have w: "plain w" "slash \<notin> set w" by (auto simp: plain_def)
  have "takeWhile (\<lambda>x. x \<noteq> slash) w = w"
    using takeWhile_component [OF w(2), of "[]"] by (simp add: joined_simps)
  then show ?case using w(1) by (subst safe_components.simps) (simp add: Let_def joined_simps plain_def del: takeWhile_eq_all_conv)
next
  case (Cons v vs)
  have w: "plain w" "slash \<notin> set w" using Cons.prems by (auto simp: plain_def)
  have "takeWhile (\<lambda>x. x \<noteq> slash) (w @ joined (v # vs)) = w" by (rule takeWhile_component [OF w(2)])
  moreover have "drop (Suc (length w)) (w @ joined (v # vs)) = v @ joined vs" by (simp add: joined_simps)
  moreover have "safe_components (v @ joined vs)" using Cons by simp
  ultimately show ?case
    using w(1) by (subst safe_components.simps) (simp add: Let_def plain_def)
qed

text \<open>
  \<open>safe_interpreter_path\<close> accepts exactly the absolute paths made of one or
  more plain components: no empty component, no \<open>.\<close> or \<open>..\<close>, no trailing slash.
\<close>

theorem safe_interpreter_path_iff:
  "safe_interpreter_path p \<longleftrightarrow> (\<exists>ws. ws \<noteq> [] \<and> list_all plain ws \<and> p = joined ws)"
proof
  assume safe: "safe_interpreter_path p"
  then have "tl p \<noteq> []" "last (tl p) \<noteq> slash" "p = slash # tl p" "safe_components (tl p)"
    by (cases p; auto simp: safe_interpreter_path_def split: if_splits)+
  then obtain w ws where "\<forall>v\<in>set (w # ws). plain v" "tl p = w @ joined ws"
    using safe_components_sound by blast
  moreover from this have "p = joined (w # ws)" using \<open>p = slash # tl p\<close> by (simp add: joined_simps)
  ultimately show "\<exists>ws. ws \<noteq> [] \<and> list_all plain ws \<and> p = joined ws"
    unfolding list_all_iff by blast
next
  assume "\<exists>ws. ws \<noteq> [] \<and> list_all plain ws \<and> p = joined ws"
  then obtain w ws where ws: "\<forall>v\<in>set (w # ws). plain v" "p = joined (w # ws)"
    unfolding list_all_iff by (metis list.exhaust)
  have last_plain: "plain v \<Longrightarrow> v \<noteq> [] \<and> last v \<noteq> slash" for v by (auto simp: plain_def dest: last_in_set)
  have "last (joined vs) \<noteq> slash" if "vs \<noteq> []" "\<forall>v\<in>set vs. plain v" for vs
    using that last_plain by (induction vs rule: rev_induct) (auto simp: joined_simps)
  then have "last p \<noteq> slash" using ws by blast
  moreover have "p = slash # w @ joined ws" using ws(2) by (simp add: joined_simps)
  moreover have "w \<noteq> []" using ws(1) by (simp add: plain_def)
  ultimately show "safe_interpreter_path p"
    using safe_components_complete [OF ws(1)] by (simp add: safe_interpreter_path_def)
qed

section \<open>A program to load\<close>

text \<open>
  A host with one file, and the smallest program the loader accepts: an executable linked at
  \<open>0x10000\<close> with one readable and executable segment, which covers the whole file, and one
  code section, a \<open>svc #0\<close> and a branch to itself, at its end.
\<close>

definition one_file :: "u8 list \<Rightarrow> 'h host_file" where
  "one_file data = \<lparr>f_open = (\<lambda>path w. (Inr 3, w)), f_close = (\<lambda>fd w. w), f_size = (\<lambda>fd w. Inr (int (length data))),
     f_pread = (\<lambda>fd n off w. (Inr (take n (drop (nat off) data)), w)), f_malloc_ok = (\<lambda>n w. True)\<rparr>"

definition tiny_elf :: "u8 list" where
  "tiny_elf =
     ELFMAG @ [1, 1, 1] @ replicate 9 0 @ to_le 2 (2 :: u32) @ to_le 2 (40 :: u32) @ to_le 4 (1 :: u32) @
     to_le 4 (0x1007C :: u32) @ to_le 4 (52 :: u32) @ to_le 4 (84 :: u32) @ to_le 4 (0 :: u32) @
     to_le 2 (52 :: u32) @ to_le 2 (32 :: u32) @ to_le 2 (1 :: u32) @ to_le 2 (40 :: u32) @
     to_le 2 (1 :: u32) @ to_le 2 (0 :: u32) @
     concat (map (to_le 4) [1, 0, 0x10000, 0x10000, 132, 132, 5, 0x1000 :: u32]) @
     concat (map (to_le 4) [0, 1, 6, 0x1007C, 124, 8, 0, 0, 4, 0 :: u32]) @
     concat (map (to_le 4) [0xEF000000, 0xEAFFFFFE :: u32])"

definition empty_loader :: "'h \<Rightarrow> 'h loader" where
  "empty_loader h = \<lparr>ld_patches = [], ld_memory = fresh_memory, ld_world = \<lparr>w_host = h, w_mem = (\<lambda>_. 0)\<rparr>,
     ld_errno = NoError\<rparr>"

lemma one_file_read:
  assumes "0 < n" "0 \<le> off" "nat off + n \<le> length data"
  shows "read_exact_at (f_pread (one_file data)) fd n off w = (Done (take n (drop (nat off) data)), w)"
proof -
  have "read_exact_loop (f_pread (one_file data)) fd n off [] w = Some (Done (take n (drop (nat off) data)), w)"
    using assms by (subst read_exact_loop.simps) (auto simp: one_file_def read_exact_loop.simps)
  then show ?thesis by (simp add: read_exact_at_def)
qed

lemma one_file_ld_read:
  assumes "0 < n" "0 \<le> off" "nat off + n \<le> length data"
  shows "ld_read (one_file data) fd n off s = (Ret (take n (drop (nat off) data)), s)"
  using one_file_read [OF assms, of fd "ld_world s"] by (simp add: ld_read_def)

lemma length_tiny_elf: "length tiny_elf = 132"
  by (simp add: tiny_elf_def ELFMAG_def)

definition tiny_ehdr :: elf32_ehdr where
  "tiny_ehdr = \<lparr>e_ident = ELFMAG @ [1, 1, 1] @ replicate 9 0, e_type = 2, e_machine = 40, e_version = 1,
     e_entry = 0x1007C, e_phoff = 52, e_shoff = 84, e_flags = 0, e_ehsize = 52, e_phentsize = 32, e_phnum = 1,
     e_shentsize = 40, e_shnum = 1, e_shstrndx = 0\<rparr>"

definition tiny_phdr :: elf32_phdr where
  "tiny_phdr = \<lparr>p_type = PT_LOAD, p_offset = 0, p_vaddr = 0x10000, p_paddr = 0x10000, p_filesz = 132,
     p_memsz = 132, p_flags = 5, p_align = 0x1000\<rparr>"

definition tiny_shdr :: elf32_shdr where
  "tiny_shdr = \<lparr>sh_name = 0, sh_type = SHT_PROGBITS, sh_flags = 6, sh_addr = 0x1007C, sh_offset = 124,
     sh_size = 8, sh_link = 0, sh_info = 0, sh_addralign = 4, sh_entsize = 0\<rparr>"

lemma tiny_decode:
  "decode_ehdr (take 52 tiny_elf) = tiny_ehdr"
  "decode_table decode_phdr 32 1 (take 32 (drop 52 tiny_elf)) = [tiny_phdr]"
  "decode_table decode_shdr 40 1 (take 40 (drop 84 tiny_elf)) = [tiny_shdr]"
  by code_simp+

lemma tiny_code:
  "load32 (store_bytes (\<lambda>_. 0) 0x10000 tiny_elf) 0x1007C = 0xEF000000"
  "load32 (store32 (store_bytes (\<lambda>_. 0) 0x10000 tiny_elf) 0x1007C ARM_UDF_TRAP) 0x10080 = 0xEAFFFFFE"
  by code_simp+

definition tiny_memory :: guest_memory where
  "tiny_memory = fresh_memory\<lparr>load_segments := [\<lparr>map_start = 0x10000, map_length = 0x1000,
     final_protection = {PROT_READ, PROT_EXEC}\<rparr>]\<rparr>"

lemma tiny_header_ok: "elf_header_ok tiny_ehdr True 132" "validate_program_header tiny_phdr 132"
  by code_simp+

lemma tiny_segment:
  assumes "length data = 132"
  shows "guest_memory_map_load_segment obliging_mm (f_pread (one_file data)) 3 tiny_phdr 0 132 (fresh_memory, w) =
     (Done (), tiny_memory, w\<lparr>w_mem := store_bytes (w_mem w) 0x10000 data\<rparr>)"
proof -
  have range: "load_segment_range tiny_phdr 0 132 fresh_memory = Done (0x10000, 0x10000, 0x11000)" by code_simp
  have read: "read_exact_at (f_pread (one_file data)) 3 132 0 w = (Done data, w)"
    using one_file_read [of 132 0 data 3 w] assms by simp
  have prot: "protection_from_flags 5 = {PROT_READ, PROT_EXEC}" by (auto simp: protection_from_flags_def)
  show ?thesis
    using range read prot
    by (simp add: guest_memory_map_load_segment_def tiny_memory_def fill_segment_def tiny_phdr_def Let_def
        obliging_mm_def fresh_memory_def)
qed

lemma tiny_section:
  "patch_section [tiny_phdr] 0 132 tiny_shdr
     (s\<lparr>ld_patches := [], ld_memory := tiny_memory,
        ld_world := w\<lparr>w_mem := store_bytes (\<lambda>_. 0) 0x10000 tiny_elf\<rparr>\<rparr>) =
   (Ret True, s\<lparr>ld_patches := [\<lparr>pr_address = 0x1007C, pr_original = 0xEF000000\<rparr>], ld_memory := tiny_memory,
      ld_world := w\<lparr>w_mem := store32 (store_bytes (\<lambda>_. 0) 0x10000 tiny_elf) 0x1007C ARM_UDF_TRAP\<rparr>\<rparr>)"
proof -
  have checks: "section_in_executable_load tiny_shdr [tiny_phdr]" "range_in_file 124 8 132" "valid_alignment 4"
    "guest_memory_is_executable 0x1007C 8 tiny_memory" by code_simp+
  have patch: "arm_patch_range 0x1007C 8 ([], store_bytes (\<lambda>_. 0) 0x10000 tiny_elf) =
      (Done (), [\<lparr>pr_address = 0x1007C, pr_original = 0xEF000000\<rparr>],
       store32 (store_bytes (\<lambda>_. 0) 0x10000 tiny_elf) 0x1007C ARM_UDF_TRAP)"
    using tiny_code by (simp add: arm_patch_range_def word_addresses_2 sensitive_def Let_def)
  show ?thesis
    using checks patch by (simp add: patch_section_def tiny_shdr_def Let_def)
qed

definition tiny_loaded :: "unit loader" where
  "tiny_loaded = \<lparr>ld_patches = [\<lparr>pr_address = 0x1007C, pr_original = 0xEF000000\<rparr>], ld_memory = tiny_memory,
     ld_world = \<lparr>w_host = (), w_mem = store32 (store_bytes (\<lambda>_. 0) 0x10000 tiny_elf) 0x1007C ARM_UDF_TRAP\<rparr>,
     ld_errno = NoError\<rparr>"

definition tiny_mapped :: "unit loader" where
  "tiny_mapped = (empty_loader ())\<lparr>ld_memory := tiny_memory,
     ld_world := \<lparr>w_host = (), w_mem = store_bytes (\<lambda>_. 0) 0x10000 tiny_elf\<rparr>\<rparr>"

lemma tiny_table:
  "ld_read (one_file tiny_elf) 3 40 84 s = (Ret (take 40 (drop 84 tiny_elf)), s)"
  using one_file_ld_read [of 40 84 tiny_elf 3 s] by (simp add: length_tiny_elf)

lemma tiny_sections:
  "patch_executable_sections (one_file tiny_elf) 3 tiny_ehdr [tiny_phdr] 0 132 tiny_mapped = (Ret (), tiny_loaded)"
proof -
  have "patch_section [tiny_phdr] 0 132 tiny_shdr tiny_mapped = (Ret True, tiny_loaded)"
    using tiny_section [of "\<lparr>w_host = (), w_mem = (\<lambda>_. 0)\<rparr>" "empty_loader ()"]
    by (simp add: tiny_mapped_def tiny_loaded_def empty_loader_def)
  moreover have "f_malloc_ok (one_file tiny_elf) n w" for n w by (simp add: one_file_def)
  ultimately show ?thesis
    using tiny_decode(3) tiny_table [of tiny_mapped]
    by (simp add: patch_executable_sections_def tiny_ehdr_def Let_def)
qed

lemma tiny_at_bias:
  "load_at_bias obliging_mm (one_file tiny_elf) 3 tiny_ehdr [tiny_phdr] 132 0 (empty_loader ()) = (Ret 0x10084, tiny_loaded)"
proof -
  have "map_headers obliging_mm (one_file tiny_elf) 3 0 132 [tiny_phdr] 0 (empty_loader ()) = (Ret 0x10084, tiny_mapped)"
    using tiny_segment [OF length_tiny_elf, of "ld_world (empty_loader ())"]
    by (simp add: empty_loader_def tiny_mapped_def tiny_phdr_def)
  moreover have "guest_memory_segment_count (ld_memory tiny_mapped) \<noteq> guest_memory_segment_count (ld_memory (empty_loader ()))"
    by (simp add: tiny_mapped_def tiny_memory_def empty_loader_def fresh_memory_def guest_memory_segment_count_def)
  ultimately show ?thesis
    using tiny_sections by (simp add: load_at_bias_alt tiny_ehdr_def)
qed

lemma tiny_object:
  "load_elf_object obliging_mm (one_file tiny_elf) path MAIN_ET_DYN_BIAS True (Some 1024) (empty_loader ()) =
    (Ret (\<lparr>ob_entry = 0x1007C, ob_load_bias = 0, ob_program_headers = 0x10034, ob_program_header_size = 32,
       ob_program_header_count = 1, ob_data_end = 0x10084\<rparr>, ''''), tiny_loaded)"
proof -
  let ?s = "empty_loader () :: unit loader"
  have reads: "ld_read (one_file tiny_elf) 3 52 0 ?s = (Ret (take 52 tiny_elf), ?s)"
    "ld_read (one_file tiny_elf) 3 32 52 ?s = (Ret (take 32 (drop 52 tiny_elf)), ?s)"
    using one_file_ld_read [of 52 0 tiny_elf 3 ?s] one_file_ld_read [of 32 52 tiny_elf 3 ?s]
    by (simp_all add: length_tiny_elf)
  have biases: "try_biases obliging_mm (one_file tiny_elf) 3 tiny_ehdr [tiny_phdr] 132
      (object_biases tiny_ehdr MAIN_ET_DYN_BIAS) ?s = (Ret (0, 0x10084), tiny_loaded)"
    using tiny_at_bias by (simp add: object_biases_def) (simp add: tiny_ehdr_def)
  have interp: "read_interpreter (one_file tiny_elf) 3 1024 [tiny_phdr] '''' ?s = (Ret '''', ?s)"
    by (simp add: tiny_phdr_def)
  have phdrs: "program_headers_address tiny_ehdr [tiny_phdr] 0 = 0x10034" by code_simp
  have fields: "e_phnum tiny_ehdr = 1" "e_phoff tiny_ehdr = 52" "e_entry tiny_ehdr = 0x1007C"
    "e_phentsize tiny_ehdr = 32" "p_type tiny_phdr \<noteq> PT_INTERP" by (simp_all add: tiny_ehdr_def tiny_phdr_def)
  have "load_open_object obliging_mm (one_file tiny_elf) 3 MAIN_ET_DYN_BIAS True (Some 1024) ?s =
    (Ret (\<lparr>ob_entry = 0x1007C, ob_load_bias = 0, ob_program_headers = 0x10034, ob_program_header_size = 32,
       ob_program_header_count = 1, ob_data_end = 0x10084\<rparr>, ''''), tiny_loaded)"
    unfolding load_open_object_def
    using reads tiny_header_ok tiny_decode(1,2) biases interp phdrs fields
    by (simp add: one_file_def length_tiny_elf Let_def)
  then show ?thesis by (simp add: load_elf_object_def one_file_def)
qed

definition tiny_image :: guest_image where
  "tiny_image = \<lparr>im_entry = 0x1007C, im_start_entry = 0x1007C, im_interpreter_base = 0, im_program_headers = 0x10034,
     im_program_header_size = 32, im_program_header_count = 1, im_initial_brk = 0x10084\<rparr>"

lemma tiny_load:
  "load_guest_image obliging_mm (one_file tiny_elf) D 1024 gp path (empty_loader ()) =
   (Ret tiny_image, tiny_loaded\<lparr>ld_memory := tiny_memory\<lparr>current_break := 0x10084, minimum_break := 0x10084,
      break_mapping_end := 0x11000\<rparr>\<rparr>)"
proof -
  have exec: "guest_memory_is_executable 0x1007C 4 tiny_memory" by code_simp
  have brk: "guest_brk_initialize 0x10084 tiny_memory = (Done (), tiny_memory\<lparr>current_break := 0x10084,
      minimum_break := 0x10084, break_mapping_end := 0x11000\<rparr>)" by code_simp
  have "finish_image obliging_mm tiny_image tiny_loaded = (Ret tiny_image, tiny_loaded\<lparr>ld_memory :=
      tiny_memory\<lparr>current_break := 0x10084, minimum_break := 0x10084, break_mapping_end := 0x11000\<rparr>\<rparr>)"
    using exec brk
    by (simp add: finish_image_def tiny_image_def tiny_loaded_def arm_patch_count_def Let_def guest_memory_finalize_def
        tiny_memory_def obliging_mm_def)
  then show ?thesis
    by (simp add: load_guest_image_def load_image_objects_def tiny_object tiny_image_def)
qed


text \<open>The same file without a section table: the load fails after the segment is mapped.\<close>

definition stripped_elf :: "u8 list" where
  "stripped_elf = tiny_elf[48 := 0]"

lemma stripped_object:
  "\<exists>t. load_elf_object obliging_mm (one_file stripped_elf) path MAIN_ET_DYN_BIAS True (Some 1024) (empty_loader ()) = (Err, t)"
proof -
  let ?s = "empty_loader () :: unit loader" and ?F = "one_file stripped_elf" and ?h = "tiny_ehdr\<lparr>e_shnum := 0\<rparr>"
  have len: "length stripped_elf = 132" by (simp add: stripped_elf_def length_tiny_elf)
  have reads: "ld_read ?F 3 52 0 ?s = (Ret (take 52 stripped_elf), ?s)"
    "ld_read ?F 3 32 52 ?s = (Ret (take 32 (drop 52 stripped_elf)), ?s)"
    using one_file_ld_read [of 52 0 stripped_elf 3 ?s] one_file_ld_read [of 32 52 stripped_elf 3 ?s]
    by (simp_all add: len)
  have decode: "decode_ehdr (take 52 stripped_elf) = ?h"
    "decode_table decode_phdr 32 1 (take 32 (drop 52 stripped_elf)) = [tiny_phdr]" by code_simp+
  have ok: "elf_header_ok ?h True 132" by code_simp
  have "\<exists>u. map_headers obliging_mm ?F 3 0 132 [tiny_phdr] 0 ?s = (Ret 0x10084, u)"
    using tiny_segment [OF len, of "ld_world ?s"] by (simp add: empty_loader_def tiny_phdr_def)
  then have "\<exists>u. load_at_bias obliging_mm ?F 3 ?h [tiny_phdr] 132 0 ?s = (Err, u)"
    by (auto simp: load_at_bias_alt patch_executable_sections_def)
  then obtain u where "try_biases obliging_mm ?F 3 ?h [tiny_phdr] 132 (object_biases ?h MAIN_ET_DYN_BIAS) ?s = (Err, u)"
    by (auto simp: object_biases_def tiny_ehdr_def)
  moreover have "read_interpreter ?F 3 1024 [tiny_phdr] '''' ?s = (Ret '''', ?s)" by (simp add: tiny_phdr_def)
  moreover have "e_phnum ?h = 1" "e_phoff ?h = 52" "p_type tiny_phdr \<noteq> PT_INTERP" by (simp_all add: tiny_ehdr_def tiny_phdr_def)
  ultimately have "load_open_object obliging_mm ?F 3 MAIN_ET_DYN_BIAS True (Some 1024) ?s = (Err, u)"
    unfolding load_open_object_def
    using reads ok tiny_header_ok(2) decode by (simp add: one_file_def len Let_def)
  then show ?thesis by (simp add: load_elf_object_def one_file_def)
qed

theorem failed_load_undone_witness:
  "\<exists>t. load_guest_image obliging_mm (one_file stripped_elf) linked_fs 1024
     \<lparr>root_path = ''/g'', guest_cwd = ''/''\<rparr> ''/bin/a'' (empty_loader ()) = (Err, t) \<and>
     ld_patches t = [] \<and> load_segments (ld_memory t) = []"
proof -
  obtain t where run: "load_guest_image obliging_mm (one_file stripped_elf) linked_fs 1024
     \<lparr>root_path = ''/g'', guest_cwd = ''/''\<rparr> ''/bin/a'' (empty_loader ()) = (Err, t)"
    using stripped_object [of "''/bin/a''"] by (auto simp: load_guest_image_def load_image_objects_def)
  have "ld_patches (empty_loader ()) = []" "load_segments (ld_memory (empty_loader ())) = []"
    by (simp_all add: empty_loader_def fresh_memory_def)
  then show ?thesis using failed_load_undone [OF run] run by auto
qed

theorem patched_sections_clean_witness:
  "clean_at (w_mem (ld_world tiny_loaded)) 0x1007C 8"
proof -
  have "ld_read (one_file tiny_elf) 3 (unat (e_shnum tiny_ehdr) * 40) (int (unat (e_shoff tiny_ehdr))) tiny_mapped =
      (Ret (take 40 (drop 84 tiny_elf)), tiny_mapped)"
    using tiny_table [of tiny_mapped] by (simp add: tiny_ehdr_def)
  moreover have "length (ld_patches tiny_mapped) \<le> MAX_PATCHES" by (simp add: tiny_mapped_def empty_loader_def)
  moreover have "tiny_shdr \<in> set (decode_table decode_shdr 40 (unat (e_shnum tiny_ehdr)) (take 40 (drop 84 tiny_elf)))"
    using tiny_decode(3) by (simp add: tiny_ehdr_def)
  moreover have "code_section tiny_shdr" by (simp add: code_section_def tiny_shdr_def)
  ultimately have "clean_at (w_mem (ld_world tiny_loaded)) (0 + sh_addr tiny_shdr) (sh_size tiny_shdr)"
    using patched_sections_clean [OF _ _ tiny_sections] by blast
  then show ?thesis by (simp add: tiny_shdr_def)
qed

end
