(* ===== verification/Guest_Runtime.thy ===== *)
theory Guest_Runtime
  imports Guest_Process Guest_Memory Elf_Loader
begin

text \<open>
  \<open>src/src/runtime.c\<close>: the page size and trace switch, and the initial stack of a guest program,
  with its argument, environment and auxiliary vectors. The entry stub
  \<open>linuxemu_enter_guest\<close> is assembly.
\<close>

unbundle bit_operations_syntax

section \<open>State and host\<close>

record runtime =
  host_page_size :: int
  trace_enabled :: bool

definition runtime_initialize :: "int \<Rightarrow> bool \<Rightarrow> runtime" where
  "runtime_initialize page enable_trace = \<lparr>host_page_size = page, trace_enabled = enable_trace\<rparr>"

record 'h stack_host =
  sh_mm :: "'h host_mm"
  sh_open :: "string \<Rightarrow> 'h world \<Rightarrow> (host_errno + int) \<times> 'h world"
  sh_read :: "int \<Rightarrow> nat \<Rightarrow> 'h world \<Rightarrow> (host_errno + u8 list) \<times> 'h world"
  sh_close :: "int \<Rightarrow> 'h world \<Rightarrow> 'h world"
  sh_calloc_ok :: "nat \<Rightarrow> 'h world \<Rightarrow> bool"
  sh_uid :: u32
  sh_euid :: u32
  sh_gid :: u32
  sh_egid :: u32

abbreviation (input) GUEST_STACK_SIZE :: u32 where "GUEST_STACK_SIZE \<equiv> 0x100000"

definition guest_environment_entry :: "string \<Rightarrow> bool" where
  "guest_environment_entry value \<longleftrightarrow>
     \<not> starts_with ''LINUXEMU_'' value \<and> \<not> starts_with ''LD_LIBRARY_PATH='' value"

section \<open>Random bytes\<close>

text \<open>The read loop; a host that answers \<open>EINTR\<close> for ever keeps it running.\<close>

partial_function (option) random_loop ::
  "'h stack_host \<Rightarrow> int \<Rightarrow> nat \<Rightarrow> u8 list \<Rightarrow> 'h world \<Rightarrow> (u8 list option \<times> 'h world) option" where
  "random_loop H fd len acc w =
     (if len = 0 then Some (Some acc, w)
      else (case sh_read H fd len w of (r, w) \<Rightarrow>
        (case r of
           Inl e \<Rightarrow> if e = EINTR then random_loop H fd len acc w else Some (None, w)
         | Inr bs \<Rightarrow>
             if bs = [] then Some (None, w)
             else random_loop H fd (len - length bs) (acc @ bs) w)))"

definition fill_random_bytes :: "'h stack_host \<Rightarrow> nat \<Rightarrow> 'h world \<Rightarrow> u8 list outcome \<times> 'h world" where
  "fill_random_bytes H len w =
     (case sh_open H ''/dev/urandom'' w of
        (Inl e, w) \<Rightarrow> (Fail e, w)
      | (Inr fd, w) \<Rightarrow>
          (case random_loop H fd len [] w of
             None \<Rightarrow> (Hang, w)
           | Some (None, w) \<Rightarrow> (Fail EIO, sh_close H fd w)
           | Some (Some bs, w) \<Rightarrow> (Done bs, sh_close H fd w)))"

section \<open>The stack\<close>

definition bytes_of :: "string \<Rightarrow> u8 list" where
  "bytes_of s = map (\<lambda>c. of_nat (of_char c)) s @ [0]"

text \<open>\<open>push_bytes\<close> moves the cursor down; \<open>None\<close> is the failure with \<open>E2BIG\<close>.\<close>

definition push_bytes :: "u32 \<Rightarrow> u8 list \<Rightarrow> u32 \<times> mem \<Rightarrow> (u32 \<times> mem) option" where
  "push_bytes lower_bound source st =
     (case st of (cursor, m) \<Rightarrow>
        if length source > unat (cursor - lower_bound) then None
        else let cursor = cursor - of_nat (length source) in Some (cursor, store_bytes m cursor source))"

text \<open>Pushing strings in the order of a list, with their addresses in that order.\<close>

primrec push_strings :: "u32 \<Rightarrow> string list \<Rightarrow> u32 \<times> mem \<Rightarrow> (u32 list \<times> u32 \<times> mem) option" where
  "push_strings lower_bound [] st = Some ([], st)"
| "push_strings lower_bound (s # rest) st =
     (case push_bytes lower_bound (bytes_of s) st of
        None \<Rightarrow> None
      | Some (address, m) \<Rightarrow>
          (case push_strings lower_bound rest (address, m) of
             None \<Rightarrow> None
           | Some (addresses, st) \<Rightarrow> Some (address # addresses, st)))"

definition auxiliary_vector ::
  "'h stack_host \<Rightarrow> int \<Rightarrow> guest_image \<Rightarrow> u32 \<Rightarrow> u32 \<Rightarrow> (u32 \<times> u32) list" where
  "auxiliary_vector H page img random_address exec_name =
     (if im_program_headers img \<noteq> 0 then [(3, im_program_headers img)] else []) @
     [(4, im_program_header_size img), (5, im_program_header_count img), (6, of_int page),
      (7, im_interpreter_base img), (9, im_entry img), (11, sh_uid H), (12, sh_euid H), (13, sh_gid H),
      (14, sh_egid H), (23, 0), (25, random_address), (31, exec_name)]"

definition stack_words :: "u32 list \<Rightarrow> u32 list \<Rightarrow> (u32 \<times> u32) list \<Rightarrow> u32 list" where
  "stack_words arguments environment auxiliary =
     of_nat (length arguments) # arguments @ 0 # environment @ 0 #
     concat (map (\<lambda>(t, v). [t, v]) auxiliary) @ [0, 0]"

text \<open>
  Everything between the mapping of the stack and its final address. What a failed build wrote
  to the stack is discarded by the \<open>munmap\<close> that follows; the model leaves memory to that call.
\<close>

definition build_stack ::
  "'h stack_host \<Rightarrow> int \<Rightarrow> guest_image \<Rightarrow> string list \<Rightarrow> string list \<Rightarrow> u32 \<Rightarrow> 'h world \<Rightarrow> u32 outcome \<times> 'h world" where
  "build_stack H page img guest_argv environ lower_bound w =
     (let entries = filter guest_environment_entry environ in
      if \<not> sh_calloc_ok H (4 * length guest_argv) w \<or> (entries \<noteq> [] \<and> \<not> sh_calloc_ok H (4 * length entries) w)
      then (Fail ENOMEM, w)
      else case push_strings lower_bound entries (lower_bound + GUEST_STACK_SIZE, w_mem w) of
        None \<Rightarrow> (Fail E2BIG, w)
      | Some (environment_addresses, st) \<Rightarrow>
          (case push_strings lower_bound (rev guest_argv) st of
             None \<Rightarrow> (Fail E2BIG, w)
           | Some (reversed, cursor, m) \<Rightarrow>
               let argument_addresses = rev reversed in
               (case fill_random_bytes H 16 (w\<lparr>w_mem := m\<rparr>) of
                  (Done random_bytes, w) \<Rightarrow>
                    (case push_bytes lower_bound random_bytes (align_down cursor 16, w_mem w) of
                       None \<Rightarrow> (Fail E2BIG, w)
                     | Some (random_address, m) \<Rightarrow>
                         let words = stack_words argument_addresses environment_addresses
                               (auxiliary_vector H page img random_address (hd argument_addresses));
                             vector_start = align_down (random_address - of_nat (4 * length words)) 16
                         in if length words > unat (random_address - lower_bound) div 4 \<or> vector_start < lower_bound
                            then (Fail E2BIG, w\<lparr>w_mem := m\<rparr>)
                            else (Done vector_start, w\<lparr>w_mem := store_words m vector_start words\<rparr>))
                | (Fail e, w) \<Rightarrow> (Fail e, w) | (_, w) \<Rightarrow> (Hang, w))))"

definition create_guest_stack ::
  "'h stack_host \<Rightarrow> int \<Rightarrow> guest_image \<Rightarrow> string list \<Rightarrow> string list \<Rightarrow> guest_memory \<times> 'h world \<Rightarrow>
    u32 outcome \<times> guest_memory \<times> 'h world" where
  "create_guest_stack H page img guest_argv environ st =
     (case st of (g, w) \<Rightarrow>
      if guest_argv = [] then (Fail EINVAL, g, w)
      else case h_mmap (sh_mm H) 0 GUEST_STACK_SIZE {PROT_READ, PROT_WRITE} {MAP_PRIVATE, MAP_ANON, MAP_STACK} (-1) 0 w of
        (Inl e, w) \<Rightarrow> (Fail e, g, w)
      | (Inr lower_bound, w) \<Rightarrow>
          let unmap = (\<lambda>w. snd (h_munmap (sh_mm H) lower_bound GUEST_STACK_SIZE w)) in
          if lower_bound < GUEST_MIN_ADDRESS \<or> lower_bound \<ge> GUEST_MAX_ADDRESS \<or>
             GUEST_STACK_SIZE > GUEST_MAX_ADDRESS - lower_bound
          then (Fail ENOMEM, g, unmap w)
          else (case guest_memory_runtime_map lower_bound GUEST_STACK_SIZE False g of
              (Done _, g) \<Rightarrow>
                (case build_stack H page img guest_argv environ lower_bound w of
                   (Done sp, w) \<Rightarrow> (Done sp, g, w)
                 | (Hang, w) \<Rightarrow> (Hang, g, w)
                 | (r, w) \<Rightarrow> (r, guest_memory_runtime_unmap lower_bound GUEST_STACK_SIZE g, unmap w))
            | (_, g) \<Rightarrow> (Fail ENOMEM, g, unmap w)))"


section \<open>Writing downwards\<close>

definition cstring :: "mem \<Rightarrow> u32 \<Rightarrow> string \<Rightarrow> bool" where
  "cstring m a s \<longleftrightarrow> load_bytes m a (length s + 1) = bytes_of s"

text \<open>Memory changed between two addresses only.\<close>

definition changed_within :: "nat \<Rightarrow> nat \<Rightarrow> mem \<Rightarrow> mem \<Rightarrow> bool" where
  "changed_within lo hi m m' \<longleftrightarrow> (\<forall>x. unat x < lo \<or> hi \<le> unat x \<longrightarrow> m' x = m x)"

lemma changed_within_trans:
  "changed_within lo hi m m' \<Longrightarrow> changed_within lo' hi' m' m'' \<Longrightarrow>
    changed_within (min lo lo') (max hi hi') m m''"
  by (simp add: changed_within_def)

lemma changed_within_mono:
  "changed_within lo hi m m' \<Longrightarrow> lo' \<le> lo \<Longrightarrow> hi \<le> hi' \<Longrightarrow> changed_within lo' hi' m m'"
  by (simp add: changed_within_def)

lemma load_bytes_above:
  assumes "changed_within lo hi m m'" "hi \<le> unat a" "unat a + n \<le> 4294967296"
  shows "load_bytes m' a n = load_bytes m a n"
proof -
  have "m' (a + of_nat i) = m (a + of_nat i)" if "i < n" for i
  proof -
    have "unat (of_nat i :: u32) = i" using that assms(3) by (simp add: unat_of_nat)
    then have "unat (a + of_nat i) = unat a + i" using that assms(3) unat_add_lem [of a "of_nat i"] by simp
    then show ?thesis using assms(1,2) unfolding changed_within_def by auto
  qed
  then show ?thesis by (simp add: load_bytes_def)
qed

lemma cstring_above:
  "cstring m a s \<Longrightarrow> changed_within lo hi m m' \<Longrightarrow> hi \<le> unat a \<Longrightarrow> unat a + length s + 1 \<le> 4294967296 \<Longrightarrow> cstring m' a s"
  using load_bytes_above [of lo hi m m' a "length s + 1"] by (simp add: cstring_def)

lemma store_bytes_within:
  assumes "unat a + length bs \<le> 4294967296"
  shows "changed_within (unat a) (unat a + length bs) m (store_bytes m a bs)"
  unfolding changed_within_def
proof (intro allI impI)
  fix x :: u32 assume x: "unat x < unat a \<or> unat a + length bs \<le> unat x"
  have "length bs \<le> unat (x - a)"
  proof (cases "a \<le> x")
    case True
    then show ?thesis using x unat_sub [OF True] by (auto simp: word_le_nat_alt)
  next
    case False
    then have "x \<noteq> a" by auto
    from unat_diff_flip [OF this] show ?thesis
      using False assms unat_sub [of x a] by (auto simp: word_le_nat_alt)
  qed
  then show "store_bytes m a bs x = m x" by (rule store_bytes_outside)
qed

lemma push_bytes_Some:
  assumes "push_bytes lower bs (c, m) = Some (c', m')" "lower \<le> c"
  shows "unat c' + length bs = unat c" "lower \<le> c'" "load_bytes m' c' (length bs) = bs"
    "changed_within (unat c') (unat c) m m'"
proof -
  have len: "length bs \<le> unat (c - lower)" and c': "c' = c - of_nat (length bs)" and m': "m' = store_bytes m c' bs"
    using assms(1) by (auto simp: push_bytes_def Let_def not_less split: if_splits)
  have cl: "unat (c - lower) = unat c - unat lower" "unat lower \<le> unat c"
    using unat_sub [OF assms(2)] assms(2) by (simp_all add: word_le_nat_alt)
  have u: "unat (of_nat (length bs) :: u32) = length bs"
    using len cl unat_u32_less [of c] by (simp add: unat_of_nat)
  have "of_nat (length bs) \<le> c" using len cl u by (simp add: word_le_nat_alt)
  then have c'u: "unat c' = unat c - length bs" unfolding c' using u by (simp add: unat_sub)
  then show sum: "unat c' + length bs = unat c" using len cl by simp
  show "lower \<le> c'" using c'u len cl by (simp add: word_le_nat_alt)
  have small: "unat c' + length bs \<le> 4294967296" using sum unat_u32_less [of c] by simp
  then show "load_bytes m' c' (length bs) = bs" unfolding m' using load_store_bytes_same [of bs "length bs" m c'] by simp
  show "changed_within (unat c') (unat c) m m'"
    unfolding m' using store_bytes_within [OF small, of m] sum by simp
qed

lemma length_bytes_of [simp]: "length (bytes_of s) = length s + 1"
  by (simp add: bytes_of_def)

definition strings_at :: "mem \<Rightarrow> nat \<Rightarrow> nat \<Rightarrow> u32 list \<Rightarrow> string list \<Rightarrow> bool" where
  "strings_at m lo hi as ss \<longleftrightarrow>
     list_all2 (\<lambda>a s. cstring m a s \<and> lo \<le> unat a \<and> unat a + length s + 1 \<le> hi) as ss"

lemma strings_at_above:
  assumes "strings_at m lo hi as ss" "changed_within l h m m'" "h \<le> lo" "hi \<le> 4294967296"
  shows "strings_at m' lo hi as ss"
  unfolding strings_at_def
  by (rule list_all2_mono [OF assms(1) [unfolded strings_at_def]])
    (use assms in \<open>auto intro: cstring_above\<close>)

lemma strings_at_mono: "strings_at m lo hi as ss \<Longrightarrow> lo' \<le> lo \<Longrightarrow> hi \<le> hi' \<Longrightarrow> strings_at m lo' hi' as ss"
  unfolding strings_at_def by (erule list_all2_mono) auto

lemma push_strings_Some:
  assumes "push_strings lower ss (c, m) = Some (as, c', m')" "lower \<le> c"
  shows "lower \<le> c' \<and> unat c' \<le> unat c \<and> strings_at m' (unat c') (unat c) as ss \<and>
    changed_within (unat c') (unat c) m m'"
  using assms
proof (induction ss arbitrary: c m as)
  case Nil
  then show ?case by (simp add: strings_at_def changed_within_def)
next
  case (Cons s ss)
  from Cons.prems(1) obtain a m1 as' where one: "push_bytes lower (bytes_of s) (c, m) = Some (a, m1)"
    and rest: "push_strings lower ss (a, m1) = Some (as', c', m')" and as: "as = a # as'"
    by (auto split: option.splits prod.splits)
  note p = push_bytes_Some [OF one Cons.prems(2)]
  note IH = Cons.IH [OF rest p(2)]
  have small: "unat c \<le> 4294967296" using unat_u32_less [of c] by simp
  have "cstring m1 a s" using p(3) by (simp add: cstring_def)
  then have "cstring m' a s" using IH p(1) small by (intro cstring_above [of m1 a s _ "unat a" m']) auto
  moreover have "strings_at m' (unat c') (unat c) as' ss"
    using IH p(1) by (auto intro: strings_at_mono)
  moreover have "changed_within (unat c') (unat c) m m'"
    using changed_within_trans [OF p(4) conjunct2 [OF conjunct2 [OF conjunct2 [OF IH]]]] IH p(1)
    by (auto elim!: changed_within_mono)
  ultimately show ?case using IH p(1) as by (simp add: strings_at_def)
qed

section \<open>The initial stack\<close>

text \<open>
  What is assumed of the host: reading \<open>/dev/urandom\<close> does not change guest memory and
  delivers at most the bytes asked for, and a mapping starts on a page boundary.
\<close>

definition quiet_random :: "'h stack_host \<Rightarrow> bool" where
  "quiet_random H \<longleftrightarrow> (\<forall>p w. w_mem (snd (sh_open H p w)) = w_mem w) \<and>
     (\<forall>fd n w. w_mem (snd (sh_read H fd n w)) = w_mem w) \<and>
     (\<forall>fd n w bs. fst (sh_read H fd n w) = Inr bs \<longrightarrow> length bs \<le> n) \<and>
     (\<forall>fd w. w_mem (sh_close H fd w) = w_mem w)"

definition page_aligned_mmap :: "'h host_mm \<Rightarrow> bool" where
  "page_aligned_mmap M \<longleftrightarrow>
     (\<forall>a n p fl fd off w b. fst (h_mmap M a n p fl fd off w) = Inr b \<longrightarrow> unat b mod 4096 = 0)"

lemma random_loop_quiet:
  assumes "random_loop H fd len acc w = Some y"
  shows "quiet_random H \<longrightarrow>
    w_mem (snd y) = w_mem w \<and> (\<forall>bs. fst y = Some bs \<longrightarrow> length bs = length acc + len)"
proof (rule random_loop.raw_induct [where P = "\<lambda>H fd len acc w y. quiet_random H \<longrightarrow>
    w_mem (snd y) = w_mem w \<and> (\<forall>bs. fst y = Some bs \<longrightarrow> length bs = length acc + len)", OF _ assms], intro impI)
  fix f and H :: "'a stack_host" and fd len acc w y
  assume IH: "\<And>H fd len acc w y. f H fd len acc w = Some y \<Longrightarrow> quiet_random H \<longrightarrow>
      w_mem (snd y) = w_mem w \<and> (\<forall>bs. fst y = Some bs \<longrightarrow> length bs = length acc + len)"
    and body: "(if len = 0 then Some (Some acc, w)
      else (case sh_read H fd len w of (r, w) \<Rightarrow>
        (case r of
           Inl e \<Rightarrow> if e = EINTR then f H fd len acc w else Some (None, w)
         | Inr bs \<Rightarrow> if bs = [] then Some (None, w) else f H fd (len - length bs) (acc @ bs) w))) = Some y"
    and q: "quiet_random H"
  obtain r w1 where rd: "sh_read H fd len w = (r, w1)" by (cases "sh_read H fd len w")
  have k: "w_mem w1 = w_mem w" "\<And>bs. r = Inr bs \<Longrightarrow> length bs \<le> len"
    using q rd unfolding quiet_random_def by (metis snd_conv, metis fst_conv)
  show "w_mem (snd y) = w_mem w \<and> (\<forall>bs. fst y = Some bs \<longrightarrow> length bs = length acc + len)"
  proof (cases "\<exists>len' acc'. f H fd len' acc' w1 = Some y \<and> length acc' + len' = length acc + len")
    case True
    then show ?thesis using IH q k(1) by metis
  next
    case False
    have "f H fd (len - length bs) (acc @ bs) w1 \<noteq> Some y" if "r = Inr bs" for bs
    proof -
      have "length (acc @ bs) + (len - length bs) = length acc + len" using k(2) [OF that] by simp
      then show ?thesis using False by blast
    qed
    then show ?thesis using False body rd k by (auto split: if_splits sum.splits)
  qed
qed

lemma fill_random_quiet:
  assumes q: "quiet_random H" and run: "fill_random_bytes H n w = (Done bs, w')"
  shows "w_mem w' = w_mem w" "length bs = n"
proof -
  obtain r w1 where op: "sh_open H ''/dev/urandom'' w = (r, w1)" by (cases "sh_open H ''/dev/urandom'' w")
  have m1: "w_mem w1 = w_mem w" using q op unfolding quiet_random_def by (metis snd_conv)
  from run op obtain fd w2 where lp: "random_loop H fd n [] w1 = Some (Some bs, w2)" and w': "w' = sh_close H fd w2"
    by (auto simp: fill_random_bytes_def split: sum.splits option.splits)
  from random_loop_quiet [OF lp] q m1 w' show "w_mem w' = w_mem w" "length bs = n"
    by (auto simp: quiet_random_def)
qed

lemma align16: "unat (align_down v 16) \<le> unat v" "unat v < unat (align_down v 16) + 16"
  "unat (align_down v 16) mod 16 = 0"
  using align_down_bounds [of 4 v] by (simp_all add: word_le_nat_alt dvd_eq_mod_eq_0)

lemma build_stack_Done:
  assumes run: "build_stack H page img argv environ lower w = (Done sp, w')"
    and q: "quiet_random H" and al: "unat lower mod 16 = 0" and top: "unat lower + 0x100000 \<le> 0x70000000"
  obtains as es rnd bs where
    "\<forall>i<length (stack_words as es (auxiliary_vector H page img rnd (hd as))).
      load32 (w_mem w') (sp + 4 * of_nat i) = stack_words as es (auxiliary_vector H page img rnd (hd as)) ! i"
    "strings_at (w_mem w') (unat rnd + 16) (unat lower + 0x100000) as argv"
    "strings_at (w_mem w') (unat rnd + 16) (unat lower + 0x100000) es (filter guest_environment_entry environ)"
    "load_bytes (w_mem w') rnd 16 = bs" "length bs = 16"
    "lower \<le> sp" "unat sp + 4 * length (stack_words as es (auxiliary_vector H page img rnd (hd as))) \<le> unat rnd"
    "unat sp mod 16 = 0" "changed_within (unat sp) (unat lower + 0x100000) (w_mem w) (w_mem w')"
proof -
  let ?top = "lower + 0x100000" and ?es = "filter guest_environment_entry environ"
  have topu: "unat ?top = unat lower + 0x100000" using top unat_add_lem [of lower "0x100000"] by simp
  have lt: "lower \<le> ?top" using topu by (simp add: word_le_nat_alt)
  from run obtain es c1 m1 where p1: "push_strings lower ?es (?top, w_mem w) = Some (es, c1, m1)"
    by (auto simp: build_stack_def Let_def split: if_splits option.splits prod.splits)
  from run p1 obtain ra c2 m2 where p2: "push_strings lower (rev argv) (c1, m1) = Some (ra, c2, m2)"
    by (auto simp: build_stack_def Let_def split: if_splits option.splits prod.splits)
  from run p1 p2 obtain bs w3 where p3: "fill_random_bytes H 16 (w\<lparr>w_mem := m2\<rparr>) = (Done bs, w3)"
    by (auto simp: build_stack_def Let_def split: if_splits option.splits prod.splits outcome.splits)
  have w3: "w_mem w3 = m2" "length bs = 16" using fill_random_quiet [OF q p3] by simp_all
  from run p1 p2 p3 w3 obtain rnd m4 where p4: "push_bytes lower bs (align_down c2 16, m2) = Some (rnd, m4)"
    by (auto simp: build_stack_def Let_def split: if_splits option.splits prod.splits)
  define ws where "ws = stack_words (rev ra) es (auxiliary_vector H page img rnd (hd (rev ra)))"
  have sp: "sp = align_down (rnd - of_nat (4 * length ws)) 16"
    and fit: "length ws \<le> unat (rnd - lower) div 4" "lower \<le> sp" and w': "w' = w3\<lparr>w_mem := store_words m4 sp ws\<rparr>"
    using run p1 p2 p3 p4 w3
    by (auto simp: build_stack_def Let_def ws_def [symmetric] not_less split: if_splits)
  note s1 = push_strings_Some [OF p1 lt] and s2 = push_strings_Some [OF p2]
  have c2: "lower \<le> c2" "unat c2 \<le> unat c1" using s1 s2 by auto
  have "lower \<le> align_down c2 16"
    using align16 [of c2] al c2(1) unfolding word_le_nat_alt by presburger
  note s4 = push_bytes_Some [OF p4 this, unfolded w3(2)]
  have lenws: "4 * length ws \<le> unat rnd - unat lower"
  proof -
    have "4 * (unat (rnd - lower) div 4) \<le> unat (rnd - lower)" by simp
    then show ?thesis using fit(1) unat_sub [OF s4(2)] by linarith
  qed
  have rl: "unat lower \<le> unat rnd" using s4(2) by (simp add: word_le_nat_alt)
  have rtop: "unat rnd + 16 \<le> unat c2" using s4(1) align16(1) [of c2] by simp
  have ctop: "unat c2 \<le> unat c1" "unat c1 \<le> unat lower + 0x100000" using c2 s1 topu by simp_all
  have u: "unat (of_nat (4 * length ws) :: u32) = 4 * length ws"
    using lenws unat_u32_less [of rnd] by (simp only: unat_of_nat) simp
  have "of_nat (4 * length ws) \<le> rnd" unfolding word_le_nat_alt u using lenws rl by linarith
  from unat_sub [OF this] have sub: "unat (rnd - of_nat (4 * length ws)) = unat rnd - 4 * length ws" unfolding u .
  have spu: "unat sp + 4 * length ws \<le> unat rnd"
    using align16(1) [of "rnd - of_nat (4 * length ws)"] sub lenws rl unfolding sp by linarith
  have small: "unat rnd < 4294967296" by (rule unat_u32_less)
  have m5: "changed_within (unat sp) (unat sp + 4 * length ws) m4 (store_words m4 sp ws)"
    using store_bytes_within [of sp "concat (map (to_le 4) ws)" m4] spu small
    by (simp add: store_words_def length_concat_words)
  have cw: "changed_within (unat sp) (unat c2) m2 (store_words m4 sp ws)"
    by (rule changed_within_mono [OF changed_within_trans [OF s4(4) m5]])
      (use spu rtop s4(1) align16(1) [of c2] in simp_all)
  have topsmall: "unat lower + 0x100000 \<le> 4294967296" using top by simp
  have ss2: "strings_at m2 (unat c2) (unat c1) ra (rev argv)" "changed_within (unat c2) (unat c1) m1 m2"
    using s2 s1 by simp_all
  have str1: "strings_at (store_words m4 sp ws) (unat c2) (unat c1) ra (rev argv)"
    using strings_at_above [OF ss2(1) cw] ctop topsmall by simp
  have cw1: "changed_within (unat sp) (unat c1) m1 (store_words m4 sp ws)"
    by (rule changed_within_mono [OF changed_within_trans [OF ss2(2) cw]]) (use ctop spu rtop in simp_all)
  have str2: "strings_at (store_words m4 sp ws) (unat c1) (unat ?top) es ?es"
    using strings_at_above [of m1 "unat c1" "unat ?top" es ?es, OF _ cw1] s1 topsmall topu by simp
  have mem: "w_mem w' = store_words m4 sp ws" by (simp add: w')
  have words: "\<forall>i<length ws. load32 (w_mem w') (sp + 4 * of_nat i) = ws ! i"
    unfolding mem using load32_store_words [of _ ws m4 sp] lenws small by simp
  have args: "strings_at (w_mem w') (unat rnd + 16) (unat lower + 0x100000) (rev ra) argv"
    using strings_at_mono [OF str1, of "unat rnd + 16" "unat lower + 0x100000"] rtop ctop
    unfolding mem strings_at_def by (simp add: list_all2_rev1)
  have envs: "strings_at (w_mem w') (unat rnd + 16) (unat lower + 0x100000) es ?es"
    using strings_at_mono [OF str2, of "unat rnd + 16" "unat lower + 0x100000"] rtop ctop topu unfolding mem by simp
  have rand: "load_bytes (w_mem w') rnd 16 = bs"
    using load_bytes_above [OF m5, of rnd 16] s4(1,3) spu rtop unat_u32_less [of c2] unfolding mem by simp
  have all: "changed_within (unat sp) (unat lower + 0x100000) (w_mem w) (w_mem w')"
    unfolding mem
    by (rule changed_within_mono [OF changed_within_trans [OF conjunct2 [OF conjunct2 [OF conjunct2 [OF s1]]] cw1]])
      (use ctop spu rtop topu in simp_all)
  have "unat sp mod 16 = 0" unfolding sp by (rule align16(3))
  from that [of "rev ra" es rnd bs, folded ws_def, OF words args envs rand w3(2) fit(2) spu this all]
  show thesis .
qed

lemma created_stack_facts:
  assumes run: "create_guest_stack H page img argv environ (g, w) = (Done sp, g', w')"
    and reg: "registry_ok (runtime_mappings g)" and q: "quiet_random H" and al: "page_aligned_mmap (sh_mm H)"
    and es: "es = filter guest_environment_entry environ"
  shows "\<exists>lower args envs rnd ws.
    ws = stack_words args envs (auxiliary_vector H page img rnd (hd args)) \<and>
    (\<forall>i<length ws. load32 (w_mem w') (sp + 4 * of_nat i) = ws ! i) \<and>
    length args = length argv \<and> (\<forall>i<length argv. cstring (w_mem w') (args ! i) (argv ! i)) \<and>
    length envs = length es \<and> (\<forall>i<length es. cstring (w_mem w') (envs ! i) (es ! i)) \<and>
    unat sp mod 16 = 0 \<and> GUEST_MIN_ADDRESS \<le> lower \<and> lower \<le> sp \<and> unat sp + 4 * length ws \<le> unat rnd \<and>
    unat rnd + 16 \<le> unat lower + 0x100000 \<and> unat lower + 0x100000 \<le> unat GUEST_MAX_ADDRESS \<and>
    (\<forall>x. owner (runtime_mappings g') x =
      (if lower \<le> x \<and> x < lower + GUEST_STACK_SIZE then Some False else owner (runtime_mappings g) x))"
proof -
  obtain r w1 where mm: "h_mmap (sh_mm H) 0 GUEST_STACK_SIZE {PROT_READ, PROT_WRITE}
      {MAP_PRIVATE, MAP_ANON, MAP_STACK} (-1) 0 w = (r, w1)"
    by (cases "h_mmap (sh_mm H) 0 GUEST_STACK_SIZE {PROT_READ, PROT_WRITE} {MAP_PRIVATE, MAP_ANON, MAP_STACK} (-1) 0 w")
  from run mm obtain lower where r: "r = Inr lower" and ne: "argv \<noteq> []"
    by (auto simp: create_guest_stack_def split: if_splits sum.splits)
  obtain m g1 where rm: "guest_memory_runtime_map lower GUEST_STACK_SIZE False g = (m, g1)"
    by (cases "guest_memory_runtime_map lower GUEST_STACK_SIZE False g")
  have range: "GUEST_MIN_ADDRESS \<le> lower" "lower < GUEST_MAX_ADDRESS" "GUEST_STACK_SIZE \<le> GUEST_MAX_ADDRESS - lower"
    and m: "m = Done ()" and g': "g' = g1" and b: "build_stack H page img argv environ lower w1 = (Done sp, w')"
    using run mm r ne rm
    by (auto simp: create_guest_stack_def Let_def not_less not_le split: if_splits outcome.splits prod.splits)
  have top: "unat lower + 0x100000 \<le> 0x70000000"
    using range(2,3) unat_sub [of lower GUEST_MAX_ADDRESS] by (simp add: word_less_nat_alt word_le_nat_alt)
  have "unat lower mod 4096 = 0" using al mm r unfolding page_aligned_mmap_def by (metis fst_conv)
  moreover have "unat lower mod 4096 mod 16 = unat lower mod 16" by (rule mod_mod_cancel) simp
  ultimately have al16: "unat lower mod 16 = 0" by simp
  obtain as en rnd bs where st:
    "\<forall>i<length (stack_words as en (auxiliary_vector H page img rnd (hd as))).
      load32 (w_mem w') (sp + 4 * of_nat i) = stack_words as en (auxiliary_vector H page img rnd (hd as)) ! i"
    "strings_at (w_mem w') (unat rnd + 16) (unat lower + 0x100000) as argv"
    "strings_at (w_mem w') (unat rnd + 16) (unat lower + 0x100000) en es"
    "load_bytes (w_mem w') rnd 16 = bs" "length bs = 16"
    "lower \<le> sp" "unat sp + 4 * length (stack_words as en (auxiliary_vector H page img rnd (hd as))) \<le> unat rnd"
    "unat sp mod 16 = 0" "changed_within (unat sp) (unat lower + 0x100000) (w_mem w1) (w_mem w')"
    by (rule build_stack_Done [OF b q al16 top, folded es])
  have strs: "length as = length argv \<and> (\<forall>i<length argv. cstring (w_mem w') (as ! i) (argv ! i))"
    "length en = length es \<and> (\<forall>i<length es. cstring (w_mem w') (en ! i) (es ! i))"
    using st(2,3) unfolding strings_at_def list_all2_conv_all_nth by simp_all
  have "unat (as ! 0) \<le> unat lower + 0x100000" "unat rnd + 16 \<le> unat (as ! 0)"
    using st(2) ne unfolding strings_at_def list_all2_conv_all_nth by (auto dest: spec [of _ 0])
  then have fit: "unat rnd + 16 \<le> unat lower + 0x100000" by simp
  have own: "owner (runtime_mappings g') x =
      (if lower \<le> x \<and> x < lower + GUEST_STACK_SIZE then Some False else owner (runtime_mappings g) x)" for x
    using runtime_map_outcome(3) [OF reg rm] unfolding m g' by simp
  have "unat lower + 0x100000 \<le> unat GUEST_MAX_ADDRESS" using top by simp
  note parts = refl st(1) conjunct1 [OF strs(1)] conjunct2 [OF strs(1)] conjunct1 [OF strs(2)] conjunct2 [OF strs(2)]
    st(8) range(1) st(6,7) fit this allI [OF own]
  show ?thesis
    by (rule exI [of _ lower], rule exI [of _ as], rule exI [of _ en], rule exI [of _ rnd],
        rule exI [of _ "stack_words as en (auxiliary_vector H page img rnd (hd as))"], intro conjI) (rule parts)+
qed

lemma created_stack_memory:
  assumes run: "create_guest_stack H page img argv environ (g, w) = (Done sp, g', w')"
    and reg: "registry_ok (runtime_mappings g)"
  shows "load_segments g' = load_segments g \<and> page_size g' = page_size g \<and> registry_ok (runtime_mappings g')"
proof -
  obtain lower where map: "guest_memory_runtime_map lower GUEST_STACK_SIZE False g = (Done (), g')"
    using run by (auto simp: create_guest_stack_def Let_def split: if_splits outcome.splits prod.splits sum.splits)
  then have "load_segments g' = load_segments g \<and> page_size g' = page_size g"
    by (auto simp: guest_memory_runtime_map_def split: if_splits outcome.splits)
  with runtime_map_outcome [OF reg map] show ?thesis by simp
qed


section \<open>Witness\<close>

definition stack_demo_host :: "unit stack_host" where
  "stack_demo_host = \<lparr>sh_mm = \<lparr>h_mmap = (\<lambda>a n p fl fd off w. (Inr 0x40000000, w)),
       h_munmap = (\<lambda>a n w. (None, w)), h_mprotect = (\<lambda>a n p w. (None, w)), h_msync = (\<lambda>a n w. (None, w))\<rparr>,
     sh_open = (\<lambda>p w. (Inr 3, w)), sh_read = (\<lambda>fd n w. (Inr (replicate n 7), w)), sh_close = (\<lambda>fd w. w),
     sh_calloc_ok = (\<lambda>n w. True), sh_uid = 1, sh_euid = 1, sh_gid = 1, sh_egid = 1\<rparr>"

lemma demo_random: "fill_random_bytes stack_demo_host 16 w = (Done (replicate 16 7), w)"
proof -
  have "random_loop stack_demo_host 3 16 [] w = Some (Some (replicate 16 7), w)"
    by (subst random_loop.simps, simp add: stack_demo_host_def, subst random_loop.simps, simp)
  then show ?thesis by (simp add: fill_random_bytes_def stack_demo_host_def)
qed

lemma demo_build:
  assumes entries: "filter guest_environment_entry environ = [''A=1'']"
  shows "\<exists>w'. build_stack stack_demo_host 4096 tiny_image [''ls'', ''-l''] environ 0x40000000 w = (Done 0x400FFF50, w')"
proof -
  have push: "push_bytes 0x40000000 bs (c, m) = Some (c - of_nat (length bs), store_bytes m (c - of_nat (length bs)) bs)"
    if "length bs \<le> unat (c - 0x40000000)" for bs c m using that by (simp add: push_bytes_def Let_def)
  have env: "\<exists>m'. push_strings 0x40000000 [''A=1''] (0x40000000 + GUEST_STACK_SIZE, m) = Some ([0x400FFFFC], 0x400FFFFC, m')" for m
    by (simp add: push)
  have args: "\<exists>m'. push_strings 0x40000000 (rev [''ls'', ''-l'']) (0x400FFFFC, m) =
      Some ([0x400FFFF9, 0x400FFFF6], 0x400FFFF6, m')" for m by (simp add: push)
  have rand: "\<exists>m'. push_bytes 0x40000000 (replicate 16 7) (align_down 0x400FFFF6 16, m) = Some (0x400FFFE0, m')" for m
    by (simp add: push align_down_def)
  have words: "length (stack_words [a, b] [c] (auxiliary_vector stack_demo_host 4096 tiny_image r n)) = 34" for a b c r n
    by (simp add: stack_words_def auxiliary_vector_def tiny_image_def)
  obtain m1 where m1: "push_strings 0x40000000 [''A=1''] (0x40000000 + GUEST_STACK_SIZE, w_mem w) = Some ([0x400FFFFC], 0x400FFFFC, m1)"
    using env by blast
  obtain m2 where m2: "push_strings 0x40000000 (rev [''ls'', ''-l'']) (0x400FFFFC, m1) = Some ([0x400FFFF9, 0x400FFFF6], 0x400FFFF6, m2)"
    using args by blast
  obtain m3 where m3: "push_bytes 0x40000000 (replicate 16 7) (align_down 0x400FFFF6 16, m2) = Some (0x400FFFE0, m3)"
    using rand by blast
  have calloc: "sh_calloc_ok stack_demo_host n w" for n w by (simp add: stack_demo_host_def)
  have vec: "align_down (0x400FFFE0 - of_nat (4 * 34)) 16 = 0x400FFF50" by (simp add: align_down_def)
  show ?thesis
    unfolding build_stack_def Let_def entries m1 m2 prod.case option.case demo_random
    by (simp add: calloc m3) (simp add: words [simplified] align_down_def)
qed

lemma demo_stack:
  assumes entries: "filter guest_environment_entry environ = [''A=1'']" and g: "runtime_mappings g = []"
  shows "\<exists>g' w'. create_guest_stack stack_demo_host 4096 tiny_image [''ls'', ''-l''] environ (g, w) = (Done 0x400FFF50, g', w')"
proof -
  obtain w' where b: "build_stack stack_demo_host 4096 tiny_image [''ls'', ''-l''] environ 0x40000000 w = (Done 0x400FFF50, w')"
    using demo_build [OF entries] by blast
  have mm: "h_mmap (sh_mm stack_demo_host) a n p fl fd off w = (Inr 0x40000000, w)" for a n p fl fd off w
    by (simp add: stack_demo_host_def)
  have "runtime_replace_locked 0x40000000 0x40100000 (Some False) [] =
      Done [\<lparr>rm_start = 0x40000000, rm_end = 0x40100000, rm_executable = False\<rparr>]" by code_simp
  then obtain g' where g': "guest_memory_runtime_map 0x40000000 GUEST_STACK_SIZE False g = (Done (), g')"
    by (simp add: guest_memory_runtime_map_def g)
  show ?thesis by (simp add: create_guest_stack_def mm Let_def g' b)
qed


end
