(* ===== verification/Guest_Trap.thy ===== *)
theory Guest_Trap
  imports Guest_Signal
begin

text \<open>
  \<open>src/src/trap.c\<close>: the handler of \<open>SIGILL\<close> and \<open>SIGSEGV\<close>. A patched instruction traps here
  and is emulated: a read of the thread register, a system call, or the return from a signal handler.
  Calls of the helpers that Linux maps at the top of the address space fault and are
  emulated as well. \<open>linux_syscall_dispatch\<close> is an argument.
\<close>

unbundle bit_operations_syntax

section \<open>State\<close>

record trap_state =
  tr_signal :: signal_env
  tr_patches :: patch_table
  tr_memory :: guest_memory

text \<open>The handler resumes the guest, or writes a message and leaves the process with status 125.\<close>

datatype trap_result = Resumed trap_state | FatalExit string

abbreviation (input) LINUX_KUSER_MEMORY_BARRIER :: u32 where "LINUX_KUSER_MEMORY_BARRIER \<equiv> 0xFFFF0FA0"
abbreviation (input) LINUX_KUSER_CMPXCHG :: u32 where "LINUX_KUSER_CMPXCHG \<equiv> 0xFFFF0FC0"
abbreviation (input) LINUX_KUSER_GET_TLS :: u32 where "LINUX_KUSER_GET_TLS \<equiv> 0xFFFF0FE0"
abbreviation (input) LINUX_KUSER_VERSION_ADDRESS :: u32 where "LINUX_KUSER_VERSION_ADDRESS \<equiv> 0xFFFF0FFC"
abbreviation (input) LINUX_KUSER_VERSION :: u32 where "LINUX_KUSER_VERSION \<equiv> 5"
abbreviation (input) ARM_KUSER_VERSION_LOAD :: u32 where "ARM_KUSER_VERSION_LOAD \<equiv> 0xE51CC003"

section \<open>Fatal signals\<close>

definition hex_digit :: "u32 \<Rightarrow> char" where
  "hex_digit v = ''0123456789abcdef'' ! unat (v AND 15)"

definition append_hex32 :: "string \<Rightarrow> u32 \<Rightarrow> string" where
  "append_hex32 buffer value = buffer @ map (\<lambda>shift. hex_digit (drop_bit shift value)) [28, 24, 20, 16, 12, 8, 4, 0]"

definition fatal_signal :: "int \<Rightarrow> siginfo \<Rightarrow> u32 \<Rightarrow> trap_result" where
  "fatal_signal sig info pc =
     FatalExit (append_hex32 (append_hex32 (append_hex32 ''linuxemu: fatal signal=0x'' (of_int sig) @ '' pc=0x'') pc @
       '' address=0x'') (si_addr info) @ [CHR 0x0A])"

section \<open>The handler\<close>

text \<open>Access to the registers.\<close>

definition tr_gpr :: "trap_state \<Rightarrow> nat \<Rightarrow> u32" where
  "tr_gpr st = gpr (se_context (tr_signal st))"

definition set_gpr :: "((nat \<Rightarrow> u32) \<Rightarrow> nat \<Rightarrow> u32) \<Rightarrow> trap_state \<Rightarrow> trap_state" where
  "set_gpr f st = st\<lparr>tr_signal := (tr_signal st)\<lparr>se_context := (se_context (tr_signal st))
     \<lparr>gpr := f (gpr (se_context (tr_signal st)))\<rparr>\<rparr>\<rparr>"

definition set_thread :: "(guest_thread_state option \<Rightarrow> guest_thread_state option) \<Rightarrow> trap_state \<Rightarrow> trap_state" where
  "set_thread f st = st\<lparr>tr_signal := (tr_signal st)\<lparr>se_thread := f (se_thread (tr_signal st))\<rparr>\<rparr>"

definition finish_return :: "sig_host \<Rightarrow> bool \<Rightarrow> int \<Rightarrow> siginfo \<Rightarrow> u32 \<Rightarrow> trap_state \<Rightarrow> trap_result" where
  "finish_return H siginfo_frame sig info pc st =
     (case guest_signal_return H siginfo_frame (tr_signal st) of
        (r, e) \<Rightarrow> if r = 0 then Resumed (st\<lparr>tr_signal := e\<rparr>) else fatal_signal sig info pc)"

definition deliver_or_die :: "sig_host \<Rightarrow> int \<Rightarrow> int \<Rightarrow> siginfo \<Rightarrow> u32 \<Rightarrow> trap_state \<Rightarrow> trap_result" where
  "deliver_or_die H linux_signal sig info pc st =
     (if guest_memory_is_executable pc 4 (tr_memory st) then
        (case guest_signal_deliver H linux_signal (Some info) (tr_signal st) of
           (r, e) \<Rightarrow> if r = 0 then Resumed (st\<lparr>tr_signal := e\<rparr>) else fatal_signal sig info pc)
      else fatal_signal sig info pc)"

text \<open>The helpers of the vector page and the read of their version.\<close>

definition emulate_kuser :: "sig_host \<Rightarrow> int \<Rightarrow> siginfo \<Rightarrow> u32 \<Rightarrow> trap_state \<Rightarrow> trap_result" where
  "emulate_kuser H sig info pc st =
     (if pc = LINUX_KUSER_GET_TLS then
        Resumed (set_gpr (\<lambda>r. r(0 := runtime_guest_tls (se_thread (tr_signal st)), 15 := r 14)) st)
      else if pc = LINUX_KUSER_MEMORY_BARRIER then Resumed (set_gpr (\<lambda>r. r(15 := r 14)) st)
      else if pc = LINUX_KUSER_CMPXCHG then
        let r = tr_gpr st; m = se_mem (tr_signal st); old_value = r 0; found = load32 m (r 2);
            m' = (if found = old_value then store32 m (r 2) (r 1) else m)
        in Resumed (set_gpr (\<lambda>r. r(0 := (if found = old_value then 0 else - 1), 15 := r 14))
             (st\<lparr>tr_signal := (tr_signal st)\<lparr>se_mem := m'\<rparr>\<rparr>))
      else if si_addr info = LINUX_KUSER_VERSION_ADDRESS \<and> guest_memory_is_executable pc 4 (tr_memory st) \<and>
              load32 (se_mem (tr_signal st)) pc = ARM_KUSER_VERSION_LOAD
      then Resumed (set_gpr (\<lambda>r. r(12 := LINUX_KUSER_VERSION, 15 := pc + 4)) st)
      else deliver_or_die H 11 sig info pc st)"

text \<open>A trapped system call: signal returns, and everything else through the dispatcher.\<close>

definition emulate_svc ::
  "sig_host \<Rightarrow> u32 \<Rightarrow> (trap_state \<Rightarrow> trap_state) \<Rightarrow> int \<Rightarrow> siginfo \<Rightarrow> u32 \<Rightarrow> trap_state \<Rightarrow> trap_result" where
  "emulate_svc H eintr linux_syscall_dispatch sig info pc st =
     (let syscall_number = tr_gpr st 7; original_r0 = tr_gpr st 0 in
      if syscall_number = 119 then finish_return H False sig info pc st
      else if syscall_number = 173 then finish_return H True sig info pc st
      else
        let st = set_thread guest_thread_syscall_enter st;
            st = linux_syscall_dispatch st;
            st = set_thread guest_thread_syscall_leave st;
            st = set_gpr (\<lambda>r. r(15 := pc + 4)) st
        in Resumed (st\<lparr>tr_signal := snd (guest_signal_deliver_pending H eintr syscall_number original_r0 (tr_signal st))\<rparr>))"

definition trap_handler ::
  "sig_host \<Rightarrow> u32 \<Rightarrow> (trap_state \<Rightarrow> trap_state) \<Rightarrow> int \<Rightarrow> siginfo \<Rightarrow> trap_state \<Rightarrow> trap_result" where
  "trap_handler H eintr linux_syscall_dispatch sig info st =
     (let pc = tr_gpr st 15 in
      if sig = SIGILL H \<and> pc = return_trampoline H then finish_return H False sig info pc st
      else if sig = SIGILL H \<and> pc = rt_return_trampoline H then finish_return H True sig info pc st
      else if sig = SIGSEGV H then emulate_kuser H sig info pc st
      else if sig \<noteq> SIGILL H then fatal_signal sig info pc
      else case arm_patch_original pc (tr_patches st) of
        None \<Rightarrow> deliver_or_die H 4 sig info pc st
      | Some original \<Rightarrow>
          if original AND ARM_TPIDRURO_MASK = ARM_TPIDRURO_READ then
            let destination = unat (drop_bit 12 original AND 15) in
            Resumed (set_gpr (\<lambda>r. (r(destination := runtime_guest_tls (se_thread (tr_signal st))))(15 := pc + 4)) st)
          else if original = ARM_LINUX_SVC_0 then emulate_svc H eintr linux_syscall_dispatch sig info pc st
          else fatal_signal sig info pc)"

text \<open>\<open>sigaction\<close> is the host's answer for each of the two signals.\<close>

definition install_guest_traps :: "sig_host \<Rightarrow> (int \<Rightarrow> host_errno) \<Rightarrow> host_errno" where
  "install_guest_traps H sigaction =
     (if sigaction (SIGILL H) \<noteq> NoError then sigaction (SIGILL H) else sigaction (SIGSEGV H))"

section \<open>Emulated instructions\<close>

lemma patched_original:
  assumes "length ps \<le> MAX_PATCHES" "arm_patch_range base len (ps, m) = (Done (), ps', m')"
    and "arm_patch_original a ps = None" "word_aligned a" "base \<le> a" "a < base + len" "sensitive (load32 m a)"
  shows "arm_patch_original a ps' = Some (load32 m a)"
  using arm_patch_original_new [OF assms(1,2), of a] assms(3-7) by simp

lemma tls_not_svc: "ARM_LINUX_SVC_0 AND ARM_TPIDRURO_MASK \<noteq> ARM_TPIDRURO_READ"
  by simp

lemma set_thread_fields:
  "tr_patches (set_thread f st) = tr_patches st" "tr_memory (set_thread f st) = tr_memory st"
  "tr_gpr (set_thread f st) = tr_gpr st" "se_thread (tr_signal (set_thread f st)) = f (se_thread (tr_signal st))"
  by (simp_all add: set_thread_def tr_gpr_def)

lemma set_gpr_fields:
  "tr_patches (set_gpr f st) = tr_patches st" "tr_memory (set_gpr f st) = tr_memory st"
  "tr_gpr (set_gpr f st) = f (tr_gpr st)" "se_thread (tr_signal (set_gpr f st)) = se_thread (tr_signal st)"
  "se_mem (tr_signal (set_gpr f st)) = se_mem (tr_signal st)"
  by (simp_all add: set_gpr_def tr_gpr_def)

lemma take_realtime_active: "syscall_active (snd (take_realtime n s)) = syscall_active s"
  by (induction n s rule: take_realtime.induct) (subst take_realtime.simps, simp add: Let_def)

lemma take_pending_active:
  "guest_thread_syscall_active (snd (guest_thread_take_pending t)) = guest_thread_syscall_active t"
  using take_realtime_active [of 32]
  by (auto simp: guest_thread_take_pending_def guest_thread_syscall_active_def Let_def case_prod_beta split: option.splits)

lemma signal_pending_active:
  "guest_thread_syscall_active (snd (guest_thread_signal_pending k i t)) = guest_thread_syscall_active t"
  by (auto simp: guest_thread_signal_pending_def guest_thread_syscall_active_def realtime_push_def standard_push_def
      Let_def split: option.splits)

lemma deliver_active:
  "guest_thread_syscall_active (se_thread (snd (guest_signal_deliver H k i e))) = guest_thread_syscall_active (se_thread e)"
proof -
  have "guest_thread_syscall_active (guest_thread_signal_mask_set w (snd (guest_thread_signal_delivery_mask t))) =
      guest_thread_syscall_active t" for w t
    by (auto simp: guest_thread_signal_mask_set_def guest_thread_signal_delivery_mask_def guest_thread_syscall_active_def
        split: option.splits)
  then show ?thesis
    using signal_pending_active [of k i "se_thread e"]
    by (auto simp: guest_signal_deliver_def Let_def case_prod_beta)
qed

lemma deliver_pending_active:
  "guest_thread_syscall_active (se_thread (snd (guest_signal_deliver_pending H eintr n r e))) =
    guest_thread_syscall_active (se_thread e)"
proof -
  obtain x s where t: "guest_thread_take_pending (se_thread e) = (x, s)" by (cases "guest_thread_take_pending (se_thread e)")
  have s: "guest_thread_syscall_active s = guest_thread_syscall_active (se_thread e)"
    using take_pending_active [of "se_thread e"] t by simp
  show ?thesis
  proof (cases x)
    case (Some p)
    then show ?thesis using t s by (cases p) (simp add: guest_signal_deliver_pending_def Let_def case_prod_beta deliver_active)
  qed (simp add: guest_signal_deliver_pending_def t s)
qed

text \<open>
  C15 (functional). A patched instruction behaves like the original one. Take a word that
  \<open>arm_patch_range\<close> replaced. When the guest reaches it, the trap handler resumes the guest, and if
  the word was a read of the thread register into \<open>r\<^sub>d\<close>, then \<open>r\<^sub>d\<close> holds the guest's thread pointer, the
  program counter has moved to the next word (also when \<open>d\<close> is the program counter itself)
  and nothing else has changed. If it was a system call other
  than a signal return, the dispatcher sees the registers of the guest with the thread marked
  as inside a system call, and afterwards that mark is gone.
\<close>

theorem patched_instruction_emulated:
  assumes table: "length ps \<le> MAX_PATCHES" and patch: "arm_patch_range base len (ps, m) = (Done (), tr_patches st, m')"
    and new: "arm_patch_original a ps = None" and a: "word_aligned a" "base \<le> a" "a < base + len" "sensitive (load32 m a)"
    and pc: "tr_gpr st 15 = a" and apart: "a \<noteq> return_trampoline H" "a \<noteq> rt_return_trampoline H" "SIGILL H \<noteq> SIGSEGV H"
    and call: "call = set_thread guest_thread_syscall_enter st"
    and ret: "ret = set_gpr (\<lambda>r. r(15 := a + 4)) (set_thread guest_thread_syscall_leave (dispatch call))"
  shows "(load32 m a AND ARM_TPIDRURO_MASK = ARM_TPIDRURO_READ \<longrightarrow>
      (\<exists>st'. trap_handler H eintr dispatch (SIGILL H) info st = Resumed st' \<and>
        tr_gpr st' = (tr_gpr st)(unat (drop_bit 12 (load32 m a) AND 15) := runtime_guest_tls (se_thread (tr_signal st)),
          15 := a + 4) \<and>
        se_mem (tr_signal st') = se_mem (tr_signal st) \<and> se_thread (tr_signal st') = se_thread (tr_signal st) \<and>
        tr_patches st' = tr_patches st \<and> tr_memory st' = tr_memory st)) \<and>
    (load32 m a = ARM_LINUX_SVC_0 \<and> tr_gpr st 7 \<noteq> 119 \<and> tr_gpr st 7 \<noteq> 173 \<longrightarrow>
      tr_gpr call = tr_gpr st \<and>
      guest_thread_syscall_active (se_thread (tr_signal call)) = (se_thread (tr_signal st) \<noteq> None) \<and>
      (\<exists>st'. trap_handler H eintr dispatch (SIGILL H) info st = Resumed st' \<and>
        st' = ret\<lparr>tr_signal := snd (guest_signal_deliver_pending H eintr (tr_gpr st 7) (tr_gpr st 0) (tr_signal ret))\<rparr> \<and>
        \<not> guest_thread_syscall_active (se_thread (tr_signal st'))))"
proof -
  have o: "arm_patch_original a (tr_patches st) = Some (load32 m a)"
    by (rule patched_original [OF table patch new a])
  have leave: "\<not> guest_thread_syscall_active (guest_thread_syscall_leave t)" for t
    by (cases t) (simp_all add: guest_thread_syscall_active_def guest_thread_syscall_leave_def)
  have enter: "guest_thread_syscall_active (guest_thread_syscall_enter t) = (t \<noteq> None)" for t
    by (cases t) (simp_all add: guest_thread_syscall_active_def guest_thread_syscall_enter_def)
  have tls: "trap_handler H eintr dispatch (SIGILL H) info st =
      Resumed (set_gpr (\<lambda>r. (r(unat (drop_bit 12 (load32 m a) AND 15) :=
        runtime_guest_tls (se_thread (tr_signal st))))(15 := a + 4)) st)"
    if "load32 m a AND ARM_TPIDRURO_MASK = ARM_TPIDRURO_READ"
    using that apart by (simp add: trap_handler_def Let_def pc o)
  have svc: "trap_handler H eintr dispatch (SIGILL H) info st =
      Resumed (ret\<lparr>tr_signal := snd (guest_signal_deliver_pending H eintr (tr_gpr st 7) (tr_gpr st 0) (tr_signal ret))\<rparr>)"
    if "load32 m a = ARM_LINUX_SVC_0" "tr_gpr st 7 \<noteq> 119" "tr_gpr st 7 \<noteq> 173"
    using that apart tls_not_svc by (simp add: trap_handler_def emulate_svc_def Let_def pc o ret call)
  show ?thesis
    using tls svc by (auto simp: set_gpr_fields set_thread_fields enter leave deliver_pending_active call ret)
qed

lemma next_signal_unblocked:
  "next_signal blocked q = Some (n, x) \<Longrightarrow> \<not> blocked n \<and> deliverable n"
  by (auto simp: next_signal_def deliverable_def find_Some_iff)

text \<open>
  C14 (liveness). A restartable system call that a signal interrupted is made again. Let the call have
  returned \<open>-EINTR\<close> with the program counter behind its instruction, and let the signal to be
  delivered have a handler with \<open>SA_RESTART\<close>. Then \<open>guest_signal_deliver_pending\<close> enters the handler,
  and once the handler returns with its frame intact, the program counter is back at the system
  call instruction with the original first argument and all other registers as the call left them.
\<close>

theorem interrupted_call_restarts:
  assumes t: "se_thread e = Some t" "queues_ok t"
    and pending: "next_signal (sig_member (signal_mask t)) (waiting t) = Some (k, i)"
    and act: "sa_handler (guest_actions e k) > 1" "sa_flags (guest_actions e k) AND LINUX_SA_RESTART \<noteq> 0"
    and call: "restartable_syscall n" "gpr (se_context e) 0 = - eintr" "gpr (se_context e) 15 = svc + 4"
    and vfp: "length (vfp_x (se_context e)) = 256"
  shows "\<exists>e1. guest_signal_deliver_pending H eintr n r0 e = (1, e1) \<and>
    gpr (se_context e1) 15 = sa_handler (guest_actions e k) \<and>
    (\<forall>e2 s2. gpr (se_context e2) 13 = gpr (se_context e1) 13 \<and> se_thread e2 = Some s2 \<and>
      agree (se_mem e1) (se_mem e2) (gpr (se_context e1) 13) 888 \<longrightarrow>
      (\<exists>e3. guest_signal_return H (sa_flags (guest_actions e k) AND LINUX_SA_SIGINFO \<noteq> 0) e2 = (0, e3) \<and>
        gpr (se_context e3) 15 = svc \<and> gpr (se_context e3) 0 = r0 \<and>
        (\<forall>j<15. j \<noteq> 0 \<longrightarrow> gpr (se_context e3) j = gpr (se_context e) j)))"
proof -
  obtain t1 where take: "guest_thread_take_pending (Some t) = (Some (k, i), Some t1)" "signal_mask t1 = signal_mask t"
    using take_pending_spec [OF t(2)] pending by auto
  have k: "1 \<le> k" "k \<le> 64" "\<not> sig_member (signal_mask t1) k"
    using next_signal_unblocked [OF pending] take(2) by (auto simp: deliverable_def)
  define c1 where "c1 = se_context e\<lparr>gpr := (gpr (se_context e))(0 := r0, 15 := svc)\<rparr>"
  define ea where "ea = e\<lparr>se_thread := Some t1, se_context := c1\<rparr>"
  have "fst (guest_signal_deliver H k (Some i) ea) = 0"
    using k act(1)
    by (simp add: guest_signal_deliver_def Let_def case_prod_beta ea_def guest_thread_signal_mask_get_def not_le)
  then obtain e1 where d: "guest_signal_deliver H k (Some i) ea = (0, e1)" by (metis prod.collapse)
  have run: "guest_signal_deliver_pending H eintr n r0 e = (1, e1)"
    using take(1) t(1) call act(2) d
    by (simp add: guest_signal_deliver_pending_def Let_def ea_def c1_def)
  have pc: "gpr (se_context e1) 15 = sa_handler (guest_actions e k)"
    using deliver_done(2) [OF d] by (simp add: handler_registers_def Let_def ea_def)
  have again: "\<exists>e3. guest_signal_return H (sa_flags (guest_actions e k) AND LINUX_SA_SIGINFO \<noteq> 0) e2 = (0, e3) \<and>
        gpr (se_context e3) 15 = svc \<and> gpr (se_context e3) 0 = r0 \<and>
        (\<forall>j<15. j \<noteq> 0 \<longrightarrow> gpr (se_context e3) j = gpr (se_context e) j)"
    if e2: "gpr (se_context e2) 13 = gpr (se_context e1) 13" "se_thread e2 = Some s2"
      "agree (se_mem e1) (se_mem e2) (gpr (se_context e1) 13) 888" for e2 s2
  proof -
    have v: "length (vfp_x (se_context ea)) = 256" using vfp by (simp add: ea_def c1_def)
    have rt: "(sa_flags (guest_actions e k) AND LINUX_SA_SIGINFO \<noteq> 0) \<longleftrightarrow>
        sa_flags (guest_actions ea k) AND 4 \<noteq> 0" by (simp add: ea_def)
    from signal_return_frame [OF d v e2(1,3) rt e2(2) refl]
    obtain e3 where r: "guest_signal_return H (sa_flags (guest_actions e k) AND LINUX_SA_SIGINFO \<noteq> 0) e2 = (0, e3)"
      and g: "\<forall>j<16. gpr (se_context e3) j = gpr (se_context ea) j" by (elim exE conjE)
    have "gpr (se_context ea) = (gpr (se_context e))(0 := r0, 15 := svc)" by (simp add: ea_def c1_def)
    with g have "gpr (se_context e3) 15 = svc \<and> gpr (se_context e3) 0 = r0 \<and>
        (\<forall>j<15. j \<noteq> 0 \<longrightarrow> gpr (se_context e3) j = gpr (se_context e) j)" by simp
    with r show ?thesis by blast
  qed
  show ?thesis
  proof (rule exI [of _ e1], intro conjI allI impI)
    fix e2 :: signal_env and s2
    assume "gpr (se_context e2) 13 = gpr (se_context e1) 13 \<and> se_thread e2 = Some s2 \<and>
      agree (se_mem e1) (se_mem e2) (gpr (se_context e1) 13) 888"
    then show "\<exists>e3. guest_signal_return H (sa_flags (guest_actions e k) AND LINUX_SA_SIGINFO \<noteq> 0) e2 = (0, e3) \<and>
        gpr (se_context e3) 15 = svc \<and> gpr (se_context e3) 0 = r0 \<and>
        (\<forall>j<15. j \<noteq> 0 \<longrightarrow> gpr (se_context e3) j = gpr (se_context e) j)" by (elim conjE) (rule again)
  qed (rule run pc)+
qed

section \<open>Witnesses\<close>

definition trap_demo :: trap_state where
  "trap_demo = \<lparr>tr_signal = demo_env\<lparr>se_context := demo_context\<lparr>gpr := (\<lambda>i. if i = 15 then 0x10004 else 0)\<rparr>,
       se_thread := Some (blank_thread\<lparr>guest_tls := 0x7777\<rparr>)\<rparr>,
     tr_patches = [\<lparr>pr_address = 0x10000, pr_original = ARM_LINUX_SVC_0\<rparr>,
       \<lparr>pr_address = 0x10004, pr_original = 0xEE1D3F70\<rparr>],
     tr_memory = guest_code\<rparr>"

theorem patched_instruction_emulated_witness:
  "\<exists>st'. trap_handler (qnx_signals\<lparr>return_trampoline := 0x20000, rt_return_trampoline := 0x20004\<rparr>) 4 (\<lambda>st. st) 4 zero_siginfo
      trap_demo = Resumed st' \<and> tr_gpr st' 3 = 0x7777 \<and> tr_gpr st' 15 = 0x10008"
proof -
  let ?H = "qnx_signals\<lparr>return_trampoline := 0x20000, rt_return_trampoline := 0x20004\<rparr>"
  have patch: "arm_patch_range 0x10000 8 ([], svc_page) = (Done (), tr_patches trap_demo,
      store32 (store32 svc_page 0x10000 ARM_UDF_TRAP) 0x10004 ARM_UDF_TRAP)"
    by (simp add: svc_page_patched trap_demo_def)
  have pc: "tr_gpr trap_demo 15 = 0x10004" by (simp add: trap_demo_def tr_gpr_def)
  have tls: "runtime_guest_tls (se_thread (tr_signal trap_demo)) = 0x7777" by (simp add: trap_demo_def runtime_guest_tls_def)
  have side: "arm_patch_original 0x10004 [] = None" "word_aligned 0x10004" "(0x10000 :: u32) \<le> 0x10004"
      "(0x10004 :: u32) < 0x10000 + 8" "sensitive (load32 svc_page 0x10004)"
      "(0x10004 :: u32) \<noteq> return_trampoline ?H" "(0x10004 :: u32) \<noteq> rt_return_trampoline ?H" "SIGILL ?H \<noteq> SIGSEGV ?H"
    by (simp_all add: arm_patch_original_def word_aligned_def svc_page_loads sensitive_def qnx_signals_def)
  have ill: "SIGILL ?H = 4" by (simp add: qnx_signals_def)
  from patched_instruction_emulated [OF _ patch side(1-5) pc side(6-8) refl refl, of 4 "\<lambda>st. st" zero_siginfo]
  obtain st' where "trap_handler ?H 4 (\<lambda>st. st) (SIGILL ?H) zero_siginfo trap_demo = Resumed st'"
    "tr_gpr st' = (tr_gpr trap_demo)(3 := 0x7777, 15 := 0x10008)"
    by (auto simp: svc_page_loads tls)
  then show ?thesis by (simp add: ill)
qed

definition restart_env :: signal_env where
  "restart_env = demo_env\<lparr>se_context := demo_context\<lparr>gpr := (\<lambda>i. if i = 15 then 0x10004 else if i = 0 then - 4 else 0x30000)\<rparr>,
     guest_actions := (\<lambda>_. demo_action\<lparr>sa_flags := LINUX_SA_RESTART\<rparr>),
     se_thread := snd (guest_thread_signal_pending 34 (Some zero_siginfo) (Some blank_thread))\<rparr>"

theorem interrupted_call_restarts_witness:
  "\<exists>e1. guest_signal_deliver_pending qnx_signals 4 3 9 restart_env = (1, e1) \<and> gpr (se_context e1) 15 = 0x20000"
proof -
  obtain t where t: "snd (guest_thread_signal_pending 34 (Some zero_siginfo) (Some blank_thread)) = Some t" "queues_ok t"
      "signal_mask t = signal_mask blank_thread"
    and w: "\<forall>n. deliverable n \<longrightarrow> waiting t n =
      (if n = 34 \<and> length (waiting blank_thread n) < capacity n then waiting blank_thread n @ [zero_siginfo]
       else waiting blank_thread n)"
    using signal_pending_spec [OF blank_queues(1), of 34 zero_siginfo] by auto
  have q: "waiting t n = (if n = 34 then [zero_siginfo] else [])" if "deliverable n" for n
    using w that by (auto simp: blank_queues capacity_def)
  have "next_signal (sig_member (signal_mask t)) (waiting t) = Some (34, hd (waiting t 34))"
    by (rule next_signal_Some) (auto simp: q deliverable_def t(3) blank_queues)
  then have n: "next_signal (sig_member (signal_mask t)) (waiting t) = Some (34, zero_siginfo)"
    by (simp add: q deliverable_def)
  have side: "se_thread restart_env = Some t" "sa_handler (guest_actions restart_env 34) > 1"
      "sa_flags (guest_actions restart_env 34) AND LINUX_SA_RESTART \<noteq> 0" "restartable_syscall 3"
      "gpr (se_context restart_env) 0 = - 4" "gpr (se_context restart_env) 15 = 0x10000 + 4"
      "length (vfp_x (se_context restart_env)) = 256" "sa_handler (guest_actions restart_env 34) = 0x20000"
    by (simp_all add: restart_env_def t(1) demo_action_def demo_context_def restartable_syscall_def word_less_nat_alt)
  note r = interrupted_call_restarts [OF side(1) t(2) n side(2-7), of qnx_signals 9, unfolded side(8)]
  then show ?thesis by (elim exE conjE) (intro exI conjI)
qed

end
