(* ===== verification/Linuxemu.thy ===== *)
theory Linuxemu
  imports Guest_Runtime Thread_Registry Guest_Trap
begin

text \<open>
  \<open>src/src/linuxemu.c\<close>: the main program, which puts the parts together: it reads the command
  line, initialises the process, path, thread, memory and trap code in turn, loads the guest image,
  builds its stack and enters it. The blocks under \<open>LINUXEMU_TESTING\<close> are left out.
\<close>

unbundle bit_operations_syntax

section \<open>State and host\<close>

record 'h emu_host =
  eh_mm :: "'h host_mm"
  eh_file :: "'h host_file"
  eh_proc :: "'h proc_host"
  eh_stack :: "'h stack_host"
  eh_sig :: sig_host
  eh_page_size :: int
  eh_getpid :: u32
  eh_self :: nat
  eh_key_create :: host_errno
  eh_setspecific :: host_errno
  eh_sigaction :: "int \<Rightarrow> host_errno"

record 'h machine =
  mc_runtime :: runtime
  mc_emulator :: string
  mc_paths :: guest_paths
  mc_threads :: thread_table
  mc_loader :: "'h loader"

text \<open>
  How the program ends: with a status after a message, in a fresh process that tries
  again, in the guest at an address with a stack pointer, or not at all because a step never returns.
\<close>

datatype 'h main_end =
    Exit int string
  | Restart string "string list" environment
  | Enter "'h machine" u32 u32
  | Never

definition getenv :: "string list \<Rightarrow> environment" where
  "getenv environ name =
     map_option (drop (length name + 1)) (find (starts_with (name @ ''='')) environ)"

text \<open>The three forms of the command line: root, directory, program to load, guest arguments.\<close>

definition command_line ::
  "string list \<Rightarrow> string list \<Rightarrow> (string option \<times> string option \<times> string \<times> string list) option" where
  "command_line environ argv =
     (if length argv \<ge> 6 \<and> argv ! 1 = ''--linuxemu-exec''
      then Some (Some (argv ! 2), Some (argv ! 3), argv ! 4, drop 5 argv)
      else if length argv \<ge> 2 then Some (getenv environ ''LINUXEMU_ROOT'', None, argv ! 1, drop 1 argv)
      else None)"

text \<open>The static variables of the memory code before anything ran.\<close>

definition static_memory :: guest_memory where
  "static_memory = \<lparr>load_segments = [], page_size = 0, current_break = 0, minimum_break = 0,
     break_mapping_end = 0, runtime_mappings = []\<rparr>"

section \<open>Start-up\<close>

definition start_paths ::
  "'h emu_host \<Rightarrow> string option \<Rightarrow> string option \<Rightarrow> 'h world \<Rightarrow> unit outcome \<times> guest_paths \<times> 'h world" where
  "start_paths H root cwd w =
     (let gp = \<lparr>root_path = [], guest_cwd = ''/''\<rparr>; F = ph_fs (eh_proc H); pm = ph_path_max (eh_proc H) in
      case root of None \<Rightarrow> (Done (), gp, w)
      | Some r \<Rightarrow>
          (case guest_path_initialize F r gp w of
             (Done _, gp, w) \<Rightarrow>
               (case cwd of None \<Rightarrow> (Done (), gp, w) | Some d \<Rightarrow> guest_path_chdir F pm gp d w)
           | x \<Rightarrow> x))"

definition start_tables :: "'h emu_host \<Rightarrow> (thread_table \<times> guest_memory) option" where
  "start_tables H =
     (case guest_thread_initialize (eh_getpid H) (eh_self H) (eh_key_create H) (eh_setspecific H)
             \<lparr>thread_states = (\<lambda>_. None), thread_registry = [], next_tid = 0\<rparr> of
        (Done _, T) \<Rightarrow>
          (case guest_memory_initialize (eh_page_size H) static_memory of
             (Done _, g) \<Rightarrow> if install_guest_traps (eh_sig H) (eh_sigaction H) = NoError then Some (T, g) else None
           | _ \<Rightarrow> None)
      | _ \<Rightarrow> None)"

text \<open>Loading the image and entering it. \<open>errno0\<close> is whatever \<open>errno\<close> holds before the load.\<close>

definition run_image ::
  "'h emu_host \<Rightarrow> string list \<Rightarrow> string list \<Rightarrow> string \<Rightarrow> string list \<Rightarrow> 'h machine \<Rightarrow> 'h main_end" where
  "run_image H environ argv load_path guest_argv mc =
     (let P = eh_proc H in
      case load_guest_image (eh_mm H) (eh_file H) (ph_fs P) (ph_path_max P) (mc_paths mc) load_path (mc_loader mc) of
        (Stuck, s) \<Rightarrow> Never
      | (Err, s) \<Rightarrow>
          if ld_errno s = EEXIST \<and> getenv environ ''LINUXEMU_TEST_OCCUPY_STATIC'' = None then
            (case guest_process_retry_load P (mc_emulator mc) argv (getenv environ) (ld_world s) of
               (Done (path, args, env), _, _) \<Rightarrow> Restart path args env
             | _ \<Rightarrow> Exit 1 ''linuxemu load'')
          else Exit 1 ''linuxemu load''
      | (Ret img, s) \<Rightarrow>
          (case create_guest_stack (eh_stack H) (host_page_size (mc_runtime mc)) img guest_argv environ
                  (ld_memory s, ld_world s) of
             (Done sp, g, w) \<Rightarrow>
               if sp = 0 then Exit 1 ''linuxemu stack''
               else Enter (mc\<lparr>mc_loader := s\<lparr>ld_memory := g, ld_world := w\<rparr>\<rparr>) (im_start_entry img) sp
           | (Hang, _) \<Rightarrow> Never
           | _ \<Rightarrow> Exit 1 ''linuxemu stack''))"

definition main ::
  "'h emu_host \<Rightarrow> host_errno \<Rightarrow> string list \<Rightarrow> string list \<Rightarrow> 'h world \<Rightarrow> 'h main_end" where
  "main H errno0 environ argv w =
     (case command_line environ argv of
        None \<Rightarrow> Exit 2 ''usage''
      | Some (root, cwd, load_path, guest_argv) \<Rightarrow>
          let rt = runtime_initialize (eh_page_size H) (getenv environ ''LINUXEMU_SYSTRACE'' \<noteq> None) in
          (case guest_process_initialize (eh_proc H) (case argv of [] \<Rightarrow> None | a # _ \<Rightarrow> Some a) w of
             (Done emulator, w) \<Rightarrow>
               (case start_paths H root cwd w of
                  (Done _, gp, w) \<Rightarrow>
                    (case start_tables H of
                       None \<Rightarrow> Exit 1 ''linuxemu initialization''
                     | Some (T, g) \<Rightarrow>
                         run_image H environ argv load_path guest_argv
                           \<lparr>mc_runtime = rt, mc_emulator = emulator, mc_paths = gp, mc_threads = T,
                             mc_loader = \<lparr>ld_patches = [], ld_memory = g, ld_world = w, ld_errno = errno0\<rparr>\<rparr>)
                | (Fault, _) \<Rightarrow> Never
                | (Hang, _) \<Rightarrow> Never
                | _ \<Rightarrow> Exit 1 ''linuxemu rootfs'')
           | _ \<Rightarrow> Exit 1 ''linuxemu executable''))"


section \<open>Properties\<close>

lemma memory_initialized:
  assumes "guest_memory_initialize n static_memory = (Done (), g)" and "n < 2 ^ 31"
  shows "page_ok g \<and> segments_ok g \<and> registry_ok (runtime_mappings g) \<and> runtime_mappings g = [] \<and> load_segments g = []"
proof -
  have n: "0 < n" "(of_int n :: u32) AND (of_int n - 1) = 0" and g: "g = static_memory\<lparr>page_size := of_int n\<rparr>"
    using assms(1) by (auto simp: guest_memory_initialize_def split: if_splits)
  have u: "unat (of_int n :: u32) = nat n"
  proof -
    have "uint (of_int n :: u32) = n" using n(1) assms(2) by (simp add: uint_word_of_int)
    then show ?thesis by (simp add: unat_eq_nat_uint)
  qed
  then have "(of_int n :: u32) \<noteq> 0" using n(1) by (metis nat_eq_iff2 unat_0 less_irrefl zero_less_nat_eq)
  from pow2_word_and [OF n(2) this] obtain k where k: "k < 32" "(of_int n :: u32) = 2 ^ k" by blast
  have "k \<le> 30"
  proof (rule ccontr)
    assume "\<not> k \<le> 30"
    then have "k = 31" using k(1) by simp
    then have "nat n = 2 ^ 31" using u k unat_pow2_u32 [of 31] by simp
    then show False using assms(2) by simp
  qed
  then have "page_ok g" using k(2) by (auto simp: page_ok_def g)
  then show ?thesis by (simp add: g static_memory_def segments_ok_def registry_ok_def ordered_def)
qed

lemma tables_started:
  assumes "start_tables H = Some (T, g)" and "eh_page_size H < 2 ^ 31"
  shows "table_ok T" "page_ok g" "segments_ok g" "registry_ok (runtime_mappings g)" "runtime_mappings g = []"
    "load_segments g = []"
proof -
  have T: "guest_thread_initialize (eh_getpid H) (eh_self H) (eh_key_create H) (eh_setspecific H)
      \<lparr>thread_states = (\<lambda>_. None), thread_registry = [], next_tid = 0\<rparr> = (Done (), T)"
    and g: "guest_memory_initialize (eh_page_size H) static_memory = (Done (), g)"
    using assms(1) by (auto simp: start_tables_def split: outcome.splits prod.splits if_splits)
  show "table_ok T"
    using T by (auto simp: guest_thread_initialize_def Let_def initial_valid intro!: table_ok_main split: if_splits)
  show "page_ok g" "segments_ok g" "registry_ok (runtime_mappings g)" "runtime_mappings g = []" "load_segments g = []"
    using memory_initialized [OF g assms(2)] by blast+
qed

lemma main_enter:
  assumes "main H errno0 environ argv w = Enter mc entry sp"
  obtains T g0 load_path guest_argv mc0 w1 where "start_tables H = Some (T, g0)"
    "run_image H environ argv load_path guest_argv mc0 = Enter mc entry sp" "mc_threads mc0 = T"
    "mc_loader mc0 = \<lparr>ld_patches = [], ld_memory = g0, ld_world = w1, ld_errno = errno0\<rparr>"
  using assms unfolding main_def Let_def
  by (auto split: option.splits outcome.splits prod.splits)

lemma run_image_enter:
  assumes "run_image H environ argv load_path guest_argv mc0 = Enter mc entry sp"
  obtains img s g w where
    "load_guest_image (eh_mm H) (eh_file H) (ph_fs (eh_proc H)) (ph_path_max (eh_proc H)) (mc_paths mc0) load_path
       (mc_loader mc0) = (Ret img, s)"
    "create_guest_stack (eh_stack H) (host_page_size (mc_runtime mc0)) img guest_argv environ (ld_memory s, ld_world s) =
       (Done sp, g, w)"
    "mc = mc0\<lparr>mc_loader := s\<lparr>ld_memory := g, ld_world := w\<rparr>\<rparr>" "entry = im_start_entry img"
  using assms unfolding run_image_def Let_def
  by (auto split: cret.splits outcome.splits prod.splits if_splits)

lemma executable_keeps:
  assumes "guest_memory_is_executable a n g" "runtime_mappings g = []" "load_segments g' = load_segments g"
  shows "guest_memory_is_executable a n g'"
  using assms by (auto simp: guest_memory_is_executable_def)

text \<open>
  C1 (safety). The emulator enters a guest only in a sound state. Whatever the image, the command line and
  the files are: if the main program reaches the guest, then the first instruction lies in executable
  guest memory, no loaded segment is both writable and executable, instructions have been
  patched, the stack pointer is 16-byte aligned in memory the guest owns and cannot execute, and the
  segment table, the registry of mappings and the thread table satisfy their invariants.
\<close>

theorem main_enters_sound:
  assumes run: "main H errno0 environ argv w = Enter mc entry sp" and page: "eh_page_size H < 2 ^ 31"
    and q: "quiet_random (eh_stack H)" and al: "page_aligned_mmap (sh_mm (eh_stack H))"
    and g: "g = ld_memory (mc_loader mc)"
  shows "guest_memory_is_executable entry 4 g \<and> (\<forall>s\<in>set (load_segments g). w_xor_x s) \<and>
    ld_patches (mc_loader mc) \<noteq> [] \<and> length (ld_patches (mc_loader mc)) \<le> MAX_PATCHES \<and>
    unat sp mod 16 = 0 \<and> owner (runtime_mappings g) sp = Some False \<and>
    segments_ok g \<and> registry_ok (runtime_mappings g) \<and> table_ok (mc_threads mc)"
proof -
  obtain T g0 load_path guest_argv mc0 w1 where st: "start_tables H = Some (T, g0)"
    and ri: "run_image H environ argv load_path guest_argv mc0 = Enter mc entry sp" and T: "mc_threads mc0 = T"
    and ld: "mc_loader mc0 = \<lparr>ld_patches = [], ld_memory = g0, ld_world = w1, ld_errno = errno0\<rparr>"
    by (rule main_enter [OF run])
  obtain img s g1 w2 where load: "load_guest_image (eh_mm H) (eh_file H) (ph_fs (eh_proc H)) (ph_path_max (eh_proc H))
      (mc_paths mc0) load_path (mc_loader mc0) = (Ret img, s)"
    and stk: "create_guest_stack (eh_stack H) (host_page_size (mc_runtime mc0)) img guest_argv environ
      (ld_memory s, ld_world s) = (Done sp, g1, w2)"
    and mc: "mc = mc0\<lparr>mc_loader := s\<lparr>ld_memory := g1, ld_world := w2\<rparr>\<rparr>" and entry: "entry = im_start_entry img"
    by (rule run_image_enter [OF ri])
  note tb = tables_started [OF st page]
  have loader: "page_ok (ld_memory (mc_loader mc0))" "segments_ok (ld_memory (mc_loader mc0))"
    "registry_ok (runtime_mappings (ld_memory (mc_loader mc0)))" "length (ld_patches (mc_loader mc0)) \<le> MAX_PATCHES"
    using tb unfolding ld by simp_all
  note facts = loaded_image_facts [OF load loader]
  have none: "runtime_mappings (ld_memory s) = []" using loaded_image_mappings [OF load] tb(5) unfolding ld by simp
  then have reg: "registry_ok (runtime_mappings (ld_memory s))" using tb(4,5) by simp
  note kept = created_stack_memory [OF stk reg]
  have mem: "g = g1" "ld_patches (mc_loader mc) = ld_patches s" "mc_threads mc = T" using g T by (simp_all add: mc)
  have "guest_memory_is_executable entry 4 g"
    using executable_keeps [OF _ none] facts kept unfolding mem(1) entry by blast
  moreover have "\<forall>x\<in>set (load_segments g). w_xor_x x"
    using facts kept tb(6) unfolding mem(1) ld by auto
  moreover have "segments_ok g" using facts kept unfolding mem(1) segments_ok_def segment_ok_def by simp
  moreover have "unat sp mod 16 = 0 \<and> owner (runtime_mappings g) sp = Some False"
  proof -
    from created_stack_facts [OF stk reg q al refl] obtain lower rnd ws where sp: "unat sp mod 16 = 0" "lower \<le> sp"
        "unat sp + 4 * length (ws :: u32 list) \<le> unat (rnd :: u32)" "unat rnd + 16 \<le> unat lower + 0x100000"
        "unat lower + 0x100000 \<le> unat GUEST_MAX_ADDRESS"
      and own: "\<forall>x. owner (runtime_mappings g1) x =
        (if lower \<le> x \<and> x < lower + GUEST_STACK_SIZE then Some False else owner (runtime_mappings (ld_memory s)) x)"
      by (elim exE conjE)
    have "unat (lower + GUEST_STACK_SIZE) = unat lower + 0x100000" using sp(5) by (simp add: unat_word_ariths)
    then have "sp < lower + GUEST_STACK_SIZE" using sp(3,4) by (simp add: word_less_nat_alt)
    then show ?thesis using own sp(1,2) unfolding mem(1) by simp
  qed
  ultimately show ?thesis using facts kept tb(1) unfolding mem by blast
qed

text \<open>
  C20 (roundtrip). What a guest's \<open>execve\<close> hands over is what the new emulator reads: from
  the vectors \<open>guest_process_exec\<close> builds, the main program recovers the root, the working directory,
  the host path of the program, or of the interpreter of a script, and the guest's
  arguments, with the interpreter, its option and the script's name in front for a script; the new
  environment has no root of its own, and traces if the old emulator did.
\<close>

theorem exec_main_roundtrip:
  assumes "guest_process_exec H trace emulator gp (Some hx) (Some gx) (Some argv) (Some envp) w = (Done (path, args, env), w')"
    and "read_shebang H gp hx w = (Done sb, w1)"
  shows "command_line env args = Some (Some (root_path gp), Some (guest_cwd gp),
      (case sb of None \<Rightarrow> hx | Some s \<Rightarrow> sb_host_path s),
      (case sb of None \<Rightarrow> argv
       | Some s \<Rightarrow> sb_interpreter s # (if sb_option s = [] then [] else [sb_option s]) @ gx # tl argv)) \<and>
    path = emulator \<and> getenv env ''LINUXEMU_ROOT'' = None \<and> (trace \<longrightarrow> getenv env ''LINUXEMU_SYSTRACE'' \<noteq> None)"
proof -
  obtain sh w2 where sh: "read_shebang H gp hx w = (Done sh, w2)" and ne: "argv \<noteq> []"
    and res: "path = emulator" "args = exec_arguments emulator gp hx gx argv sh" "env = exec_environment trace envp"
    by (rule exec_done [OF assms(1)]) simp
  have sb: "sh = sb" using sh assms(2) by simp
  have "command_line env args = Some (Some (root_path gp), Some (guest_cwd gp),
      (case sb of None \<Rightarrow> hx | Some s \<Rightarrow> sb_host_path s),
      (case sb of None \<Rightarrow> argv
       | Some s \<Rightarrow> sb_interpreter s # (if sb_option s = [] then [] else [sb_option s]) @ gx # tl argv))"
    using ne unfolding res sb by (cases argv; cases sb) (simp_all add: command_line_def exec_arguments_def)
  moreover have "getenv env ''LINUXEMU_ROOT'' = None"
    by (auto simp: res getenv_def exec_environment_def find_None_iff hidden_environment_def starts_with_def)
  moreover have "trace \<longrightarrow> getenv env ''LINUXEMU_SYSTRACE'' \<noteq> None"
    by (auto simp: res getenv_def exec_environment_def find_None_iff starts_with_def)
  ultimately show ?thesis using res(1) by blast
qed

section \<open>Witnesses\<close>

text \<open>The small program of the loader, started as \<open>ls -l\<close> without a root.\<close>

definition demo_emu :: "unit emu_host" where
  "demo_emu = \<lparr>eh_mm = obliging_mm, eh_file = one_file tiny_elf, eh_proc = script_host, eh_stack = stack_demo_host,
     eh_sig = qnx_signals, eh_page_size = 4096, eh_getpid = 7, eh_self = 1, eh_key_create = NoError,
     eh_setspecific = NoError, eh_sigaction = (\<lambda>_. NoError)\<rparr>"

lemma demo_emu_runs:
  "\<exists>mc. main demo_emu NoError [''A=1''] [''/emu'', ''ls'', ''-l''] nowhere = Enter mc 0x1007C 0x400FFF50"
proof -
  let ?t = "initial_guest_tid 7"
  let ?T = "\<lparr>thread_states = [MAIN_THREAD \<mapsto> blank_thread\<lparr>tid := ?t, host_thread := 1\<rparr>], thread_registry = [MAIN_THREAD],
    next_tid = ?t + 1\<rparr>"
  let ?m = "tiny_memory\<lparr>current_break := 0x10084, minimum_break := 0x10084, break_mapping_end := 0x11000\<rparr>"
  have start: "start_tables demo_emu = Some (?T, fresh_memory)"
    by (simp add: start_tables_def demo_emu_def guest_thread_initialize_def guest_memory_initialize_def static_memory_def
        fresh_memory_def install_guest_traps_def Let_def)
  have "filter guest_environment_entry [''A=1''] = [''A=1'']" "runtime_mappings ?m = []"
    by (simp_all add: guest_environment_entry_def starts_with_def tiny_memory_def fresh_memory_def)
  then obtain g w where stk: "create_guest_stack stack_demo_host 4096 tiny_image [''ls'', ''-l''] [''A=1'']
      (?m, ld_world tiny_loaded) = (Done 0x400FFF50, g, w)"
    using demo_stack by blast
  have entry: "im_start_entry tiny_image = 0x1007C" by (simp add: tiny_image_def)
  have env: "getenv [''A=1''] ''LINUXEMU_ROOT'' = None" by (simp add: getenv_def starts_with_def)
  have pm: "ph_path_max (eh_proc demo_emu) = 1024" "eh_mm demo_emu = obliging_mm" "eh_file demo_emu = one_file tiny_elf"
    "eh_stack demo_emu = stack_demo_host" "eh_page_size demo_emu = 4096" "eh_proc demo_emu = script_host"
    "ph_path_max script_host = 1024" "guest_process_initialize script_host (Some ''/emu'') nowhere = (Done ''/emu'', nowhere)"
    by (simp_all add: demo_emu_def script_host_def linked_fs_def guest_process_initialize_def)
  have ld: "\<lparr>ld_patches = [], ld_memory = fresh_memory, ld_world = nowhere, ld_errno = NoError\<rparr> = empty_loader ()"
    by (simp add: empty_loader_def)
  have "start_paths demo_emu None None nowhere = (Done (), \<lparr>root_path = [], guest_cwd = ''/''\<rparr>, nowhere)"
    by (simp add: start_paths_def)
  then show ?thesis
    by (simp add: main_def command_line_def env pm start run_image_def ld tiny_load stk runtime_initialize_def Let_def
        entry)
qed

theorem exec_main_roundtrip_witness:
  "command_line [''A=1''] [''/emu'', ''--linuxemu-exec'', ''/g'', ''/'', ''/g/bin/sh'', ''/bin/sh'', ''-e'', ''/run'', ''x''] =
     Some (Some ''/g'', Some ''/'', ''/g/bin/sh'', [''/bin/sh'', ''-e'', ''/run'', ''x''])"
  using exec_main_roundtrip [OF script_exec script_shebang] by simp

theorem main_enters_sound_witness:
  "\<exists>mc. main demo_emu NoError [''A=1''] [''/emu'', ''ls'', ''-l''] nowhere = Enter mc 0x1007C 0x400FFF50 \<and>
     guest_memory_is_executable 0x1007C 4 (ld_memory (mc_loader mc)) \<and>
     owner (runtime_mappings (ld_memory (mc_loader mc))) 0x400FFF50 = Some False"
proof -
  obtain mc where run: "main demo_emu NoError [''A=1''] [''/emu'', ''ls'', ''-l''] nowhere = Enter mc 0x1007C 0x400FFF50"
    using demo_emu_runs by blast
  have side: "eh_page_size demo_emu < 2 ^ 31" "quiet_random (eh_stack demo_emu)" "page_aligned_mmap (sh_mm (eh_stack demo_emu))"
    by (simp_all add: demo_emu_def quiet_random_def page_aligned_mmap_def stack_demo_host_def)
  from main_enters_sound [OF run side refl] show ?thesis using run by blast
qed

end
