(* ===== verification/Spec2Isabelle.thy ===== *)
theory Spec2Isabelle
  imports Linux_Mm Linux_Time Linux_Termios Linux_Poll Linux_Socket Descriptor_Table Linuxemu
begin

text \<open>
  \<^bold>\<open>Linuxemu\<close> runs 32-bit ARM Linux programs on QNX without a kernel. It loads the guest's ELF
  objects into its own address space, replaces every system call instruction and every read of the
  thread register by an undefined instruction, and enters the guest. The guest then runs natively until
  a replaced instruction traps; the trap handler looks up the original instruction, translates the call
  into calls of the host, and resumes behind it. This development models the C sources under
  \<open>src/src\<close> as functions on explicit states and proves what makes them correct.

  \<^bold>\<open>Conventions.\<close> Registers, addresses and lengths are 32-bit words with their wrap-around; C
  variables of 64 bits and host integers are \<open>int\<close> or \<open>nat\<close> where the code cannot overflow
  them. Memory is a function from addresses to bytes (theory \<open>Prelude\<close>). A call that may fail
  yields an \<open>outcome\<close>: \<open>Done\<close>, \<open>Fail\<close> with an error number, \<open>FailStale\<close> where
  the code reports failure without setting \<open>errno\<close>, \<open>Fault\<close> where it would write outside an
  array, \<open>Hang\<close> where a loop does not end. What a system call hands back is a \<open>sysret\<close>: a
  value, a host error that went through \<open>linux_errno_number\<close>, a host error number returned as it
  is, or a Linux number. The host (QNX) is always a parameter: a record of functions, one for each host
  call a component makes, over a type of host states that stays abstract (\<open>Host\<close> and the records
  \<open>host_mm\<close>, \<open>host_file\<close>, \<open>host_fs\<close>, \<open>sig_host\<close>, \<open>proc_host\<close>,
  \<open>stack_host\<close>, \<open>time_host\<close>, \<open>tty_host\<close>, \<open>poll_host\<close>, \<open>sock_host\<close>,
  \<open>file_host\<close>). Where a
  theorem relies on the host, what it relies on is a named hypothesis, and a witness instantiates it.

  \<^bold>\<open>Theories and sources.\<close>
  \<^item> \<open>Prelude\<close>, \<open>Host\<close>: words, bytes, little-endian loads and stores, disjoint ranges, outcomes;
    the state of the host and its memory calls.
  \<^item> \<open>Util\<close> (\<open>util.c\<close>): alignment and the exact read. On a regular file the read loop returns,
    whatever the pieces it gets and however often it is interrupted.
  \<^item> \<open>Linux_Abi\<close> (\<open>linux_abi.c\<close>): error numbers, open flags, the layouts of \<open>stat64\<close> and
    \<open>rusage\<close>, each with its offsets and round trips.
  \<^item> \<open>Elf_Format\<close>, \<open>Arm_Patch\<close> (\<open>arm_patch.c\<close>): the table of replaced instructions as an
    undo log (locale \<open>undo_log\<close>): rolling back restores table and memory, patching a mapping leaves no
    sensitive instruction in its executable sections and writes nothing outside.
  \<^item> \<open>Runtime_Map\<close>, \<open>Guest_Memory\<close> (\<open>guest_memory.c\<close>): the sorted array of runtime
    mappings refines a map from addresses to owners (locale \<open>range_registry\<close>); load segments; the
    program break.
  \<^item> \<open>Guest_Path\<close> (\<open>guest_path.c\<close>): normalisation equals the lexical normal form; no path, however
    it goes through links or \<open>..\<close>, resolves outside the root.
  \<^item> \<open>Elf_Loader\<close> (\<open>elf_loader.c\<close>): validation and loading of program and interpreter; a failed
    load is undone, a loaded image is sound (locale \<open>loader_step\<close>).
  \<^item> \<open>Guest_Thread\<close>, \<open>Thread_Registry\<close> (\<open>guest_thread.c\<close>): pending words and rings refine
    queues of signals (locale \<open>signal_queues\<close>); thread numbers, clone, exit and fork.
  \<^item> \<open>Linux_Futex\<close> (\<open>linux_futex.c\<close>): critical sections as steps of a transition system; no
    wake-up is lost or invented in any interleaving.
  \<^item> \<open>Guest_Signal\<close> (\<open>guest_signal.c\<close>): signal frames, masks, actions; returning from a handler
    restores what delivery saved.
  \<^item> \<open>Linux_Mm\<close> (\<open>linux_syscall.c\<close>, the memory calls): \<open>mmap2\<close>, \<open>mprotect\<close>,
    \<open>munmap\<close> as transactions on registry, patch table and memory (locale \<open>memory_call\<close>).
  \<^item> \<open>Linux_Files\<close> (\<open>linux_syscall.c\<close>, the calls on descriptors and paths): the tables of paths,
    directory streams and wake descriptors; every call with a path stays below the root, and directory
    listings give back what the host delivers. \<open>Descriptor_Table\<close>: these tables agree with what the
    host has open after every sequence of calls, unless the guest closes what the emulator holds.
  \<^item> \<open>Linux_Time\<close>, \<open>Linux_Termios\<close>, \<open>Linux_Poll\<close>, \<open>Linux_Socket\<close> (the files of the same
    names): clocks and sleeps, terminal attributes, waiting with and without signal masks, sockets and
    their addresses.
  \<^item> \<open>Guest_Process\<close> (\<open>guest_process.c\<close>), \<open>Guest_Runtime\<close> (\<open>runtime.c\<close>): re-execution of
    the emulator, scripts, the initial stack.
  \<^item> \<open>Guest_Trap\<close> (\<open>trap.c\<close>): the trap handler, emulation of replaced instructions and of the
    kernel's user helpers, restart of interrupted calls.
  \<^item> \<open>Linuxemu\<close> (\<open>linuxemu.c\<close>): the main program, which composes path, loader, thread, signal and
    stack initialisation in the order of the code.

  \<^bold>\<open>How the parts interact.\<close> The main program leaves the state in which the guest is entered, and the
  theorem about it collects the invariants the other parts keep: patched segments that are never writable
  and executable, an owned stack, a well-formed registry and thread table. The trap handler takes the
  patch table the loader and the memory calls fill. Delivery and return of signals work on the pending
  queues of the thread component, and the masked waits of \<open>Linux_Poll\<close> use its wait state. Thread exit
  stores into guest memory, wakes futex waiters and releases a stack in the registry. \<open>execve\<close> builds
  the vectors from which the next main program recovers root, directory, program and arguments.

  \<^bold>\<open>Loops and bounds.\<close> No model uses fuel. Loops bounded by the code are structural recursion or
  \<open>function\<close>s with a measure; path resolution ends because links are counted up to 40; loops that wait
  for the host (reads, random bytes) are partial functions whose termination is a theorem. Array bounds
  (2048 mappings, 32 segments, 4096 patches, 4096 exec entries, 64 queued signals) are those of the code.

  \<^bold>\<open>Not modelled.\<close> The dispatcher of \<open>linux_syscall.c\<close>, which selects the handler and stores its
  result, and its remaining small calls (resource limits, \<open>writev\<close>, \<open>fstatfs64\<close>, \<open>wait4\<close>,
  \<open>uname\<close>, \<open>getrandom\<close>, \<open>flock\<close>, fork and the identity calls); the assembly stubs that enter and resume the guest; trace output
  and the blocks under \<open>LINUXEMU_TESTING\<close>; locks, which appear as atomic steps; the probes, tests and
  scripts beside the emulator, which are not part of it.
\<close>

end
